(* ===== verification/Prelude.thy ===== *)
theory Prelude
  imports Main "HOL-Library.Multiset"
begin

text \<open>
  Shared vocabulary of the development: the collections of facts the component theories
  feed, the result type of fallible code, the JavaScript library functions the sources use
  (\<open>Array.prototype.find\<close>, a stable \<open>Array.prototype.sort\<close>, decimal
  \<open>Number.prototype.toString\<close>) and generic lemmas on lists and sums.
\<close>

section \<open>Collections of facts\<close>

named_theorems chip_simps \<open>what an operation does to chip totals\<close>
named_theorems inv_intros \<open>an operation preserves its component's invariant\<close>
named_theorems frame_simps \<open>what an operation leaves unchanged\<close>
named_theorems ledger_simps \<open>what an operation does to the ledger\<close>

section \<open>Fallible code\<close>

text \<open>
  A function that may throw returns \<open>'e + 'a\<close>: \<open>Inl e\<close> is the thrown error,
  \<open>Inr x\<close> the value returned. \<open>rbind\<close> is sequencing: the first error stops the rest.
\<close>

definition rbind :: "'e + 'a \<Rightarrow> ('a \<Rightarrow> 'e + 'b) \<Rightarrow> 'e + 'b" where
  "rbind r f = (case r of Inl e \<Rightarrow> Inl e | Inr x \<Rightarrow> f x)"

lemma rbind_Inl [simp]: "rbind (Inl e) f = Inl e"
  by (simp add: rbind_def)

lemma rbind_Inr [simp]: "rbind (Inr x) f = f x"
  by (simp add: rbind_def)

lemma rbind_eq_Inr_iff: "rbind r f = Inr y \<longleftrightarrow> (\<exists>x. r = Inr x \<and> f x = Inr y)"
  by (cases r) auto

lemma rbind_eq_Inl_iff:
  "rbind r f = Inl e \<longleftrightarrow> r = Inl e \<or> (\<exists>x. r = Inr x \<and> f x = Inl e)"
  by (cases r) auto

lemma rbind_InrE:
  assumes "rbind r f = Inr y"
  obtains x where "r = Inr x" "f x = Inr y"
  using assms by (auto simp: rbind_eq_Inr_iff)

text \<open>\<open>findOrFail\<close>-style lookups: an absent value is the error given.\<close>

definition or_fail :: "'e \<Rightarrow> 'a option \<Rightarrow> 'e + 'a" where
  "or_fail e r = (case r of None \<Rightarrow> Inl e | Some x \<Rightarrow> Inr x)"

lemma or_fail_simps [simp]:
  "or_fail e None = Inl e" "or_fail e (Some x) = Inr x"
  by (simp_all add: or_fail_def)

lemma or_fail_eq_Inr_iff [simp]: "or_fail e r = Inr x \<longleftrightarrow> r = Some x"
  by (cases r) auto

section \<open>Stable sorting with a comparator\<close>

text \<open>
  \<open>Array.prototype.sort\<close> is stable. \<open>le a b\<close> stands for \<open>compare(a, b) <= 0\<close>.
\<close>

fun js_insert :: "('a \<Rightarrow> 'a \<Rightarrow> bool) \<Rightarrow> 'a \<Rightarrow> 'a list \<Rightarrow> 'a list" where
  "js_insert le x [] = [x]"
| "js_insert le x (y # ys) = (if le x y then x # y # ys else y # js_insert le x ys)"

fun js_sort :: "('a \<Rightarrow> 'a \<Rightarrow> bool) \<Rightarrow> 'a list \<Rightarrow> 'a list" where
  "js_sort le [] = []"
| "js_sort le (x # xs) = js_insert le x (js_sort le xs)"

lemma mset_js_insert [simp]: "mset (js_insert le x xs) = add_mset x (mset xs)"
  by (induction xs) auto

lemma mset_js_sort [simp]: "mset (js_sort le xs) = mset xs"
  by (induction xs) auto

lemma set_js_insert [simp]: "set (js_insert le x xs) = insert x (set xs)"
  by (induction xs) auto

lemma set_js_sort [simp]: "set (js_sort le xs) = set xs"
  by (rule mset_eq_setD) simp

lemma length_js_sort [simp]: "length (js_sort le xs) = length xs"
  by (metis mset_js_sort size_mset)

lemma distinct_js_sort [simp]: "distinct (js_sort le xs) = distinct xs"
  by (metis mset_js_sort mset_eq_imp_distinct_iff)

lemma sorted_js_insert:
  assumes "\<And>a b. \<not> le a b \<Longrightarrow> le b a" and "\<And>a b c. le a b \<Longrightarrow> le b c \<Longrightarrow> le a c"
    and "sorted_wrt le xs"
  shows "sorted_wrt le (js_insert le x xs)"
  using assms(3) by (induction xs) (auto intro: assms(1,2))

lemma sorted_js_sort:
  assumes "\<And>a b. \<not> le a b \<Longrightarrow> le b a" and "\<And>a b c. le a b \<Longrightarrow> le b c \<Longrightarrow> le a c"
  shows "sorted_wrt le (js_sort le xs)"
  by (induction xs) (auto intro: sorted_js_insert [OF assms])

text \<open>\<open>Array.from(new Set(xs))\<close>: the distinct elements in order of first occurrence.\<close>

definition js_unique :: "'a list \<Rightarrow> 'a list" where
  "js_unique xs = rev (remdups (rev xs))"

lemma set_js_unique [simp]: "set (js_unique xs) = set xs"
  by (simp add: js_unique_def)

lemma distinct_js_unique [simp]: "distinct (js_unique xs)"
  by (simp add: js_unique_def)

section \<open>Decimal representation\<close>

fun nat_digits :: "nat \<Rightarrow> string" where
  "nat_digits n =
     (if n < 10 then [char_of (48 + n)] else nat_digits (n div 10) @ [char_of (48 + n mod 10)])"

declare nat_digits.simps [simp del]

definition int_to_string :: "int \<Rightarrow> string" where
  "int_to_string z = (if z < 0 then CHR ''-'' # nat_digits (nat (- z)) else nat_digits (nat z))"

definition js_space :: "char \<Rightarrow> bool" where
  "js_space c = (let n = of_char c :: nat in n = 32 \<or> n = 160 \<or> (9 \<le> n \<and> n \<le> 13))"

definition js_digit :: "char \<Rightarrow> bool" where
  "js_digit c = (let n = of_char c :: nat in 48 \<le> n \<and> n \<le> 57)"

definition dec_value :: "string \<Rightarrow> nat" where
  "dec_value s = foldl (\<lambda>a c. a * 10 + (of_char c - 48)) 0 s"

text \<open>\<open>parseInt(s, 10)\<close>: leading white space, a sign, the longest prefix of digits; \<open>None\<close>
  is \<open>NaN\<close>.\<close>

definition parseInt10 :: "string \<Rightarrow> int option" where
  "parseInt10 s =
     (let t = dropWhile js_space s;
          (sgn, u) = (case t of
              [] \<Rightarrow> (1, t)
            | c # r \<Rightarrow> if c = CHR ''-'' then (- 1, r) else if c = CHR ''+'' then (1, r) else (1, t));
          ds = takeWhile js_digit u
      in if ds = [] then None else Some (sgn * int (dec_value ds)))"

lemma of_char_digit: "d < 10 \<Longrightarrow> of_char (char_of (48 + d :: nat)) = (48 + d :: nat)"
  by (simp add: of_char_of)

lemma nat_digits_props: "nat_digits n \<noteq> []" "\<forall>c\<in>set (nat_digits n). js_digit c" "dec_value (nat_digits n) = n"
proof (induction n rule: nat_digits.induct)
  case (1 n)
  { case 1 show ?case by (subst nat_digits.simps) simp }
  { case 2 show ?case
      using "1.IH" by (subst nat_digits.simps) (auto simp: js_digit_def of_char_digit) }
  { case 3 show ?case
      using "1.IH" by (subst nat_digits.simps) (auto simp: dec_value_def of_char_digit) }
qed

lemma digit_not_space: "js_digit c \<Longrightarrow> \<not> js_space c \<and> c \<noteq> CHR ''-'' \<and> c \<noteq> CHR ''+''"
  by (auto simp: js_digit_def js_space_def Let_def)

lemma parseInt10_int_to_string [simp]: "parseInt10 (int_to_string z) = Some z"
proof -
  have tw: "takeWhile js_digit (nat_digits n) = nat_digits n" for n
    using nat_digits_props(2) by (simp add: takeWhile_eq_all_conv)
  have hd: "\<exists>c cs. nat_digits n = c # cs \<and> js_digit c" for n
    using nat_digits_props(1,2) by (metis list.set_intros(1) neq_Nil_conv)
  show ?thesis
  proof (cases "z < 0")
    case True
    then show ?thesis
      using nat_digits_props(1,3) [of "nat (- z)"]
      by (simp add: parseInt10_def int_to_string_def js_space_def tw Let_def)
  next
    case False
    obtain c cs where c: "nat_digits (nat z) = c # cs" "js_digit c"
      using hd by blast
    then show ?thesis
      using tw [of "nat z"] nat_digits_props(3) [of "nat z"] False digit_not_space [OF c(2)]
      by (simp add: parseInt10_def int_to_string_def Let_def takeWhile_eq_all_conv [THEN iffD2])
  qed
qed

lemma int_to_string_inject [simp]: "int_to_string a = int_to_string b \<longleftrightarrow> a = b"
  using parseInt10_int_to_string by (metis option.inject)

section \<open>Lists and sums\<close>

lemma sum_list_update_int:
  fixes xs :: "int list"
  shows "i < length xs \<Longrightarrow> sum_list (xs[i := v]) = sum_list xs - xs ! i + v"
proof (induction xs arbitrary: i)
  case Nil
  then show ?case by simp
next
  case (Cons x xs)
  then show ?case by (cases i) auto
qed

lemma sum_list_map_update:
  fixes f :: "'a \<Rightarrow> int"
  assumes "i < length xs"
  shows "sum_list (map f (xs[i := v])) = sum_list (map f xs) - f (xs ! i) + f v"
  using assms sum_list_update_int [of i "map f xs" "f v"] by (simp add: map_update)

lemma find_Some_nth:
  assumes "List.find P xs = Some x"
  shows "x \<in> set xs" "P x"
  using assms by (auto simp: find_Some_iff)

lemma sum_list_filter_split:
  fixes f :: "'a \<Rightarrow> int"
  shows "sum_list (map f (filter P xs)) + sum_list (map f (filter (\<lambda>x. \<not> P x) xs))
         = sum_list (map f xs)"
  by (induction xs) auto

lemma sum_list_nonneg_int:
  fixes xs :: "int list"
  shows "(\<And>x. x \<in> set xs \<Longrightarrow> 0 \<le> x) \<Longrightarrow> 0 \<le> sum_list xs"
  by (induction xs) auto

lemma map_update_same: "f p = f (xs ! k) \<Longrightarrow> map f (xs[k := p]) = map f xs"
  by (cases "k < length xs") (simp_all add: map_update list_update_same_conv list_update_beyond)

lemma map_frame:
  assumes "map u xs = map u ys" "\<And>p. f (u p) = f p"
  shows "map f xs = map f ys"
proof -
  have "f = f \<circ> u" using assms(2) by auto
  then show ?thesis using assms(1) by (metis map_map)
qed

end
