(* ===== verification/Doubles.thy ===== *)
theory Doubles
  imports Complex_Main "HOL-Library.Log_Nat"
begin

text \<open>
  JavaScript numbers. A value that is an integer of at most 53 bits is modelled by
  \<open>int\<close> or \<open>nat\<close>; where the code leaves the integers (the quotient and the product in
  \<open>shared/verify\<close>) a number is a \<open>rat\<close> and every operation is rounded by \<open>fl\<close>,
  IEEE-754 double rounding to nearest, ties to even, on the normal range (the code's values
  stay far from overflow and underflow). \<open>fl_rel_error\<close> is the standard relative error bound.
\<close>

definition fl_exponent :: "rat \<Rightarrow> int" where
  "fl_exponent q =
     (let (a, b) = quotient_of \<bar>q\<bar>;
          e = int (floorlog 2 (nat a)) - int (floorlog 2 (nat b))
      in if \<bar>q\<bar> < 2 powi e then e - 1 else e)"

definition round_half_even :: "rat \<Rightarrow> int" where
  "round_half_even q =
     (let f = \<lfloor>q\<rfloor>; d = q - of_int f
      in if d < 1 / 2 then f else if 1 / 2 < d then f + 1 else if even f then f else f + 1)"

definition fl :: "rat \<Rightarrow> rat" where
  "fl q = (if q = 0 then 0
           else let u = 2 powi (fl_exponent q - 52) in of_int (round_half_even (q / u)) * u)"

lemma round_half_even_error: "\<bar>of_int (round_half_even q) - q\<bar> \<le> 1 / 2"
proof -
  have "of_int \<lfloor>q\<rfloor> \<le> q" "q < of_int \<lfloor>q\<rfloor> + 1"
    by linarith+
  then show ?thesis
    by (auto simp: round_half_even_def Let_def abs_le_iff)
qed

lemma fl_exponent_lower:
  assumes "q \<noteq> 0"
  shows "2 powi fl_exponent q \<le> \<bar>q\<bar>"
proof -
  obtain a b where ab: "quotient_of \<bar>q\<bar> = (a, b)" by fastforce
  then have b: "0 < b" and q: "\<bar>q\<bar> = of_int a / of_int b"
    using quotient_of_denom_pos quotient_of_div by blast+
  have a: "0 < a"
    using assms q b by (metis abs_le_zero_iff divide_nonpos_pos linorder_not_less of_int_0_less_iff
        of_int_le_0_iff)
  define x y where "x = floorlog 2 (nat a)" and "y = floorlog 2 (nat b)"
  have xa: "2 ^ (x - 1) \<le> nat a" and x0: "0 < x"
    using floorlog_bounds [of "nat a" 2] floorlog_eq_zero_iff [of 2 "nat a"] a
    by (auto simp: x_def)
  have yb: "nat b < 2 ^ y"
    using floorlog_bounds [of "nat b" 2] b by (auto simp: y_def)
  have A: "(2::rat) ^ (x - 1) \<le> of_int a"
    by (metis a int_nat_eq less_imp_le of_int_of_nat_eq of_nat_le_iff of_nat_numeral of_nat_power xa)
  have B: "of_int b \<le> (2::rat) ^ y"
    by (metis b int_nat_eq less_imp_le of_int_of_nat_eq of_nat_le_iff of_nat_numeral of_nat_power yb)
  have "(2::rat) powi (int x - int y - 1) = 2 ^ (x - 1) / 2 ^ y"
    using x0 by (simp add: power_int_diff flip: power_int_of_nat)
  also have "\<dots> \<le> of_int a / of_int b"
    by (rule frac_le [OF _ A _ B]) (use a b in auto)
  finally have "(2::rat) powi (int x - int y - 1) \<le> \<bar>q\<bar>"
    using q by simp
  then show ?thesis
    by (auto simp: fl_exponent_def ab x_def y_def Let_def)
qed

theorem fl_rel_error: "\<bar>fl q - q\<bar> \<le> \<bar>q\<bar> / 2 ^ 53"
proof (cases "q = 0")
  case True
  then show ?thesis by (simp add: fl_def)
next
  case False
  define u :: rat where "u = 2 powi (fl_exponent q - 52)"
  have u: "0 < u" by (simp add: u_def)
  have uq: "u \<le> \<bar>q\<bar> / 2 ^ 52"
    using fl_exponent_lower [OF False] by (simp add: u_def power_int_diff divide_right_mono)
  have "\<bar>of_int (round_half_even (q / u)) * u - q\<bar>
        = \<bar>(of_int (round_half_even (q / u)) - q / u) * u\<bar>"
    using u by (simp add: algebra_simps)
  also have "\<dots> = \<bar>of_int (round_half_even (q / u)) - q / u\<bar> * u"
    using u by (simp add: abs_mult)
  also have "\<dots> \<le> 1 / 2 * u"
    using round_half_even_error u by (intro mult_right_mono) auto
  also have "\<dots> \<le> \<bar>q\<bar> / 2 ^ 53"
    using uq by simp
  finally show ?thesis
    using False by (simp add: fl_def u_def Let_def)
qed

lemma fl_bounds: "q - \<bar>q\<bar> / 2 ^ 53 \<le> fl q" "fl q \<le> q + \<bar>q\<bar> / 2 ^ 53"
  using fl_rel_error [of q] unfolding abs_le_iff by linarith+

lemma fl_neg: "q < 0 \<Longrightarrow> fl q < 0"
  using fl_bounds(2) [of q] by simp

lemma fl_nonneg: "0 \<le> q \<Longrightarrow> 0 \<le> fl q"
  using fl_bounds(1) [of q] by simp

lemma fl_upper: "0 \<le> q \<Longrightarrow> fl q \<le> q + q / 2 ^ 53"
  using fl_bounds(2) [of q] by simp

end
