(* ===== verification/Verify.thy ===== *)
theory Verify
  imports Prelude Doubles "HOL-Library.Word"
begin

unbundle bit_operations_syntax

text \<open>
  \<open>shared/verify/index.ts\<close> and \<open>backend/src/game/rng.ts\<close>: hexadecimal coding of bytes,
  the SHA-256 commitment, the hash-based generator, the shuffle and the per-hand
  commit-reveal object \<open>HandRNG\<close>.

  SHA-256 is the package \<open>js-sha256\<close>: the model takes its two outputs as parameters,
  \<open>sha_array\<close> (\<open>hash.array()\<close>) and \<open>sha_hex\<close> (\<open>hash.hex()\<close>), as functions of the
  concatenation of the bytes given to \<open>update\<close>.
\<close>

type_synonym bytes = "8 word list"

section \<open>Hexadecimal coding\<close>

text \<open>
  \<open>parseInt(s, 16)\<close>: leading white space, a sign, an optional \<open>0x\<close>, then the longest
  prefix of hexadecimal digits; \<open>None\<close> is \<open>NaN\<close>.
\<close>

definition hex_value :: "char \<Rightarrow> nat option" where
  "hex_value c =
     (let n = of_char c :: nat in
      if 48 \<le> n \<and> n \<le> 57 then Some (n - 48)
      else if 97 \<le> n \<and> n \<le> 102 then Some (n - 87)
      else if 65 \<le> n \<and> n \<le> 70 then Some (n - 55)
      else None)"

fun hex_prefix :: "nat option \<Rightarrow> string \<Rightarrow> nat option" where
  "hex_prefix acc [] = acc"
| "hex_prefix acc (c # cs) =
     (case hex_value c of
        None \<Rightarrow> acc
      | Some d \<Rightarrow> hex_prefix (Some ((case acc of None \<Rightarrow> 0 | Some a \<Rightarrow> a) * 16 + d)) cs)"

definition strip_0x :: "string \<Rightarrow> string" where
  "strip_0x s = (case s of
       a # b # r \<Rightarrow> if a = CHR ''0'' \<and> (b = CHR ''x'' \<or> b = CHR ''X'') then r else s
     | _ \<Rightarrow> s)"

definition parseInt16 :: "string \<Rightarrow> int option" where
  "parseInt16 s =
     (let t = dropWhile js_space s;
          (sgn, u) = (case t of
              [] \<Rightarrow> (1, t)
            | c # r \<Rightarrow> if c = CHR ''-'' then (- 1, r) else if c = CHR ''+'' then (1, r) else (1, t))
      in map_option (\<lambda>n. sgn * int n) (hex_prefix None (strip_0x u)))"

text \<open>Storing into a \<open>Uint8Array\<close> reduces modulo 256; \<open>NaN\<close> becomes 0.\<close>

definition to_uint8 :: "int option \<Rightarrow> 8 word" where
  "to_uint8 v = (case v of None \<Rightarrow> 0 | Some n \<Rightarrow> word_of_int n)"

definition hexToBytes :: "string \<Rightarrow> bytes" where
  "hexToBytes hex =
     map (\<lambda>i. to_uint8 (parseInt16 (take 2 (drop (i * 2) hex)))) [0..<length hex div 2]"

definition hex_digit :: "nat \<Rightarrow> char" where
  "hex_digit n = (if n < 10 then char_of (48 + n) else char_of (87 + n))"

text \<open>\<open>b.toString(16).padStart(2, '0')\<close> for a byte.\<close>

definition byte_to_hex :: "8 word \<Rightarrow> string" where
  "byte_to_hex b = [hex_digit (unat b div 16), hex_digit (unat b mod 16)]"

definition bytesToHex :: "bytes \<Rightarrow> string" where
  "bytesToHex bs = concat (map byte_to_hex bs)"

section \<open>Commitment, generator, shuffle\<close>

definition hashCommitment :: "(bytes \<Rightarrow> string) \<Rightarrow> bytes \<Rightarrow> bytes \<Rightarrow> string" where
  "hashCommitment sha_hex seed nonce = sha_hex (seed @ nonce)"

text \<open>\<open>new TextEncoder().encode(counter.toString())\<close>.\<close>

definition encode_counter :: "nat \<Rightarrow> bytes" where
  "encode_counter n = map (\<lambda>c. word_of_nat (of_char c)) (nat_digits n)"

text \<open>\<open>bytes[k]\<close>; beyond the end it is \<open>undefined\<close>, which the shift reads as 0.\<close>

definition byte_at :: "bytes \<Rightarrow> nat \<Rightarrow> 32 word" where
  "byte_at bs k = (if k < length bs then ucast (bs ! k) else 0)"

text \<open>
  \<open>((bytes[0] << 24) | (bytes[1] << 16) | (bytes[2] << 8) | bytes[3]) / 0xffffffff\<close>:
  JavaScript's bitwise operators work on signed 32-bit integers.
\<close>

definition prng_word :: "bytes \<Rightarrow> 32 word" where
  "prng_word bs = push_bit 24 (byte_at bs 0) OR push_bit 16 (byte_at bs 1)
                  OR push_bit 8 (byte_at bs 2) OR byte_at bs 3"

definition prng :: "(bytes \<Rightarrow> bytes) \<Rightarrow> bytes \<Rightarrow> nat \<Rightarrow> rat" where
  "prng sha_array seed counter =
     fl (of_int (sint (prng_word (sha_array (seed @ encode_counter counter)))) / 4294967295)"

text \<open>
  The array of \<open>shuffle\<close> is a function of the index, \<open>None\<close> being \<open>undefined\<close>: the code
  may read and write the properties \<open>arr[-1]\<close>, \<open>arr[-2]\<close>, \<open>\<dots>\<close>, which exist beside the
  elements and do not count in \<open>arr.length\<close>. \<open>k\<close> counts the calls of \<open>rnd.next()\<close>.
\<close>

definition shuffle_index :: "rat \<Rightarrow> int \<Rightarrow> int" where
  "shuffle_index r i = \<lfloor>fl (r * of_int (i + 1))\<rfloor>"

fun shuffle_loop :: "(nat \<Rightarrow> rat) \<Rightarrow> nat \<Rightarrow> nat \<Rightarrow> (int \<Rightarrow> 'a option) \<Rightarrow> (int \<Rightarrow> 'a option)" where
  "shuffle_loop rnd k 0 arr = arr"
| "shuffle_loop rnd k (Suc n) arr =
     (let i = int (Suc n); j = shuffle_index (rnd k) i
      in shuffle_loop rnd (Suc k) n (arr(i := arr j, j := arr i)))"

definition array_of :: "'a list \<Rightarrow> int \<Rightarrow> 'a option" where
  "array_of xs i = (if 0 \<le> i \<and> i < int (length xs) then Some (xs ! nat i) else None)"

definition shuffle :: "(bytes \<Rightarrow> bytes) \<Rightarrow> 'a list \<Rightarrow> bytes \<Rightarrow> 'a option list" where
  "shuffle sha_array items seed =
     map (\<lambda>i. shuffle_loop (prng sha_array seed) 0 (length items - 1) (array_of items) (int i))
       [0..<length items]"

definition standardDeck :: "nat list" where
  "standardDeck = [0..<52]"

record hand_proof =
  hp_commitment :: string
  hp_seed :: string
  hp_nonce :: string
  hp_deck :: "nat option list"

definition verifyProof :: "(bytes \<Rightarrow> string) \<Rightarrow> hand_proof \<Rightarrow> bool" where
  "verifyProof sha_hex proof =
     (hashCommitment sha_hex (hexToBytes (hp_seed proof)) (hexToBytes (hp_nonce proof))
      = hp_commitment proof)"

section \<open>HandRNG\<close>

record hand_rng =
  rng_seed :: bytes
  rng_nonce :: bytes
  rng_commitment :: string

text \<open>The constructor: \<open>randomBytes(32)\<close> and \<open>randomBytes(16)\<close> are its arguments.\<close>

definition new_HandRNG :: "(bytes \<Rightarrow> string) \<Rightarrow> bytes \<Rightarrow> bytes \<Rightarrow> hand_rng" where
  "new_HandRNG sha_hex seed nonce =
     \<lparr>rng_seed = seed, rng_nonce = nonce, rng_commitment = hashCommitment sha_hex seed nonce\<rparr>"

definition rng_shuffle :: "(bytes \<Rightarrow> bytes) \<Rightarrow> hand_rng \<Rightarrow> 'a list \<Rightarrow> 'a option list" where
  "rng_shuffle sha_array rng items = shuffle sha_array items (rng_seed rng)"

definition rng_reveal :: "(bytes \<Rightarrow> bytes) \<Rightarrow> hand_rng \<Rightarrow> hand_proof" where
  "rng_reveal sha_array rng =
     \<lparr>hp_commitment = rng_commitment rng, hp_seed = bytesToHex (rng_seed rng),
      hp_nonce = bytesToHex (rng_nonce rng), hp_deck = shuffle sha_array standardDeck (rng_seed rng)\<rparr>"

section \<open>The coding round trip\<close>

lemma hex_value_digit: "n < 16 \<Longrightarrow> hex_value (hex_digit n) = Some n"
  by (auto simp: hex_value_def hex_digit_def Let_def of_char_of)

lemma hex_digit_plain:
  assumes "n < 16"
  shows "\<not> js_space (hex_digit n)" "hex_digit n \<noteq> CHR ''-''" "hex_digit n \<noteq> CHR ''+''"
    "hex_digit n \<noteq> CHR ''x''" "hex_digit n \<noteq> CHR ''X''"
proof -
  have none: "hex_value (CHR ''-'') = None" "hex_value (CHR ''+'') = None"
    "hex_value (CHR ''x'') = None" "hex_value (CHR ''X'') = None"
    by (simp_all add: hex_value_def Let_def)
  show "\<not> js_space (hex_digit n)"
    using assms by (simp add: js_space_def hex_digit_def Let_def of_char_of)
  show "hex_digit n \<noteq> CHR ''-''" "hex_digit n \<noteq> CHR ''+''"
    "hex_digit n \<noteq> CHR ''x''" "hex_digit n \<noteq> CHR ''X''"
    using hex_value_digit [OF assms] none by (metis option.distinct(1))+
qed

lemma parseInt16_byte_to_hex: "parseInt16 (byte_to_hex b) = Some (int (unat b))"
proof -
  have "unat b < 2 ^ LENGTH(8)"
    by (rule unsigned_less)
  then have lt: "unat b div 16 < 16" "unat b mod 16 < 16"
    by auto
  show ?thesis
    using hex_digit_plain [OF lt(1)] hex_digit_plain [OF lt(2)]
    by (simp add: parseInt16_def byte_to_hex_def strip_0x_def hex_value_digit lt Let_def)
qed

lemma length_bytesToHex [simp]: "length (bytesToHex bs) = 2 * length bs"
  by (induction bs) (auto simp: bytesToHex_def byte_to_hex_def)

lemma bytesToHex_chunk:
  "i < length bs \<Longrightarrow> take 2 (drop (i * 2) (bytesToHex bs)) = byte_to_hex (bs ! i)"
proof (induction bs arbitrary: i)
  case Nil
  then show ?case by simp
next
  case (Cons b bs)
  then show ?case
    by (cases i) (auto simp: bytesToHex_def byte_to_hex_def numeral_2_eq_2)
qed

lemma hexToBytes_bytesToHex: "hexToBytes (bytesToHex bs) = bs"
  by (intro nth_equalityI)
    (auto simp: hexToBytes_def bytesToHex_chunk parseInt16_byte_to_hex to_uint8_def)

section \<open>The generator and the shuffle\<close>

lemma byte_at_bits: "8 \<le> n \<Longrightarrow> \<not> bit (byte_at bs k) n"
  by (auto simp: byte_at_def bit_simps dest: bit_imp_le_length)

lemma prng_word_sign:
  "sint (prng_word bs) < 0 \<longleftrightarrow> bs \<noteq> [] \<and> 128 \<le> unat (hd bs)"
proof -
  have "sint (prng_word bs) < 0 \<longleftrightarrow> bit (prng_word bs) 31"
    using bit_last_iff [of "prng_word bs"] by simp
  also have "\<dots> \<longleftrightarrow> bit (byte_at bs 0) 7"
    by (auto simp: prng_word_def bit_simps byte_at_bits)
  also have "\<dots> \<longleftrightarrow> bs \<noteq> [] \<and> bit (hd bs) 7"
    by (cases bs) (auto simp: byte_at_def bit_simps)
  also have "bit (hd bs) 7 \<longleftrightarrow> 128 \<le> unat (hd bs)"
  proof -
    have "unat (hd bs) < 2 ^ LENGTH(8)"
      by (rule unsigned_less)
    moreover have "bit (hd bs) 7 = odd (unat (hd bs) div 2 ^ 7)"
      using bit_iff_odd [of "unat (hd bs)" 7] by (simp add: bit_unsigned_iff)
    ultimately show ?thesis
      by (auto simp: odd_iff_mod_2_eq_one)
  qed
  finally show ?thesis .
qed

lemma sint32_bounds: "- 2147483648 \<le> sint (w :: 32 word)" "sint (w :: 32 word) \<le> 2147483647"
  using sint_greater_eq [of w] sint_less [of w] by auto

text \<open>The index drawn for position \<open>i\<close> is negative when the digest starts with a byte of 128
  or more, and in the lower half of the range otherwise.\<close>

lemma shuffle_index_neg:
  assumes "x < 0" "0 \<le> i"
  shows "shuffle_index (fl (of_int x / 4294967295)) i < 0"
proof -
  have "fl (of_int x / 4294967295) < 0"
    using assms by (intro fl_neg) simp
  then have "fl (of_int x / 4294967295) * of_int (i + 1) < 0"
    using assms by (intro mult_neg_pos) auto
  then have "fl (fl (of_int x / 4294967295) * of_int (i + 1)) < 0"
    by (rule fl_neg)
  then show ?thesis
    by (simp add: shuffle_index_def)
qed

lemma shuffle_index_upper:
  assumes x: "x \<le> 2147483647" and i: "0 \<le> i"
  shows "2 * shuffle_index (fl (of_int x / 4294967295)) i < i + 1"
proof (cases "x < 0")
  case True
  then have "shuffle_index (fl (of_int x / 4294967295)) i < 0"
    using i by (rule shuffle_index_neg)
  then show ?thesis using i by simp
next
  case False
  define n :: rat where "n = of_int (i + 1)"
  define r where "r = fl (of_int x / 4294967295)"
  have n: "1 \<le> n" using i by (simp add: n_def)
  have q: "0 \<le> (of_int x :: rat) / 4294967295" "(of_int x :: rat) / 4294967295 \<le> 2147483647 / 4294967295"
    using False x by (auto simp: divide_le_eq)
  have r0: "0 \<le> r"
    unfolding r_def using q(1) by (rule fl_nonneg)
  have r1: "r \<le> 2147483647 / 4294967295 * (1 + 1 / 2 ^ 53)"
    using fl_upper [OF q(1)] q unfolding r_def by simp
  have "fl (r * n) \<le> r * n * (1 + 1 / 2 ^ 53)"
    using fl_upper [of "r * n"] r0 n by (simp add: algebra_simps)
  also have "\<dots> \<le> (2147483647 / 4294967295 * (1 + 1 / 2 ^ 53)) * n * (1 + 1 / 2 ^ 53)"
    using r1 n by (intro mult_right_mono) auto
  also have "\<dots> < 1 / 2 * n"
    using n by simp
  finally have "fl (r * n) < 1 / 2 * n" .
  then have "of_int \<lfloor>fl (r * n)\<rfloor> < 1 / 2 * n"
    by linarith
  then have "of_int (2 * \<lfloor>fl (r * n)\<rfloor>) < n"
    by simp
  then have "2 * \<lfloor>fl (r * n)\<rfloor> < i + 1"
    unfolding n_def of_int_less_iff .
  then show ?thesis
    by (simp add: shuffle_index_def r_def n_def)
qed

text \<open>What the loop may touch: positions up to the current one.\<close>

definition lower_half :: "(nat \<Rightarrow> rat) \<Rightarrow> bool" where
  "lower_half rnd \<longleftrightarrow> (\<forall>k i. 0 \<le> i \<longrightarrow> 2 * shuffle_index (rnd k) i < i + 1)"

lemma lower_half_prng: "lower_half (prng sha_array seed)"
  unfolding lower_half_def prng_def using sint32_bounds(2) shuffle_index_upper by blast

lemma lower_halfD: "lower_half rnd \<Longrightarrow> 0 < i \<Longrightarrow> shuffle_index (rnd k) i < i"
proof -
  assume "lower_half rnd" "0 < i"
  then have "2 * shuffle_index (rnd k) i < i + 1"
    by (simp add: lower_half_def)
  with \<open>0 < i\<close> show ?thesis by linarith
qed

lemma shuffle_loop_above:
  assumes "lower_half rnd" "int n < i"
  shows "shuffle_loop rnd k n arr i = arr i"
  using assms(2)
proof (induction n arbitrary: k arr)
  case 0
  then show ?case by simp
next
  case (Suc n)
  have "shuffle_index (rnd k) (int (Suc n)) < int (Suc n)"
    using assms(1) by (rule lower_halfD) simp
  with Suc show ?case by (simp add: Let_def)
qed

lemma shuffle_loop_range: "range (shuffle_loop rnd k n arr) \<subseteq> range arr"
proof (induction n arbitrary: k arr)
  case 0
  then show ?case by simp
next
  case (Suc n)
  let ?i = "int (Suc n)" and ?j = "shuffle_index (rnd k) (int (Suc n))"
  have "range (arr(?i := arr ?j, ?j := arr ?i)) \<subseteq> range arr"
    by auto
  then show ?case
    unfolding shuffle_loop.simps Let_def by (rule order_trans [OF Suc.IH])
qed

lemma shuffle_elements: "Some x \<in> set (shuffle sha_array items seed) \<Longrightarrow> x \<in> set items"
proof -
  assume "Some x \<in> set (shuffle sha_array items seed)"
  then have "Some x \<in> range (array_of items)"
    using shuffle_loop_range [of "prng sha_array seed" 0 "length items - 1" "array_of items"]
    by (auto simp: shuffle_def)
  then show "x \<in> set items"
    by (auto simp: array_of_def split: if_splits)
qed

lemma length_shuffle [simp]: "length (shuffle sha_array items seed) = length items"
  by (simp add: shuffle_def)

text \<open>With non-negative indices only, the loop permutes the elements.\<close>

lemma image_mset_swap:
  assumes "a \<in> A" "b \<in> A" "finite A"
  shows "image_mset (f(a := f b, b := f a)) (mset_set A) = image_mset f (mset_set A)"
proof (cases "a = b")
  case True
  then show ?thesis by simp
next
  case False
  define B where "B = A - {a, b}"
  have A: "mset_set A = add_mset a (add_mset b (mset_set B))"
  proof -
    have "A = insert a (insert b B)" "finite B" "a \<notin> insert b B" "b \<notin> B"
      using assms False by (auto simp: B_def)
    then show ?thesis by simp
  qed
  have "image_mset (f(a := f b, b := f a)) (mset_set B) = image_mset f (mset_set B)"
    using assms(3) by (intro image_mset_cong) (auto simp: B_def)
  then show ?thesis
    using False by (simp add: A)
qed

lemma shuffle_loop_mset:
  assumes "lower_half rnd" and "\<And>m. m < n \<Longrightarrow> 0 \<le> shuffle_index (rnd (k + m)) (int (n - m))"
    and "n \<le> N"
  shows "image_mset (shuffle_loop rnd k n arr) (mset_set {0..int N})
         = image_mset arr (mset_set {0..int N})"
  using assms(2,3)
proof (induction n arbitrary: k arr)
  case 0
  then show ?case by simp
next
  case (Suc n)
  let ?i = "int (Suc n)" and ?j = "shuffle_index (rnd k) (int (Suc n))"
  have j: "0 \<le> ?j" "?j < ?i"
    using Suc.prems(1) [of 0] lower_halfD [OF assms(1), of ?i k] by auto
  have "0 \<le> shuffle_index (rnd (Suc k + m)) (int (n - m))" if "m < n" for m
    using Suc.prems(1) [of "Suc m"] that by simp
  then have "image_mset (shuffle_loop rnd (Suc k) n (arr(?i := arr ?j, ?j := arr ?i)))
               (mset_set {0..int N})
             = image_mset (arr(?i := arr ?j, ?j := arr ?i)) (mset_set {0..int N})"
    using Suc.prems(2) by (intro Suc.IH) auto
  also have "\<dots> = image_mset arr (mset_set {0..int N})"
    using j Suc.prems(2) by (intro image_mset_swap) auto
  finally show ?case by (simp add: Let_def)
qed

lemma shuffle_index_nonneg:
  assumes "0 \<le> x" "0 \<le> i"
  shows "0 \<le> shuffle_index (fl (of_int x / 4294967295)) i"
  using assms by (auto simp: shuffle_index_def intro!: fl_nonneg mult_nonneg_nonneg)

lemma prng_nonneg_index:
  assumes "\<not> (sha_array (seed @ encode_counter k) \<noteq> []
            \<and> 128 \<le> unat (hd (sha_array (seed @ encode_counter k))))" and "0 \<le> i"
  shows "0 \<le> shuffle_index (prng sha_array seed k) i"
  unfolding prng_def using assms prng_word_sign [of "sha_array (seed @ encode_counter k)"]
  by (intro shuffle_index_nonneg) linarith+

lemma image_mset_upto_int: "image_mset f (mset_set {0..int N}) = mset (map (\<lambda>i. f (int i)) [0..<Suc N])"
proof -
  have "{0..int N} = int ` {0..<Suc N}"
    by (simp add: image_int_atLeastLessThan) auto
  then have "mset_set {0..int N} = image_mset int (mset_set {0..<Suc N})"
    by (simp add: image_mset_mset_set inj_on_def)
  then show ?thesis
    by (simp add: image_mset.compositionality comp_def flip: mset_upt)
qed

section \<open>Properties\<close>

text \<open>commit-reveal is complete: the proof a hand reveals always verifies, whatever SHA-256
  computes, because the seed and the nonce survive their hexadecimal coding.\<close>

theorem commit_reveal_verifies:
  "verifyProof sha_hex (rng_reveal sha_array (new_HandRNG sha_hex seed nonce))"
  by (simp add: verifyProof_def rng_reveal_def new_HandRNG_def hexToBytes_bytesToHex)

text \<open>the shuffle never draws from the upper half: the index for position \<open>i\<close> is below
  \<open>(i + 1) / 2\<close> for every seed and every draw, double rounding included, because the
  32-bit word is read as a signed integer.\<close>

theorem shuffle_draws_lower_half:
  assumes "0 \<le> i"
  shows "2 * shuffle_index (prng sha_array seed k) i < i + 1"
  using assms lower_half_prng by (auto simp: lower_half_def)

theorem shuffle_draws_lower_half_witness:
  "2 * shuffle_index (prng (\<lambda>bs. rev bs) [1, 2] 0) 51 < (51 :: int) + 1"
  using shuffle_draws_lower_half [of 51 "\<lambda>bs. rev bs" "[1, 2]" 0] by simp

text \<open>a digest that starts with a byte of 128 or more makes the first index negative, and the
  last element of the shuffled array is then \<open>undefined\<close>: the shuffle loses a card.\<close>

theorem shuffle_loses_last:
  assumes "2 \<le> length items" and "sha_array (seed @ encode_counter 0) = b # bs"
    and "128 \<le> unat b"
  shows "shuffle sha_array items seed ! (length items - 1) = None"
proof -
  obtain n where n: "length items = Suc (Suc n)"
    using assms(1) by (metis Suc_le_D Suc_le_mono numeral_2_eq_2)
  let ?rnd = "prng sha_array seed" and ?i = "int (Suc n)"
  let ?j = "shuffle_index (?rnd 0) ?i" and ?arr = "array_of items"
  have j: "?j < 0"
    unfolding prng_def using assms(2,3) prng_word_sign [of "b # bs"]
    by (intro shuffle_index_neg) auto
  have "shuffle_loop ?rnd 0 (Suc n) ?arr ?i
        = shuffle_loop ?rnd (Suc 0) n (?arr(?i := ?arr ?j, ?j := ?arr ?i)) ?i"
    by (simp add: Let_def)
  also have "\<dots> = (?arr(?i := ?arr ?j, ?j := ?arr ?i)) ?i"
    by (intro shuffle_loop_above lower_half_prng) simp
  also have "\<dots> = None"
    using j by (auto simp: array_of_def)
  finally show ?thesis
    by (simp add: shuffle_def n nth_append del: shuffle_loop.simps)
qed

theorem shuffle_loses_last_witness:
  "shuffle (\<lambda>_. [200, 0, 0, 0]) [7 :: nat, 8] [] ! 1 = None"
  using shuffle_loses_last [of "[7 :: nat, 8]" "\<lambda>_. [200, 0, 0, 0]" "[]" 200 "[0, 0, 0]"]
  by simp

text \<open>C33: when every digest drawn starts with a byte below 128 the shuffle is a permutation of
  its input: nothing is lost and nothing is duplicated.\<close>

theorem shuffle_permutes:
  assumes "\<And>k. k < length items - 1 \<Longrightarrow>
      \<not> (sha_array (seed @ encode_counter k) \<noteq> []
          \<and> 128 \<le> unat (hd (sha_array (seed @ encode_counter k))))"
  shows "mset (shuffle sha_array items seed) = mset (map Some items)"
proof (cases "items = []")
  case True
  then show ?thesis by (simp add: shuffle_def)
next
  case False
  define N where "N = length items - 1"
  have N: "length items = Suc N" using False by (simp add: N_def)
  have "mset (shuffle sha_array items seed)
        = image_mset (shuffle_loop (prng sha_array seed) 0 N (array_of items)) (mset_set {0..int N})"
    unfolding image_mset_upto_int by (simp add: shuffle_def N)
  also have "\<dots> = image_mset (array_of items) (mset_set {0..int N})"
    using assms by (intro shuffle_loop_mset lower_half_prng prng_nonneg_index) (auto simp: N_def)
  also have "\<dots> = mset (map (\<lambda>i. array_of items (int i)) [0..<length items])"
    unfolding image_mset_upto_int N ..
  also have "map (\<lambda>i. array_of items (int i)) [0..<length items] = map Some items"
    by (intro nth_equalityI) (auto simp: array_of_def)
  finally show ?thesis .
qed

theorem shuffle_permutes_witness:
  "mset (shuffle (\<lambda>_. [100, 0, 0, 0]) [7 :: nat, 8, 9] []) = {#Some 7, Some 8, Some 9#}"
  using shuffle_permutes [of "[7 :: nat, 8, 9]" "\<lambda>_. [100, 0, 0, 0]" "[]"] by simp

end
