(* ===== verification/SidePots.thy ===== *)
theory SidePots
  imports Prelude "HOL-Library.Sublist"
begin

text \<open>
  \<open>shared/poker/sidePots.ts\<close>: the split of a pot by commitments (\<open>calculateSidePots\<close>),
  hand evaluation (\<open>evaluate5\<close>, \<open>score\<close>, \<open>evaluateHand\<close>) and the settlement of the
  pots of a hand (\<open>settlePots\<close>).

  Cards are numbers 0..51, \<open>card div 4\<close> the rank (0 is a deuce, 12 an ace) and
  \<open>card mod 4\<close> the suit. Chip amounts are integers: the wire schema
  (\<open>shared/schemas/game.ts\<close>) admits integer amounts only.
\<close>

section \<open>Splitting a pot by commitments\<close>

record player_like =
  committed :: "int option"

record side_pot_result =
  main_pot :: int
  side_pots :: "int list"

definition commitments :: "player_like list \<Rightarrow> int list" where
  "commitments ps =
     js_sort (\<lambda>a b. a - b \<le> 0)
       (filter (\<lambda>c. c > 0) (map (\<lambda>p. case committed p of None \<Rightarrow> 0 | Some c \<Rightarrow> c) ps))"

text \<open>The loop: \<open>remaining\<close> is the number of commitments from the current one on.\<close>

fun pot_layers :: "int \<Rightarrow> int list \<Rightarrow> int list" where
  "pot_layers prev [] = []"
| "pot_layers prev (c # cs) =
     (let diff = c - prev; remaining = int (length (c # cs))
      in if diff > 0 \<and> remaining > 1 then diff * remaining # pot_layers c cs
         else pot_layers prev cs)"

definition calculateSidePots :: "player_like list \<Rightarrow> int \<Rightarrow> side_pot_result" where
  "calculateSidePots ps totalPot =
     (let layers = pot_layers 0 (commitments ps); sides = drop 1 layers
      in \<lparr>main_pot = totalPot - sum_list sides, side_pots = sides\<rparr>)"

section \<open>Hand evaluation\<close>

datatype hand_rank = HIGH_CARD | PAIR | TWO_PAIR | THREE_OF_A_KIND | STRAIGHT | FLUSH
  | FULL_HOUSE | FOUR_OF_A_KIND | STRAIGHT_FLUSH

fun rank_value :: "hand_rank \<Rightarrow> int" where
  "rank_value HIGH_CARD = 0"
| "rank_value PAIR = 1"
| "rank_value TWO_PAIR = 2"
| "rank_value THREE_OF_A_KIND = 3"
| "rank_value STRAIGHT = 4"
| "rank_value FLUSH = 5"
| "rank_value FULL_HOUSE = 6"
| "rank_value FOUR_OF_A_KIND = 7"
| "rank_value STRAIGHT_FLUSH = 8"

record hand_value =
  hrank :: hand_rank
  kickers :: "int list"

definition score :: "hand_value \<Rightarrow> int" where
  "score v = foldl (\<lambda>s k. s * 15 + k) (rank_value (hrank v)) (kickers v)"

definition card_ranks :: "nat list \<Rightarrow> int list" where
  "card_ranks cards = js_sort (\<lambda>a b. b - a \<le> 0) (map (\<lambda>c. int (c div 4)) cards)"

definition is_flush :: "nat list \<Rightarrow> bool" where
  "is_flush cards = list_all (\<lambda>c. c mod 4 = hd cards mod 4) cards"

text \<open>\<open>straightHigh\<close>: the last window of five consecutive ranks, then the wheel A2345.\<close>

definition straight_high :: "int list \<Rightarrow> int" where
  "straight_high ranks =
     (let unique = js_sort (\<lambda>a b. a - b \<le> 0) (js_unique ranks);
          high = foldl (\<lambda>h i. if unique ! (i + 4) - unique ! i = 4 then unique ! (i + 4) else h)
                   (- 1) [0..<length unique - 4]
      in if high = - 1 \<and> 12 \<in> set unique \<and> 0 \<in> set unique \<and> 1 \<in> set unique
            \<and> 2 \<in> set unique \<and> 3 \<in> set unique then 3 else high)"

text \<open>\<open>counts\<close>: the ranks with their multiplicities, most frequent first, then highest first.\<close>

definition rank_counts :: "int list \<Rightarrow> (int \<times> nat) list" where
  "rank_counts ranks =
     js_sort (\<lambda>a b. if snd b \<noteq> snd a then snd b \<le> snd a else fst b - fst a \<le> 0)
       (map (\<lambda>r. (r, count_list ranks r)) (js_unique ranks))"

definition find_or_0 :: "(int \<Rightarrow> bool) \<Rightarrow> int list \<Rightarrow> int" where
  "find_or_0 P xs = (case List.find P xs of None \<Rightarrow> 0 | Some x \<Rightarrow> x)"

definition second_count :: "(int \<times> nat) list \<Rightarrow> nat \<Rightarrow> bool" where
  "second_count counts n = (1 < length counts \<and> snd (counts ! 1) = n)"

definition evaluate5 :: "nat list \<Rightarrow> hand_value" where
  "evaluate5 cards =
     (let ranks = card_ranks cards;
          flush = is_flush cards;
          straightHigh = straight_high ranks;
          straight = straightHigh \<noteq> - 1;
          counts = rank_counts ranks;
          (r0, n0) = counts ! 0
      in if straight \<and> flush then \<lparr>hrank = STRAIGHT_FLUSH, kickers = [straightHigh]\<rparr>
         else if n0 = 4 then
           \<lparr>hrank = FOUR_OF_A_KIND, kickers = [r0, find_or_0 (\<lambda>r. r \<noteq> r0) ranks]\<rparr>
         else if n0 = 3 \<and> second_count counts 2 then
           \<lparr>hrank = FULL_HOUSE, kickers = [r0, fst (counts ! 1)]\<rparr>
         else if flush then \<lparr>hrank = FLUSH, kickers = ranks\<rparr>
         else if straight then \<lparr>hrank = STRAIGHT, kickers = [straightHigh]\<rparr>
         else if n0 = 3 then
           \<lparr>hrank = THREE_OF_A_KIND, kickers = r0 # take 2 (filter (\<lambda>r. r \<noteq> r0) ranks)\<rparr>
         else if n0 = 2 \<and> second_count counts 2 then
           (let r1 = fst (counts ! 1); highPair = max r0 r1; lowPair = min r0 r1
            in \<lparr>hrank = TWO_PAIR,
                kickers = [highPair, lowPair,
                           find_or_0 (\<lambda>r. r \<noteq> highPair \<and> r \<noteq> lowPair) ranks]\<rparr>)
         else if n0 = 2 then
           \<lparr>hrank = PAIR, kickers = r0 # take 3 (filter (\<lambda>r. r \<noteq> r0) ranks)\<rparr>
         else \<lparr>hrank = HIGH_CARD, kickers = take 5 ranks\<rparr>)"

datatype eval_error = NeedFiveCards

text \<open>The five nested loops over \<open>i < j < k < l < m\<close>.\<close>

definition five_card_hands :: "nat list \<Rightarrow> nat list list" where
  "five_card_hands cards =
     (let n = length cards
      in [[cards ! i, cards ! j, cards ! k, cards ! l, cards ! m].
           i \<leftarrow> [0..<n - 4], j \<leftarrow> [i + 1..<n - 3], k \<leftarrow> [j + 1..<n - 2],
           l \<leftarrow> [k + 1..<n - 1], m \<leftarrow> [l + 1..<n]])"

definition evaluateHand :: "nat list \<Rightarrow> eval_error + int" where
  "evaluateHand cards =
     (if length cards < 5 then Inl NeedFiveCards
      else Inr (foldl (\<lambda>best five. let val = score (evaluate5 five)
                                   in if val > best then val else best)
                  0 (five_card_hands cards)))"

section \<open>Settlement\<close>

record side_pot =
  sp_amount :: int
  sp_players :: "string list"
  sp_contributions :: "(string \<times> int) list"

record settle_player =
  pid :: string
  stack :: int
  folded :: bool
  holeCards :: "nat list option"

record 'p settlement_state =
  players :: "'p list"
  pot :: int
  sidePots :: "side_pot list"
  communityCards :: "nat list"

text \<open>
  The code mutates the player objects it selected; the model names a selected player by its
  position in \<open>state.players\<close>.
\<close>

definition active_seats :: "'x settle_player_scheme list \<Rightarrow> nat list" where
  "active_seats ps = filter (\<lambda>i. \<not> folded (ps ! i)) [0..<length ps]"

definition player_score :: "nat list \<Rightarrow> 'x settle_player_scheme \<Rightarrow> int" where
  "player_score board p =
     (case evaluateHand ((case holeCards p of None \<Rightarrow> [] | Some hole \<Rightarrow> hole) @ board) of
        Inl _ \<Rightarrow> 0 | Inr s \<Rightarrow> s)"

text \<open>\<open>scores\<close> is keyed by the player id: of equal ids the last active player's score stays.\<close>

definition score_table :: "nat list \<Rightarrow> 'x settle_player_scheme list \<Rightarrow> string \<rightharpoonup> int" where
  "score_table board ps =
     map_of (rev (map (\<lambda>i. (pid (ps ! i), player_score board (ps ! i))) (active_seats ps)))"

definition add_stack :: "int \<Rightarrow> 'x settle_player_scheme list \<Rightarrow> nat \<Rightarrow> 'x settle_player_scheme list" where
  "add_stack n ps i = ps[i := (ps ! i)\<lparr>stack := stack (ps ! i) + n\<rparr>]"

definition contenders :: "nat list \<Rightarrow> side_pot \<Rightarrow> 'x settle_player_scheme list \<Rightarrow> nat list" where
  "contenders act pt ps = filter (\<lambda>i. pid (ps ! i) \<in> set (sp_players pt)) act"

definition winners :: "(string \<rightharpoonup> int) \<Rightarrow> 'x settle_player_scheme list \<Rightarrow> nat list \<Rightarrow> nat list" where
  "winners scores ps cs =
     (let best = Max (set (map (\<lambda>i. the (scores (pid (ps ! i)))) cs))
      in filter (\<lambda>i. scores (pid (ps ! i)) = Some best) cs)"

definition settle_pot :: "(string \<rightharpoonup> int) \<Rightarrow> nat list \<Rightarrow> 'x settle_player_scheme list \<Rightarrow> side_pot
    \<Rightarrow> 'x settle_player_scheme list" where
  "settle_pot scores act ps pt =
     (let cs = contenders act pt ps
      in if cs = [] then ps
         else let ws = winners scores ps cs;
                  share = sp_amount pt div int (length ws);
                  ps' = foldl (add_stack share) ps ws;
                  remainder = sp_amount pt - share * int (length ws)
              in if remainder > 0 then add_stack remainder ps' (hd ws) else ps')"

definition default_pot :: "('x settle_player_scheme, 'y) settlement_state_scheme \<Rightarrow> side_pot" where
  "default_pot st =
     (let ids = map (\<lambda>i. pid (players st ! i)) (active_seats (players st))
      in \<lparr>sp_amount = pot st, sp_players = ids, sp_contributions = map (\<lambda>i. (i, 0)) ids\<rparr>)"

definition pots_to_settle ::
  "('x settle_player_scheme, 'y) settlement_state_scheme \<Rightarrow> side_pot list" where
  "pots_to_settle st = (if sidePots st \<noteq> [] then sidePots st else [default_pot st])"

definition settlePots ::
  "('x settle_player_scheme, 'y) settlement_state_scheme
   \<Rightarrow> ('x settle_player_scheme, 'y) settlement_state_scheme" where
  "settlePots st =
     (let act = active_seats (players st)
      in if act = [] then st
         else st\<lparr>players := foldl (settle_pot (score_table (communityCards st) (players st)) act)
                              (players st) (pots_to_settle st),
                 pot := 0, sidePots := []\<rparr>)"

section \<open>Lemmas: settlement\<close>

abbreviation chips :: "'x settle_player_scheme list \<Rightarrow> int" where
  "chips ps \<equiv> sum_list (map stack ps)"

lemma length_add_stack [simp]: "length (add_stack n ps i) = length ps"
  by (simp add: add_stack_def)

lemma pid_add_stack [simp]: "pid (add_stack n ps i ! j) = pid (ps ! j)"
  by (cases "i < length ps") (auto simp: add_stack_def nth_list_update list_update_beyond)

lemma folded_add_stack [simp]: "folded (add_stack n ps i ! j) = folded (ps ! j)"
  by (cases "i < length ps") (auto simp: add_stack_def nth_list_update list_update_beyond)

lemma holeCards_add_stack [simp]: "holeCards (add_stack n ps i ! j) = holeCards (ps ! j)"
  by (cases "i < length ps") (auto simp: add_stack_def nth_list_update list_update_beyond)

lemma chips_add_stack [chip_simps]: "i < length ps \<Longrightarrow> chips (add_stack n ps i) = chips ps + n"
  by (simp add: add_stack_def sum_list_map_update)

lemma stack_add_stack:
  "i < length ps \<Longrightarrow> stack (add_stack n ps i ! j) = stack (ps ! j) + (if i = j then n else 0)"
  by (auto simp: add_stack_def nth_list_update)

lemma foldl_add_stack_frame [simp]:
  "length (foldl (add_stack n) ps ws) = length ps"
  "pid (foldl (add_stack n) ps ws ! j) = pid (ps ! j)"
  "folded (foldl (add_stack n) ps ws ! j) = folded (ps ! j)"
  "holeCards (foldl (add_stack n) ps ws ! j) = holeCards (ps ! j)"
  by (induction ws arbitrary: ps) auto

lemma chips_foldl_add_stack [chip_simps]:
  "\<forall>i\<in>set ws. i < length ps \<Longrightarrow> chips (foldl (add_stack n) ps ws) = chips ps + n * int (length ws)"
  by (induction ws arbitrary: ps) (auto simp: chip_simps algebra_simps)

lemma stack_foldl_add_stack:
  "distinct ws \<Longrightarrow> \<forall>i\<in>set ws. i < length ps \<Longrightarrow>
   stack (foldl (add_stack n) ps ws ! j) = stack (ps ! j) + (if j \<in> set ws then n else 0)"
  by (induction ws arbitrary: ps) (auto simp: stack_add_stack)

lemma set_active_seats: "set (active_seats ps) = {i. i < length ps \<and> \<not> folded (ps ! i)}"
  by (auto simp: active_seats_def)

lemma distinct_active_seats [simp]: "distinct (active_seats ps)"
  by (simp add: active_seats_def)

lemma score_table_active:
  "i \<in> set (active_seats ps) \<Longrightarrow> \<exists>v. score_table board ps (pid (ps ! i)) = Some v"
proof -
  let ?t = "rev (map (\<lambda>i. (pid (ps ! i), player_score board (ps ! i))) (active_seats ps))"
  assume "i \<in> set (active_seats ps)"
  then have "pid (ps ! i) \<in> fst ` set ?t"
    by force
  then have "map_of ?t (pid (ps ! i)) \<noteq> None"
    by (simp only: map_of_eq_None_iff) simp
  then show ?thesis
    by (simp add: score_table_def)
qed

lemma winners_subset: "set (winners sc ps cs) \<subseteq> set cs"
  by (auto simp: winners_def Let_def)

lemma winners_nonempty:
  assumes "cs \<noteq> []" and "\<And>i. i \<in> set cs \<Longrightarrow> \<exists>v. sc (pid (ps ! i)) = Some v"
  shows "winners sc ps cs \<noteq> []"
proof -
  let ?f = "\<lambda>i. the (sc (pid (ps ! i)))"
  have "Max (set (map ?f cs)) \<in> set (map ?f cs)"
    using assms(1) by (intro Max_in) auto
  then obtain i where i: "i \<in> set cs" "Max (set (map ?f cs)) = ?f i"
    by auto
  then have "i \<in> set (winners sc ps cs)"
    using assms(2) [OF i(1)] unfolding winners_def Let_def by auto
  then show ?thesis by auto
qed

lemma winners_best:
  assumes "i \<in> set (winners sc ps cs)" "j \<in> set cs"
  shows "the (sc (pid (ps ! j))) \<le> the (sc (pid (ps ! i)))"
proof -
  have "sc (pid (ps ! i)) = Some (Max (set (map (\<lambda>i. the (sc (pid (ps ! i)))) cs)))"
    using assms(1) by (auto simp: winners_def Let_def)
  then show ?thesis
    using assms(2) by (simp add: Max_ge)
qed

lemma settle_pot_frame [simp]:
  "length (settle_pot sc act ps pt) = length ps"
  "pid (settle_pot sc act ps pt ! j) = pid (ps ! j)"
  "folded (settle_pot sc act ps pt ! j) = folded (ps ! j)"
  "holeCards (settle_pot sc act ps pt ! j) = holeCards (ps ! j)"
  by (simp_all add: settle_pot_def Let_def)

lemma contenders_settle_pot [simp]:
  "contenders act pt (settle_pot sc act' ps pt') = contenders act pt ps"
  by (simp add: contenders_def)

text \<open>The table of scores covers the seats that take part.\<close>

definition scored :: "(string \<rightharpoonup> int) \<Rightarrow> nat list \<Rightarrow> 'x settle_player_scheme list \<Rightarrow> bool" where
  "scored sc act ps \<longleftrightarrow> (\<forall>i\<in>set act. i < length ps \<and> (\<exists>v. sc (pid (ps ! i)) = Some v))"

lemma scored_settle_pot [simp]: "scored sc act (settle_pot sc' act' ps pt) = scored sc act ps"
  by (simp add: scored_def)

lemma scored_active: "scored (score_table board ps) (active_seats ps) ps"
  using score_table_active [of _ ps board] by (auto simp: scored_def set_active_seats)

lemma settle_pot_winners:
  assumes "scored sc act ps" "contenders act pt ps \<noteq> []"
  shows "winners sc ps (contenders act pt ps) \<noteq> []"
    "\<forall>i\<in>set (winners sc ps (contenders act pt ps)). i < length ps"
proof -
  show "winners sc ps (contenders act pt ps) \<noteq> []"
    using assms by (intro winners_nonempty) (auto simp: scored_def contenders_def)
  show "\<forall>i\<in>set (winners sc ps (contenders act pt ps)). i < length ps"
    using assms(1) winners_subset [of sc ps "contenders act pt ps"]
    by (auto simp: scored_def contenders_def)
qed

lemma chips_settle_pot [chip_simps]:
  assumes "scored sc act ps"
  shows "chips (settle_pot sc act ps pt)
         = chips ps + (if contenders act pt ps = [] then 0 else sp_amount pt)"
proof (cases "contenders act pt ps = []")
  case True
  then show ?thesis by (simp add: settle_pot_def)
next
  case False
  let ?ws = "winners sc ps (contenders act pt ps)"
  let ?n = "int (length ?ws)"
  note w = settle_pot_winners [OF assms False]
  have n: "0 < ?n" using w(1) by simp
  have share: "?n * (sp_amount pt div ?n) \<le> sp_amount pt"
    using n by (simp add: mult.commute [of ?n] div_times_less_eq_dividend minus_mod_eq_div_mult [symmetric])
  have hd: "hd ?ws < length ps"
    using w by simp
  show ?thesis
    using False share hd chips_foldl_add_stack [OF w(2), of "sp_amount pt div ?n"]
    by (auto simp: settle_pot_def Let_def chip_simps algebra_simps)
qed

lemma scored_foldl [simp]: "scored sc act (foldl (settle_pot sc' act') ps pots) = scored sc act ps"
  by (induction pots arbitrary: ps) auto

lemma contenders_foldl [simp]:
  "contenders act pt (foldl (settle_pot sc act') ps pots) = contenders act pt ps"
  by (induction pots arbitrary: ps) auto

lemma foldl_settle_pot_frame [simp]:
  "length (foldl (settle_pot sc act) ps pots) = length ps"
  "pid (foldl (settle_pot sc act) ps pots ! j) = pid (ps ! j)"
  "folded (foldl (settle_pot sc act) ps pots ! j) = folded (ps ! j)"
  "holeCards (foldl (settle_pot sc act) ps pots ! j) = holeCards (ps ! j)"
  by (induction pots arbitrary: ps) auto

lemma chips_foldl_settle_pot [chip_simps]:
  "scored sc act ps \<Longrightarrow>
   chips (foldl (settle_pot sc act) ps pots)
   = chips ps + sum_list (map sp_amount (filter (\<lambda>pt. contenders act pt ps \<noteq> []) pots))"
  by (induction pots arbitrary: ps) (auto simp: chip_simps)

lemma chips_settlePots [chip_simps]:
  assumes "active_seats (players st) \<noteq> []"
  shows "chips (players (settlePots st)) = chips (players st)
     + sum_list (map sp_amount (filter (\<lambda>pt. contenders (active_seats (players st)) pt (players st) \<noteq> [])
         (pots_to_settle st)))"
  using assms by (simp add: settlePots_def Let_def chip_simps scored_active)

section \<open>Lemmas: hand evaluation\<close>

lemma score_shift: "foldl (\<lambda>s k. s * 15 + k) a ks = a * 15 ^ length ks + foldl (\<lambda>s k. s * 15 + k) (0::int) ks"
proof (induction ks arbitrary: a)
  case Nil
  then show ?case by simp
next
  case (Cons k ks)
  show ?case
    using Cons [of "a * 15 + k"] Cons [of k] by (simp add: algebra_simps)
qed

lemma score_digits_bounds:
  fixes ks :: "int list"
  assumes "\<forall>k\<in>set ks. 0 \<le> k \<and> k < 15"
  shows "0 \<le> foldl (\<lambda>s k. s * 15 + k) 0 ks" "foldl (\<lambda>s k. s * 15 + k) 0 ks < 15 ^ length ks"
  using assms
proof (induction ks)
  case Nil
  { case 1 then show ?case by simp }
  { case 2 then show ?case by simp }
next
  case (Cons k ks)
  let ?d = "foldl (\<lambda>s k. s * 15 + k) (0::int) ks"
  have d: "foldl (\<lambda>s k. s * 15 + k) 0 (k # ks) = k * 15 ^ length ks + ?d"
    using score_shift [of k ks] by simp
  { case 1
    then show ?case unfolding d using Cons.IH(1) by simp }
  { case 2
    then have "k * 15 ^ length ks \<le> 14 * 15 ^ length ks" "?d < 15 ^ length ks"
      using Cons.IH(2) by (auto intro!: mult_right_mono)
    then show ?case unfolding d length_Cons power_Suc by linarith }
qed

lemma score_digits_less:
  fixes ks ls :: "int list"
  assumes "length ks = length ls" "\<forall>k\<in>set ks. 0 \<le> k \<and> k < 15" "\<forall>k\<in>set ls. 0 \<le> k \<and> k < 15"
  shows "foldl (\<lambda>s k. s * 15 + k) 0 ks < foldl (\<lambda>s k. s * 15 + k) 0 ls
         \<longleftrightarrow> (ks, ls) \<in> lexord {(a, b). a < b}"
  using assms
proof (induction ks ls rule: list_induct2)
  case Nil
  then show ?case by simp
next
  case (Cons k ks l ls)
  let ?D = "\<lambda>xs. foldl (\<lambda>s k. s * 15 + k) (0::int) xs"
  have eq: "?D (k # ks) = k * 15 ^ length ks + ?D ks" "?D (l # ls) = l * 15 ^ length ks + ?D ls"
    using score_shift [of k ks] score_shift [of l ls] Cons.hyps by auto
  have b: "0 \<le> ?D ks" "?D ks < 15 ^ length ks" "0 \<le> ?D ls" "?D ls < 15 ^ length ks"
    using score_digits_bounds [of ks] score_digits_bounds [of ls] Cons.prems Cons.hyps by auto
  have step: "x * 15 ^ length ks + 15 ^ length ks \<le> y * 15 ^ length ks" if "x < y" for x y :: int
  proof -
    have "(x + 1) * 15 ^ length ks \<le> y * 15 ^ length ks"
      using that by (intro mult_right_mono) auto
    then show ?thesis by (simp add: algebra_simps)
  qed
  consider "k < l" | "k = l" | "l < k" by linarith
  then show ?case
  proof cases
    case 1
    then show ?thesis unfolding eq using step [OF 1] b by simp
  next
    case 2
    then show ?thesis unfolding eq using Cons by simp
  next
    case 3
    then show ?thesis unfolding eq using step [OF 3] b by simp
  qed
qed

lemma foldl_best:
  fixes f :: "'a \<Rightarrow> int"
  shows "foldl (\<lambda>b x. let v = f x in if v > b then v else b) b xs = Max (insert b (f ` set xs))"
proof (induction xs arbitrary: b)
  case Nil
  then show ?case by simp
next
  case (Cons x xs)
  have step: "(let v = f x in if v > b then v else b) = max b (f x)"
    by (simp add: Let_def max_def)
  have "Max (insert b (f ` set (x # xs))) = Max (insert (max b (f x)) (f ` set xs))"
    by (cases "xs = []") (auto simp: Max_insert max.assoc)
  then show ?case
    using Cons [of "max b (f x)"] step by (simp only: foldl_Cons)
qed

text \<open>A subsequence picks elements at increasing positions.\<close>

lemma subseq_positions:
  "subseq ys xs \<longleftrightarrow>
   (\<exists>ix. sorted_wrt (<) ix \<and> (\<forall>i\<in>set ix. i < length xs) \<and> ys = map ((!) xs) ix)"
proof
  assume "subseq ys xs"
  then show "\<exists>ix. sorted_wrt (<) ix \<and> (\<forall>i\<in>set ix. i < length xs) \<and> ys = map ((!) xs) ix"
  proof (induction rule: list_emb.induct)
    case (list_emb_Nil ys)
    then show ?case by (intro exI [of _ "[]"]) simp
  next
    case (list_emb_Cons xs ys y)
    then obtain ix where "sorted_wrt (<) ix" "\<forall>i\<in>set ix. i < length ys" "xs = map ((!) ys) ix"
      by blast
    then show ?case
      by (intro exI [of _ "map Suc ix"]) (auto simp: sorted_wrt_map)
  next
    case (list_emb_Cons2 x y xs ys)
    then obtain ix where "sorted_wrt (<) ix" "\<forall>i\<in>set ix. i < length ys" "xs = map ((!) ys) ix"
      by blast
    with list_emb_Cons2(1) show ?case
      by (intro exI [of _ "0 # map Suc ix"]) (auto simp: sorted_wrt_map)
  qed
next
  assume "\<exists>ix. sorted_wrt (<) ix \<and> (\<forall>i\<in>set ix. i < length xs) \<and> ys = map ((!) xs) ix"
  then obtain ix where "sorted_wrt (<) ix" "\<forall>i\<in>set ix. i < length xs" "ys = map ((!) xs) ix"
    by blast
  then have "ix = filter (\<lambda>i. i \<in> set ix) [0..<length xs]" and ys: "ys = map ((!) xs) ix"
    by (auto simp: strict_sorted_iff intro!: sorted_distinct_set_unique sorted_filter [of id, simplified])
  then have "subseq ix [0..<length xs]"
    by (metis subseq_filter_left)
  then show "subseq ys xs"
    unfolding ys by (metis subseq_map map_nth)
qed

lemma five_card_hands_mem:
  assumes "i < j" "j < k" "k < l" "l < m" "m < length cards"
  shows "[cards ! i, cards ! j, cards ! k, cards ! l, cards ! m] \<in> set (five_card_hands cards)"
proof -
  have "i \<in> {0..<length cards - 4}" "j \<in> {i + 1..<length cards - 3}" "k \<in> {j + 1..<length cards - 2}"
    "l \<in> {k + 1..<length cards - 1}" "m \<in> {l + 1..<length cards}"
    using assms by auto
  then show ?thesis
    unfolding five_card_hands_def Let_def set_concat set_map set_upt image_image UN_iff
    by blast
qed

lemma five_card_hands_subseqs:
  "set (five_card_hands cards) = {h. subseq h cards \<and> length h = 5}"
proof (intro equalityI subsetI)
  fix h assume "h \<in> set (five_card_hands cards)"
  then obtain i j k l m where "i < j" "j < k" "k < l" "l < m" "m < length cards"
    and "h = [cards ! i, cards ! j, cards ! k, cards ! l, cards ! m]"
    unfolding five_card_hands_def Let_def
    by (clarsimp simp: Suc_le_eq)
  then show "h \<in> {h. subseq h cards \<and> length h = 5}"
    by (auto simp: subseq_positions intro!: exI [of _ "[i, j, k, l, m]"])
next
  fix h assume "h \<in> {h. subseq h cards \<and> length h = 5}"
  then obtain ix where ix: "sorted_wrt (<) ix" "\<forall>i\<in>set ix. i < length cards"
    "h = map ((!) cards) ix" "length ix = 5"
    by (auto simp: subseq_positions)
  then obtain i j k l m where ijklm: "ix = [i, j, k, l, m]"
    by (auto simp: length_Suc_conv numeral_eq_Suc)
  with ix have "i < j" "j < k" "k < l" "l < m" "m < length cards"
    by auto
  with ix(3) ijklm show "h \<in> set (five_card_hands cards)"
    by (simp add: five_card_hands_mem)
qed

lemma evaluateHand_Max:
  "5 \<le> length cards \<Longrightarrow>
   evaluateHand cards
   = Inr (Max (insert 0 ((\<lambda>h. score (evaluate5 h)) ` {h. subseq h cards \<and> length h = 5})))"
  by (simp add: evaluateHand_def foldl_best five_card_hands_subseqs)

text \<open>Five different cards without a pair: the ranks are different.\<close>

lemma card_ranks_props:
  "mset (card_ranks cards) = mset (map (\<lambda>c. int (c div 4)) cards)"
  "sorted_wrt (\<ge>) (card_ranks cards)"
  "length (card_ranks cards) = length cards"
proof -
  have "sorted_wrt (\<lambda>a b. b - a \<le> 0) (card_ranks cards)"
    unfolding card_ranks_def by (rule sorted_js_sort) auto
  then show "sorted_wrt (\<ge>) (card_ranks cards)"
    by (rule sorted_wrt_mono_rel [rotated]) auto
qed (simp_all add: card_ranks_def)

lemma set_card_ranks: "set (card_ranks cards) = (\<lambda>c. int (c div 4)) ` set cards"
  by (simp add: card_ranks_def)

lemma rank_counts_first:
  assumes "x \<in> set (rank_counts ranks)"
  shows "snd x \<le> snd (rank_counts ranks ! 0)"
proof -
  let ?le = "\<lambda>a b :: int \<times> nat. if snd b \<noteq> snd a then snd b \<le> snd a else fst b - fst a \<le> 0"
  have "sorted_wrt ?le (rank_counts ranks)"
    unfolding rank_counts_def by (rule sorted_js_sort) (auto split: if_splits)
  then show ?thesis
    using assms by (cases "rank_counts ranks") (auto split: if_splits)
qed

lemma rank_counts_set: "set (rank_counts ranks) = (\<lambda>r. (r, count_list ranks r)) ` set ranks"
  by (simp add: rank_counts_def)

lemma count_le_first:
  "r \<in> set ranks \<Longrightarrow> count_list ranks r \<le> snd (rank_counts ranks ! 0)"
  using rank_counts_first [of "(r, count_list ranks r)" ranks] by (simp add: rank_counts_set)

lemma straight_high_le:
  assumes "\<forall>r\<in>set ranks. r \<le> 12"
  shows "straight_high ranks \<le> 12"
proof -
  let ?u = "js_sort (\<lambda>a b. a - b \<le> 0) (js_unique ranks)"
  have u: "\<forall>r\<in>set ?u. r \<le> 12" using assms by simp
  have bound: "foldl (\<lambda>h i. if ?u ! (i + 4) - ?u ! i = 4 then ?u ! (i + 4) else h) h xs \<le> 12"
    if "h \<le> 12" "\<forall>i\<in>set xs. i + 4 < length ?u" for h xs
    using that
  proof (induction xs arbitrary: h)
    case Nil
    then show ?case by simp
  next
    case (Cons x xs)
    have "?u ! (x + 4) \<le> 12"
      using Cons.prems(2) u nth_mem [of "x + 4" ?u] by simp
    then show ?case
      using Cons by simp
  qed
  have if_le: "(if P then 3 else t) \<le> 12" if "t \<le> 12" for P and t :: int
    using that by simp
  show ?thesis
    unfolding straight_high_def Let_def by (rule if_le, rule bound, auto)
qed

lemma same_rank_few:
  assumes "distinct cards" "\<And>c. c \<in> set cards \<Longrightarrow> int (c div 4) = r"
  shows "length cards \<le> 4"
proof -
  have "c \<in> {4 * nat r..<4 * nat r + 4}" if "c \<in> set cards" for c
  proof -
    have "nat r = c div 4" using assms(2) [OF that] by simp
    moreover have "4 * (c div 4) \<le> c \<and> c < 4 * (c div 4) + 4" by presburger
    ultimately show ?thesis by simp
  qed
  then have "set cards \<subseteq> {4 * nat r..<4 * nat r + 4}"
    by blast
  then have "card (set cards) \<le> card {4 * nat r..<4 * nat r + 4}"
    by (intro card_mono) auto
  then show ?thesis
    using assms(1) by (simp add: distinct_card)
qed

lemma count_list_ranks_le4:
  assumes "distinct cards"
  shows "count_list (card_ranks cards) r \<le> 4"
proof -
  let ?same = "filter (\<lambda>c. int (c div 4) = r) cards"
  have "count_list (card_ranks cards) r = count (mset (map (\<lambda>c. int (c div 4)) cards)) r"
    by (metis card_ranks_props(1) count_mset)
  also have "\<dots> = length ?same"
    by (induction cards) auto
  also have "\<dots> \<le> 4"
    by (rule same_rank_few [where r = r]) (use assms in auto)
  finally show ?thesis .
qed

lemma high_card_distinct:
  assumes "distinct cards" "length cards = 5" "hrank (evaluate5 cards) = HIGH_CARD"
  shows "distinct (card_ranks cards)" "kickers (evaluate5 cards) = card_ranks cards"
proof -
  let ?rs = "card_ranks cards"
  let ?n = "snd (rank_counts ?rs ! 0)"
  have len: "length ?rs = 5" using assms(2) by (simp add: card_ranks_props)
  then have ne: "rank_counts ?rs \<noteq> []"
    by (metis empty_iff image_is_empty list.set(1) list.size(3) rank_counts_set set_empty
        zero_neq_numeral)
  then have "rank_counts ?rs ! 0 \<in> set (rank_counts ?rs)"
    by simp
  then obtain r where r: "rank_counts ?rs ! 0 = (r, count_list ?rs r)"
    by (auto simp: rank_counts_set)
  have n: "?n \<noteq> 4" "?n \<noteq> 3" "?n \<noteq> 2" "kickers (evaluate5 cards) = take 5 ?rs"
    using assms(3) by (auto simp: evaluate5_def Let_def split: prod.splits if_splits)
  have "?n \<le> 4" using r count_list_ranks_le4 [OF assms(1), of r] by simp
  with n have "?n \<le> 1" by linarith
  then have "count_list ?rs x \<le> 1" if "x \<in> set ?rs" for x
    using count_le_first [OF that] by linarith
  then have "count (mset ?rs) x = (if x \<in> set ?rs then 1 else 0)" for x
    by (cases "x \<in> set ?rs")
      (auto simp: count_mset count_list_0_iff intro: le_antisym simp flip: count_mset)
  then show "distinct ?rs"
    by (simp add: distinct_count_atmost_1)
  show "kickers (evaluate5 cards) = ?rs"
    using n(4) len by simp
qed

lemma distinct_desc_first:
  fixes rs :: "int list"
  assumes "sorted_wrt (\<ge>) rs" "distinct rs" "\<forall>r\<in>set rs. 0 \<le> r" "rs \<noteq> []"
  shows "int (length rs) - 1 \<le> hd rs"
  using assms
proof (induction rs)
  case Nil
  then show ?case by simp
next
  case (Cons r rs)
  show ?case
  proof (cases rs)
    case Nil
    then show ?thesis using Cons.prems by simp
  next
    case (Cons r' rs')
    then have "int (length rs) - 1 \<le> hd rs" "hd rs < r"
      using Cons.IH Cons.prems by auto
    then show ?thesis by simp
  qed
qed

lemma straight_flush_score:
  assumes "\<forall>c\<in>set cards. c < 52" "hrank (evaluate5 cards) = STRAIGHT_FLUSH"
  shows "score (evaluate5 cards) \<le> 132"
proof -
  have "kickers (evaluate5 cards) = [straight_high (card_ranks cards)]"
    using assms(2) by (auto simp: evaluate5_def Let_def split: prod.splits if_splits)
  moreover have "straight_high (card_ranks cards) \<le> 12"
    using assms(1) by (intro straight_high_le) (auto simp: set_card_ranks)
  ultimately show ?thesis
    using assms(2) by (simp add: score_def)
qed

lemma high_card_score:
  assumes "distinct cards" "length cards = 5" "\<forall>c\<in>set cards. c < 52"
    "hrank (evaluate5 cards) = HIGH_CARD"
  shows "4 * 15 ^ 4 \<le> score (evaluate5 cards)"
proof -
  let ?rs = "card_ranks cards"
  note hc = high_card_distinct [OF assms(1,2,4)]
  have rs: "\<forall>r\<in>set ?rs. 0 \<le> r \<and> r < 15"
    using assms(3) by (auto simp: set_card_ranks)
  have len: "length ?rs = 5"
    using assms(2) by (simp add: card_ranks_props)
  then obtain r rs' where r: "?rs = r # rs'" "length rs' = 4"
    by (cases ?rs) auto
  have "4 \<le> r"
    using distinct_desc_first [OF card_ranks_props(2) hc(1)] rs len r by auto
  moreover have "score (evaluate5 cards) = r * 15 ^ 4 + foldl (\<lambda>s k. s * 15 + k) 0 rs'"
    using assms(4) hc(2) r score_shift [of r rs'] by (simp add: score_def)
  moreover have "0 \<le> foldl (\<lambda>s k. s * 15 + k) (0::int) rs'"
    using rs r by (intro score_digits_bounds) auto
  ultimately show ?thesis by simp
qed

lemma add_stack_0 [simp]: "add_stack 0 ps i = ps"
  by (simp add: add_stack_def)

lemma foldl_add_stack_0 [simp]: "foldl (add_stack 0) ps ws = ps"
  by (induction ws) auto

lemma settle_pot_0: "sp_amount pt = 0 \<Longrightarrow> settle_pot sc act ps pt = ps"
  by (simp add: settle_pot_def Let_def)

lemma active_seats_settlePots [simp]: "active_seats (players (settlePots st)) = active_seats (players st)"
  by (simp add: settlePots_def active_seats_def Let_def)

text \<open>Settling changes nothing but the stacks, and takes from none.\<close>

abbreviation no_stack :: "'x settle_player_scheme \<Rightarrow> 'x settle_player_scheme" where
  "no_stack p \<equiv> p\<lparr>stack := 0\<rparr>"

definition solvent :: "'x settle_player_scheme list \<Rightarrow> bool" where
  "solvent ps \<longleftrightarrow> (\<forall>p\<in>set ps. 0 \<le> stack p)"

lemma add_stack_only: "map no_stack (add_stack n ps i) = map no_stack ps"
  by (simp add: add_stack_def map_update_same)

lemma add_stack_solvent: "0 \<le> n \<Longrightarrow> solvent ps \<Longrightarrow> solvent (add_stack n ps i)"
  by (cases "i < length ps")
    (auto simp: solvent_def add_stack_def list_update_beyond dest!: set_update_subset_insert [THEN subsetD])

lemma settle_pot_only: "map no_stack (settle_pot sc act ps pt) = map no_stack ps"
proof -
  have "map no_stack (foldl (add_stack n) qs ws) = map no_stack qs" for n ws and qs :: "'a settle_player_scheme list"
    by (induction ws arbitrary: qs) (simp_all add: add_stack_only)
  then show ?thesis by (simp add: settle_pot_def Let_def add_stack_only)
qed

lemma settle_pot_solvent:
  assumes "0 \<le> sp_amount pt" "solvent ps"
  shows "solvent (settle_pot sc act ps pt)"
proof -
  have "solvent (foldl (add_stack n) qs ws)" if "0 \<le> n" "solvent qs" for n ws and qs :: "'a settle_player_scheme list"
    using that by (induction ws arbitrary: qs) (simp_all add: add_stack_solvent)
  then show ?thesis
    using assms by (simp add: settle_pot_def Let_def add_stack_solvent pos_imp_zdiv_nonneg_iff div_int_pos_iff)
qed

lemma settlePots_only: "map no_stack (players (settlePots st)) = map no_stack (players st)"
proof -
  have "map no_stack (foldl (settle_pot sc act) ps pots) = map no_stack ps"
    for sc act pots and ps :: "'a settle_player_scheme list"
    by (induction pots arbitrary: ps) (simp_all add: settle_pot_only)
  then show ?thesis by (simp add: settlePots_def Let_def)
qed

lemma settlePots_solvent:
  assumes "\<forall>pt\<in>set (sidePots st). 0 \<le> sp_amount pt" "0 \<le> pot st" "solvent (players st)"
  shows "solvent (players (settlePots st))"
proof -
  have "solvent (foldl (settle_pot sc act) ps pots)"
    if "solvent ps" "\<forall>pt\<in>set pots. 0 \<le> sp_amount pt" for sc act pots and ps :: "'a settle_player_scheme list"
    using that by (induction pots arbitrary: ps) (simp_all add: settle_pot_solvent)
  moreover have "\<forall>pt\<in>set (pots_to_settle st). 0 \<le> sp_amount pt"
    using assms by (auto simp: pots_to_settle_def default_pot_def Let_def)
  ultimately show ?thesis
    using assms(3) by (simp add: settlePots_def Let_def)
qed

section \<open>Properties\<close>

text \<open>within one hand rank the score orders hands by their kickers: with the same rank and the
  same number of kickers, all below 15, one score is below the other exactly when its kickers are
  lexicographically smaller.\<close>

theorem score_orders_kickers:
  assumes "hrank v = hrank w" "length (kickers v) = length (kickers w)"
    and "\<forall>k\<in>set (kickers v). 0 \<le> k \<and> k < 15" "\<forall>k\<in>set (kickers w). 0 \<le> k \<and> k < 15"
  shows "score v < score w \<longleftrightarrow> (kickers v, kickers w) \<in> lexord {(a, b). a < b}"
  unfolding score_def score_shift [of "rank_value _"]
  using assms score_digits_less [OF assms(2-4)] by simp

theorem score_orders_kickers_witness:
  "score \<lparr>hrank = PAIR, kickers = [3, 9, 2, 1]\<rparr> < score \<lparr>hrank = PAIR, kickers = [3, 10, 1, 0]\<rparr>"
  using score_orders_kickers [of "\<lparr>hrank = PAIR, kickers = [3, 9, 2, 1]\<rparr>"
      "\<lparr>hrank = PAIR, kickers = [3, 10, 1, 0]\<rparr>"] by simp

text \<open>C39: across ranks the score does not follow the ranking of poker hands: every straight flush
  scores less than every hand with nothing but high cards, because the score of a hand with five
  kickers has four more base-15 digits.\<close>

theorem straight_flush_below_high_card:
  assumes "distinct h" "length h = 5" "\<forall>c\<in>set h. c < 52" "hrank (evaluate5 h) = HIGH_CARD"
    and "\<forall>c\<in>set s. c < 52" "hrank (evaluate5 s) = STRAIGHT_FLUSH"
  shows "score (evaluate5 s) < score (evaluate5 h)"
  using high_card_score [OF assms(1-4)] straight_flush_score [OF assms(5,6)] by simp

theorem straight_flush_below_high_card_witness:
  "score (evaluate5 [32, 36, 40, 44, 48]) < score (evaluate5 [0, 5, 10, 19, 27])"
  by (rule straight_flush_below_high_card) code_simp+

text \<open>C18: the five nested loops of \<open>evaluateHand\<close> look at every choice of five cards: the
  value returned is the greatest score of a five-card subsequence of the cards (0 if all scores
  are negative).\<close>

theorem evaluateHand_best_of_five:
  assumes "5 \<le> length cards"
  shows "evaluateHand cards
     = Inr (Max (insert 0 ((\<lambda>h. score (evaluate5 h)) ` {h. subseq h cards \<and> length h = 5})))"
  using assms by (rule evaluateHand_Max)

theorem evaluateHand_best_of_five_witness:
  "evaluateHand [0, 5, 10, 19, 27]
   = Inr (Max (insert 0 ((\<lambda>h. score (evaluate5 h)) ` {h. subseq h [0, 5, 10, 19, 27] \<and> length h = 5})))"
  using evaluateHand_best_of_five [of "[0, 5, 10, 19, 27]"] by simp

text \<open>C4: settling conserves chips: when some player is active and every pot settled has an active
  player entitled to it, the players' stacks grow by exactly the pots' amounts, and nothing is left
  in the pot.\<close>

theorem settlePots_conserves:
  assumes "active_seats (players st) \<noteq> []"
    and "\<forall>pt\<in>set (pots_to_settle st). contenders (active_seats (players st)) pt (players st) \<noteq> []"
  shows "chips (players (settlePots st)) + pot (settlePots st)
         = chips (players st) + sum_list (map sp_amount (pots_to_settle st))"
proof -
  have "filter (\<lambda>pt. contenders (active_seats (players st)) pt (players st) \<noteq> []) (pots_to_settle st)
        = pots_to_settle st"
    using assms(2) by (simp add: filter_id_conv)
  moreover have "pot (settlePots st) = 0"
    using assms(1) by (simp add: settlePots_def Let_def)
  ultimately show ?thesis
    using chips_settlePots [OF assms(1)] by simp
qed

theorem settlePots_conserves_witness:
  "let p = \<lambda>i. \<lparr>pid = i, stack = 5, folded = False, holeCards = None\<rparr>;
       st = \<lparr>players = [p ''a'', p ''b''], pot = 7, sidePots = [], communityCards = []\<rparr>
   in chips (players (settlePots st)) + pot (settlePots st) = 17"
  unfolding Let_def by (subst settlePots_conserves) (simp_all add: active_seats_def
      pots_to_settle_def default_pot_def contenders_def Let_def)

text \<open>a pot is split evenly: each winner receives the integer share, the odd chips all go to
  the first winner in seat order, and every other player's stack is untouched.\<close>

theorem settle_pot_shares:
  assumes "scored sc act ps" "distinct act" "contenders act pt ps \<noteq> []"
  shows "stack (settle_pot sc act ps pt ! j) = stack (ps ! j)
     + (let ws = winners sc ps (contenders act pt ps); n = int (length ws)
        in (if j \<in> set ws then sp_amount pt div n else 0)
           + (if j = hd ws then sp_amount pt mod n else 0))"
proof -
  let ?ws = "winners sc ps (contenders act pt ps)"
  let ?n = "int (length ?ws)"
  note w = settle_pot_winners [OF assms(1,3)]
  have d: "distinct ?ws"
    using assms(2) by (simp add: winners_def contenders_def Let_def)
  have n: "0 < ?n" using w(1) by simp
  have hd: "hd ?ws < length ps" using w by simp
  have rem: "sp_amount pt - sp_amount pt div ?n * ?n = sp_amount pt mod ?n"
    by (simp add: minus_div_mult_eq_mod)
  have "0 \<le> sp_amount pt mod ?n" using n by simp
  then show ?thesis
    using hd assms(3) stack_foldl_add_stack [OF d w(2), of "sp_amount pt div ?n" j]
    unfolding settle_pot_def Let_def rem by (auto simp: stack_add_stack)
qed

theorem settle_pot_shares_witness:
  "let p = \<lambda>i. \<lparr>pid = i, stack = 5, folded = False, holeCards = None\<rparr>;
       pt = \<lparr>sp_amount = 7, sp_players = [''a'', ''b''], sp_contributions = []\<rparr>
   in stack (settle_pot (\<lambda>_. Some 0) [0, 1] [p ''a'', p ''b''] pt ! 0) = 9"
  unfolding Let_def by (subst settle_pot_shares)
    (simp_all add: scored_def contenders_def winners_def Let_def less_Suc_eq numeral_2_eq_2)

text \<open>settling is idempotent: the second settlement of the same hand (the engine runs one
  after the state machine's) pays nothing.\<close>

theorem settlePots_idempotent: "settlePots (settlePots st) = settlePots st"
proof (cases "active_seats (players st) = []")
  case True
  then show ?thesis by (simp add: settlePots_def)
next
  case False
  let ?st = "settlePots st"
  have "sidePots ?st = []" "pot ?st = 0"
    using False by (simp_all add: settlePots_def Let_def)
  then have "pots_to_settle ?st = [default_pot ?st]" "sp_amount (default_pot ?st) = 0"
    by (simp_all add: pots_to_settle_def default_pot_def Let_def)
  then have "settlePots ?st = ?st\<lparr>players := players ?st, pot := 0, sidePots := []\<rparr>"
    using False unfolding settlePots_def [of ?st] by (simp add: settle_pot_0 Let_def)
  also have "\<dots> = ?st"
    using \<open>sidePots ?st = []\<close> \<open>pot ?st = 0\<close> by (cases ?st) simp
  finally show ?thesis .
qed

end
