(* ===== verification/StateMachine.thy ===== *)
theory StateMachine
  imports SidePots Verify "HOL-Library.AList"
begin

text \<open>
  \<open>backend/src/game/state-machine.ts\<close>: the hand state machine. \<open>machine\<close> is a
  \<open>HandStateMachine\<close> object (its state and the set \<open>blindsPosted\<close>); \<open>machine_apply\<close> is
  \<open>apply(action)\<close>. An action that throws leaves the state as it was (every throw comes before
  the first mutation, or is shown unreachable), so an error result carries no state.

  \<open>rng.shuffle\<close> is the argument \<open>shuf\<close>. The contract the machine relies on is the locale
  \<open>card_shuffler\<close>: a shuffle invents no cards. It is interpreted on \<open>rng_shuffle\<close>, which
  loses cards (theory \<open>Verify\<close>) but satisfies it.
\<close>

section \<open>Data\<close>

datatype street = Preflop | Flop | Turn | River | Showdown

datatype hand_phase = WAIT_BLINDS | DEAL | BETTING_ROUND | SHOWDOWN | SETTLE | NEXT_HAND

datatype game_action =
    PostBlind string int
  | Bet string int
  | Raise string int
  | Call string "int option"
  | Check string
  | Fold string
  | Next

record player = settle_player +
  bet :: int
  allIn :: bool

record game_state = "player settlement_state" +
  phase :: hand_phase
  street :: street
  currentBet :: int
  deck :: "nat list"

record machine =
  mstate :: game_state
  blindsPosted :: "string list"

datatype game_error =
    InvalidActionForPhase
  | UnknownPlayer string
  | AmountMustBePositive
  | BetExceedsStack
  | InsufficientCards
  | CommunityAlreadyDealt
  | DeckExhausted
  | HoleCardUndefined

type_synonym shuffler = "nat list \<Rightarrow> nat option list"

section \<open>Operations\<close>

definition activePlayers :: "game_state \<Rightarrow> player list" where
  "activePlayers st = filter (\<lambda>p. \<not> folded p) (players st)"

text \<open>\<open>findPlayer\<close> returns a reference to the player object; the model returns its position.\<close>

definition findPlayer :: "string \<Rightarrow> game_state \<Rightarrow> game_error + nat" where
  "findPlayer i st =
     or_fail (UnknownPlayer i) (List.find (\<lambda>k. pid (players st ! k) = i) [0..<length (players st)])"

fun street_index :: "street \<Rightarrow> nat" where
  "street_index Preflop = 0"
| "street_index Flop = 1"
| "street_index Turn = 2"
| "street_index River = 3"
| "street_index Showdown = 4"

definition street_order :: "street list" where
  "street_order = [Preflop, Flop, Turn, River, Showdown]"

definition advanceStreet :: "game_state \<Rightarrow> game_state" where
  "advanceStreet st =
     st\<lparr>street := street_order ! (min (street_index (street st) + 1) (length street_order - 1))\<rparr>"

definition placeBet :: "nat \<Rightarrow> int \<Rightarrow> game_state \<Rightarrow> game_error + game_state" where
  "placeBet k amount st =
     (let p = players st ! k
      in if amount \<le> 0 then Inl AmountMustBePositive
         else if amount > stack p then Inl BetExceedsStack
         else let p' = p\<lparr>stack := stack p - amount, bet := bet p + amount,
                         allIn := (if stack p - amount = 0 then True else allIn p)\<rparr>
              in Inr (st\<lparr>players := (players st)[k := p'], pot := pot st + amount,
                         currentBet := (if bet p' > currentBet st then bet p' else currentBet st)\<rparr>))"

text \<open>One layer of \<open>finishBettingRound\<close>: the pot pushed for \<open>level\<close>.\<close>

definition layer_pot :: "player list \<Rightarrow> player list \<Rightarrow> int \<Rightarrow> int \<Rightarrow> side_pot list" where
  "layer_pot ps bettors previous level =
     (let contributors = filter (\<lambda>p. bet p \<ge> level) bettors;
          live = filter (\<lambda>p. \<not> folded p) contributors;
          potAmount = (level - previous) * int (length contributors);
          contributions = foldl (\<lambda>c p. AList.update (pid p) (level - previous) c) [] contributors;
          active = filter (\<lambda>p. \<not> folded p) ps;
          contributions' = (if live = []
             then foldl (\<lambda>c p. if pid p \<in> fst ` set c then c else AList.update (pid p) 0 c)
                    contributions active
             else contributions);
          entitled = (if live \<noteq> [] then live else if active \<noteq> [] then active else contributors)
      in if potAmount > 0
         then [\<lparr>sp_amount = potAmount, sp_players = map pid entitled,
                sp_contributions = contributions'\<rparr>]
         else [])"

fun layer_pots :: "player list \<Rightarrow> player list \<Rightarrow> int \<Rightarrow> int list \<Rightarrow> side_pot list" where
  "layer_pots ps bettors previous [] = []"
| "layer_pots ps bettors previous (level # levels) =
     layer_pot ps bettors previous level @ layer_pots ps bettors level levels"

definition bettors_of :: "player list \<Rightarrow> player list" where
  "bettors_of ps = filter (\<lambda>p. bet p > 0) ps"

definition bet_levels :: "player list \<Rightarrow> int list" where
  "bet_levels bettors = js_sort (\<lambda>a b. a - b \<le> 0) (js_unique (map bet bettors))"

definition finishBettingRound :: "game_state \<Rightarrow> game_state" where
  "finishBettingRound st =
     (let bettors = bettors_of (players st)
      in if bettors = [] then st\<lparr>currentBet := 0\<rparr>
         else st\<lparr>sidePots := sidePots st
                    @ layer_pots (players st) bettors 0 (bet_levels bettors),
                 players := map (\<lambda>p. p\<lparr>bet := 0\<rparr>) (players st),
                 currentBet := 0\<rparr>)"

definition expectedCommunityCountBeforeDeal :: "game_state \<Rightarrow> nat" where
  "expectedCommunityCountBeforeDeal st =
     (case street st of Flop \<Rightarrow> 0 | Turn \<Rightarrow> 3 | River \<Rightarrow> 4 | _ \<Rightarrow> length (communityCards st))"

definition buildDeck :: "shuffler \<Rightarrow> nat list \<Rightarrow> nat list" where
  "buildDeck shuf excluded =
     (let available = filter (\<lambda>c. c \<notin> set excluded) standardDeck;
          deck = foldl (\<lambda>d x. case x of
                     None \<Rightarrow> d
                   | Some c \<Rightarrow> if c \<notin> set excluded \<and> c \<notin> set d then d @ [c] else d)
                   [] (shuf available)
      in if length deck < length available
         then foldl (\<lambda>d c. if c \<notin> set d then d @ [c] else d) deck available
         else deck)"

definition hole_cards :: "player list \<Rightarrow> nat list" where
  "hole_cards ps = concat (map (\<lambda>p. case holeCards p of None \<Rightarrow> [] | Some h \<Rightarrow> h) ps)"

definition used_cards :: "game_state \<Rightarrow> nat list" where
  "used_cards st = js_unique (communityCards st @ hole_cards (players st))"

text \<open>The model's decks hold numbers only, so the sanitizing filter keeps the deck as it is.\<close>

definition ensureDeckCapacity :: "shuffler \<Rightarrow> nat \<Rightarrow> game_state \<Rightarrow> game_error + game_state" where
  "ensureDeckCapacity shuf n st =
     (let used = used_cards st;
          expectedRemaining = int (length standardDeck) - int (length used)
      in if int (length (deck st)) \<noteq> expectedRemaining \<or> length (deck st) < n
         then if length (filter (\<lambda>c. c \<notin> set used) standardDeck) < n then Inl InsufficientCards
              else Inr (st\<lparr>deck := buildDeck shuf used\<rparr>)
         else Inr st)"

definition pop :: "nat list \<Rightarrow> (nat \<times> nat list) option" where
  "pop d = (if d = [] then None else Some (last d, butlast d))"

fun deal_loop :: "nat \<Rightarrow> game_state \<Rightarrow> game_error + game_state" where
  "deal_loop 0 st = Inr st"
| "deal_loop (Suc n) st =
     (case pop (deck st) of
        None \<Rightarrow> Inl DeckExhausted
      | Some (c, d) \<Rightarrow>
          deal_loop n (st\<lparr>deck := d, communityCards := communityCards st @ [c]\<rparr>))"

definition dealCommunity :: "shuffler \<Rightarrow> nat \<Rightarrow> game_state \<Rightarrow> game_error + game_state" where
  "dealCommunity shuf n st =
     (if length (communityCards st) \<noteq> expectedCommunityCountBeforeDeal st
      then Inl CommunityAlreadyDealt
      else rbind (ensureDeckCapacity shuf n st) (deal_loop n))"

text \<open>
  Dealing the hole cards pops two cards per player. With more than 26 players the code stores
  \<open>undefined\<close>; the model stops with the error \<open>HoleCardUndefined\<close> instead
  (\<open>deal_holes_total\<close>: it does not happen at a table of at most 26).
\<close>

fun deal_holes :: "player list \<Rightarrow> nat list \<Rightarrow> game_error + player list \<times> nat list" where
  "deal_holes [] d = Inr ([], d)"
| "deal_holes (p # ps) d =
     (case pop d of
        None \<Rightarrow> Inl HoleCardUndefined
      | Some (a, d1) \<Rightarrow>
          (case pop d1 of
             None \<Rightarrow> Inl HoleCardUndefined
           | Some (b, d2) \<Rightarrow>
               rbind (deal_holes ps d2)
                 (\<lambda>(ps', d'). Inr (p\<lparr>holeCards := Some [a, b]\<rparr> # ps', d'))))"

definition start_deal :: "shuffler \<Rightarrow> game_state \<Rightarrow> game_error + game_state" where
  "start_deal shuf st =
     rbind (deal_holes (players st) (buildDeck shuf []))
       (\<lambda>(ps, d). Inr (st\<lparr>players := ps, deck := d, phase := DEAL\<rparr>))"

definition apply_blinds :: "shuffler \<Rightarrow> game_action \<Rightarrow> machine \<Rightarrow> game_error + machine" where
  "apply_blinds shuf action m =
     (case action of
        PostBlind i amount \<Rightarrow>
          rbind (findPlayer i (mstate m)) (\<lambda>k.
          rbind (placeBet k amount (mstate m)) (\<lambda>st.
            let posted = List.insert i (blindsPosted m)
            in if length posted = length (players st)
               then rbind (start_deal shuf st)
                      (\<lambda>st'. Inr \<lparr>mstate = st', blindsPosted = []\<rparr>)
               else Inr \<lparr>mstate = st, blindsPosted = posted\<rparr>))
      | _ \<Rightarrow> Inl InvalidActionForPhase)"

definition apply_deal :: "shuffler \<Rightarrow> game_action \<Rightarrow> game_state \<Rightarrow> game_error + game_state" where
  "apply_deal shuf action st =
     (case action of
        Next \<Rightarrow>
          rbind (case street st of
                   Flop \<Rightarrow> dealCommunity shuf 3 st
                 | Turn \<Rightarrow> dealCommunity shuf 1 st
                 | River \<Rightarrow> dealCommunity shuf 1 st
                 | _ \<Rightarrow> Inr st)
            (\<lambda>st'. Inr (st'\<lparr>phase := BETTING_ROUND\<rparr>))
      | _ \<Rightarrow> Inl InvalidActionForPhase)"

definition betting_action :: "game_action \<Rightarrow> game_state \<Rightarrow> game_error + game_state" where
  "betting_action action st =
     (case action of
        Bet i amount \<Rightarrow> rbind (findPlayer i st) (\<lambda>k. placeBet k amount st)
      | Raise i amount \<Rightarrow> rbind (findPlayer i st) (\<lambda>k. placeBet k amount st)
      | PostBlind i amount \<Rightarrow> rbind (findPlayer i st) (\<lambda>k. placeBet k amount st)
      | Call i _ \<Rightarrow>
          rbind (findPlayer i st) (\<lambda>k. placeBet k (currentBet st - bet (players st ! k)) st)
      | Check i \<Rightarrow> Inr st
      | Fold i \<Rightarrow>
          rbind (findPlayer i st) (\<lambda>k.
            Inr (st\<lparr>players := (players st)[k := (players st ! k)\<lparr>folded := True\<rparr>]\<rparr>))
      | Next \<Rightarrow>
          let st' = finishBettingRound st
          in if street st' = River then Inr (advanceStreet st'\<lparr>phase := SHOWDOWN\<rparr>)
             else Inr (advanceStreet st'\<lparr>phase := DEAL\<rparr>))"

definition close_if_alone :: "game_state \<Rightarrow> game_state" where
  "close_if_alone st =
     (if phase st = BETTING_ROUND \<and> length (activePlayers st) \<le> 1
      then (if list_ex (\<lambda>p. bet p > 0) (players st) then finishBettingRound st
            else st\<lparr>currentBet := 0\<rparr>)\<lparr>phase := SHOWDOWN\<rparr>
      else st)"

definition apply_betting :: "game_action \<Rightarrow> game_state \<Rightarrow> game_error + game_state" where
  "apply_betting action st = rbind (betting_action action st) (\<lambda>st'. Inr (close_if_alone st'))"

definition apply_showdown :: "game_action \<Rightarrow> game_state \<Rightarrow> game_error + game_state" where
  "apply_showdown action st =
     (case action of Next \<Rightarrow> Inr (settlePots st\<lparr>phase := SETTLE\<rparr>) | _ \<Rightarrow> Inl InvalidActionForPhase)"

definition reset_player :: "player \<Rightarrow> player" where
  "reset_player p = p\<lparr>folded := False, bet := 0, allIn := False, holeCards := None\<rparr>"

definition apply_settle :: "game_action \<Rightarrow> machine \<Rightarrow> game_error + machine" where
  "apply_settle action m =
     (case action of
        Next \<Rightarrow> Inr \<lparr>mstate = (mstate m)\<lparr>players := map reset_player (players (mstate m)), pot := 0,
                        sidePots := [], currentBet := 0, communityCards := [], deck := [],
                        street := Preflop, phase := NEXT_HAND\<rparr>,
                     blindsPosted = []\<rparr>
      | _ \<Rightarrow> Inl InvalidActionForPhase)"

definition machine_apply :: "shuffler \<Rightarrow> game_action \<Rightarrow> machine \<Rightarrow> game_error + machine" where
  "machine_apply shuf action m =
     (let lift = \<lambda>r. rbind r (\<lambda>st. Inr (m\<lparr>mstate := st\<rparr>))
      in case phase (mstate m) of
           WAIT_BLINDS \<Rightarrow> apply_blinds shuf action m
         | NEXT_HAND \<Rightarrow> apply_blinds shuf action m
         | DEAL \<Rightarrow> lift (apply_deal shuf action (mstate m))
         | BETTING_ROUND \<Rightarrow> lift (apply_betting action (mstate m))
         | SHOWDOWN \<Rightarrow> lift (apply_showdown action (mstate m))
         | SETTLE \<Rightarrow> apply_settle action m)"

section \<open>Chips\<close>

definition total_chips :: "game_state \<Rightarrow> int" where
  "total_chips st = chips (players st) + pot st"

abbreviation bets :: "player list \<Rightarrow> int" where
  "bets ps \<equiv> sum_list (map bet ps)"

abbreviation side_total :: "side_pot list \<Rightarrow> int" where
  "side_total pots \<equiv> sum_list (map sp_amount pots)"

lemma findPlayer_InrD:
  "findPlayer i st = Inr k \<Longrightarrow> k < length (players st) \<and> pid (players st ! k) = i"
  by (auto simp: findPlayer_def find_Some_iff)

lemma placeBet_InrD:
  assumes "placeBet k amount st = Inr st'"
  shows "0 < amount" "amount \<le> stack (players st ! k)"
    "st' = st\<lparr>players := (players st)[k := (players st ! k)\<lparr>stack := stack (players st ! k) - amount,
              bet := bet (players st ! k) + amount,
              allIn := (stack (players st ! k) = amount \<or> allIn (players st ! k))\<rparr>],
            pot := pot st + amount,
            currentBet := max (currentBet st) (bet (players st ! k) + amount)\<rparr>"
  using assms by (auto simp: placeBet_def Let_def max_def split: if_splits)

lemma placeBet_chips [chip_simps]:
  assumes "placeBet k amount st = Inr st'" "k < length (players st)"
  shows "total_chips st' = total_chips st"
    "bets (players st') = bets (players st) + amount" "pot st' = pot st + amount"
  using placeBet_InrD [OF assms(1)] assms(2)
  by (simp_all add: total_chips_def sum_list_map_update)

lemma map_bet_0 [simp]: "map stack (map (\<lambda>p. p\<lparr>bet := 0\<rparr>) ps) = map stack ps"
  by simp

lemma finishBettingRound_frame [frame_simps]:
  "map stack (players (finishBettingRound st)) = map stack (players st)"
  "map pid (players (finishBettingRound st)) = map pid (players st)"
  "map folded (players (finishBettingRound st)) = map folded (players st)"
  "map holeCards (players (finishBettingRound st)) = map holeCards (players st)"
  "pot (finishBettingRound st) = pot st"
  "phase (finishBettingRound st) = phase st"
  "street (finishBettingRound st) = street st"
  "deck (finishBettingRound st) = deck st"
  "communityCards (finishBettingRound st) = communityCards st"
  by (simp_all add: finishBettingRound_def Let_def comp_def)

lemma finishBettingRound_chips [chip_simps]: "total_chips (finishBettingRound st) = total_chips st"
  by (simp add: total_chips_def finishBettingRound_frame)

lemma advanceStreet_frame [frame_simps, simp]:
  "players (advanceStreet st) = players st" "pot (advanceStreet st) = pot st"
  "sidePots (advanceStreet st) = sidePots st" "phase (advanceStreet st) = phase st"
  "deck (advanceStreet st) = deck st" "communityCards (advanceStreet st) = communityCards st"
  "currentBet (advanceStreet st) = currentBet st"
  by (simp_all add: advanceStreet_def)

lemma deal_loop_frame:
  assumes "deal_loop n st = Inr st'"
  shows "players st' = players st" "pot st' = pot st" "sidePots st' = sidePots st"
    "street st' = street st" "phase st' = phase st"
    "length (communityCards st') = length (communityCards st) + n"
    "communityCards st' @ rev (deck st') = communityCards st @ rev (deck st)"
  using assms
  by (induction n arbitrary: st)
    (auto simp: pop_def split: if_splits option.splits simp flip: rev_append,
     (metis append.assoc append_Cons append_Nil rev_eq_Cons_iff append_butlast_last_id rev.simps(2)
        rev_append rev_rev_ident)+)

section \<open>Side pots of a betting round\<close>

text \<open>\<open>levels\<close> continues the layering of \<open>ps\<close> from \<open>previous\<close>: strictly increasing, and
  every bet is one of the levels or already covered.\<close>

definition layering :: "player list \<Rightarrow> int \<Rightarrow> int list \<Rightarrow> bool" where
  "layering ps previous levels \<longleftrightarrow>
     sorted_wrt (<) (previous # levels) \<and> (\<forall>p\<in>set ps. bet p \<in> set levels \<or> bet p \<le> previous)"

lemma layeringD:
  assumes "layering ps previous (level # levels)"
  shows "previous < level" "layering ps level levels"
    "p \<in> set ps \<Longrightarrow> level \<le> bet p \<or> bet p \<le> previous"
proof -
  show "previous < level" "layering ps level levels"
    using assms by (auto simp: layering_def)
  assume "p \<in> set ps"
  then have "bet p = level \<or> bet p \<in> set levels \<or> bet p \<le> previous"
    using assms by (simp add: layering_def)
  moreover have "\<forall>l\<in>set levels. level < l"
    using assms by (simp add: layering_def)
  ultimately show "level \<le> bet p \<or> bet p \<le> previous"
    by (auto intro: less_imp_le)
qed

lemma layering_bet_levels: "layering (bettors_of ps) 0 (bet_levels (bettors_of ps))"
proof -
  let ?ls = "bet_levels (bettors_of ps)"
  have "sorted_wrt (\<lambda>a b. a - b \<le> 0) ?ls"
    unfolding bet_levels_def by (rule sorted_js_sort) auto
  then have "sorted ?ls"
    by (rule sorted_wrt_mono_rel [rotated]) auto
  moreover have "distinct ?ls"
    by (simp add: bet_levels_def)
  ultimately have "sorted_wrt (<) ?ls"
    by (simp add: strict_sorted_iff)
  moreover have "\<forall>l\<in>set ?ls. 0 < l"
    by (auto simp: bet_levels_def bettors_of_def)
  moreover have "\<forall>p\<in>set (bettors_of ps). bet p \<in> set ?ls"
    by (auto simp: bet_levels_def)
  ultimately show ?thesis
    by (simp add: layering_def)
qed

lemma layer_amount:
  assumes "\<forall>p\<in>set qs. level \<le> bet p \<or> bet p \<le> previous" "previous < level"
  shows "(level - previous) * int (length (filter (\<lambda>p. level \<le> bet p) qs))
         = (\<Sum>q\<leftarrow>qs. min (bet q) level - min (bet q) previous)"
  using assms by (induction qs) (auto simp: min_def algebra_simps)

lemma layer_pot_total:
  assumes "previous < level"
  shows "side_total (layer_pot ps qs previous level)
         = (level - previous) * int (length (filter (\<lambda>p. level \<le> bet p) qs))"
  using assms by (auto simp: layer_pot_def Let_def not_less mult_le_0_iff intro: antisym)

lemma layer_pots_total:
  assumes "layering qs previous levels"
  shows "side_total (layer_pots ps qs previous levels)
         = (\<Sum>q\<leftarrow>qs. bet q - min (bet q) previous)"
  using assms
proof (induction levels arbitrary: previous)
  case Nil
  then have "\<forall>q\<in>set qs. bet q - min (bet q) previous = 0"
    by (auto simp: layering_def)
  then have "(\<Sum>q\<leftarrow>qs. bet q - min (bet q) previous) = 0"
    by (induction qs) auto
  then show ?case by simp
next
  case (Cons level levels)
  note d = layeringD [OF Cons.prems]
  have "side_total (layer_pots ps qs previous (level # levels))
        = (\<Sum>q\<leftarrow>qs. min (bet q) level - min (bet q) previous)
          + (\<Sum>q\<leftarrow>qs. bet q - min (bet q) level)"
    using d by (simp add: layer_pot_total layer_amount Cons.IH)
  also have "\<dots> = (\<Sum>q\<leftarrow>qs. bet q - min (bet q) previous)"
    by (simp add: sum_list_addf [symmetric])
  finally show ?case .
qed

lemma bets_bettors: "\<forall>p\<in>set ps. 0 \<le> bet p \<Longrightarrow> bets (bettors_of ps) = bets ps"
  by (induction ps) (auto simp: bettors_of_def)

lemma finish_pots_total:
  assumes "\<forall>p\<in>set ps. 0 \<le> bet p"
  shows "side_total (layer_pots ps (bettors_of ps) 0 (bet_levels (bettors_of ps))) = bets ps"
proof -
  have "(\<Sum>q\<leftarrow>bettors_of ps. bet q - min (bet q) 0) = bets (bettors_of ps)"
    by (induction ps) (auto simp: bettors_of_def)
  then show ?thesis
    using layer_pots_total [OF layering_bet_levels, of ps ps] bets_bettors [OF assms] by simp
qed

lemma finishBettingRound_total:
  assumes "\<forall>p\<in>set (players st). 0 \<le> bet p"
  shows "side_total (sidePots (finishBettingRound st)) = side_total (sidePots st) + bets (players st)"
proof (cases "bettors_of (players st) = []")
  case True
  then have "bets (players st) = 0"
    using bets_bettors [OF assms] by simp
  with True show ?thesis by (simp add: finishBettingRound_def)
next
  case False
  then show ?thesis
    using finish_pots_total [OF assms] by (simp add: finishBettingRound_def Let_def)
qed

lemma finishBettingRound_bets:
  assumes "\<forall>p\<in>set (players st). 0 \<le> bet p" "p \<in> set (players (finishBettingRound st))"
  shows "bet p = 0"
  using assms
  by (auto simp: finishBettingRound_def Let_def bettors_of_def filter_empty_conv not_less
      intro: antisym split: if_splits)

text \<open>Entitlement: a live player is entitled to the layers up to its bet, and to no other as long
  as every layer has a live contributor.\<close>

definition live_layers :: "player list \<Rightarrow> int list \<Rightarrow> bool" where
  "live_layers qs levels \<longleftrightarrow> (\<forall>l\<in>set levels. \<exists>q\<in>set qs. \<not> folded q \<and> l \<le> bet q)"

lemma layer_pot_players:
  assumes "\<exists>q\<in>set qs. \<not> folded q \<and> level \<le> bet q" "pt \<in> set (layer_pot ps qs previous level)"
  shows "set (sp_players pt) = {pid q |q. q \<in> set qs \<and> \<not> folded q \<and> level \<le> bet q}"
proof -
  have "filter (\<lambda>p. \<not> folded p) (filter (\<lambda>p. level \<le> bet p) qs) \<noteq> []"
    using assms(1) by (auto simp: filter_empty_conv)
  then show ?thesis
    using assms(2) by (auto simp: layer_pot_def Let_def split: if_splits)
qed

lemma layer_pots_entitled:
  assumes "layering qs previous levels" "live_layers qs levels"
    and "p \<in> set qs" "\<not> folded p" "inj_on pid (set qs)"
  shows "side_total (filter (\<lambda>pt. pid p \<in> set (sp_players pt)) (layer_pots ps qs previous levels))
         = (\<Sum>q\<leftarrow>qs. min (bet q) (bet p) - min (bet q) (min previous (bet p)))"
  using assms(1,2)
proof (induction levels arbitrary: previous)
  case Nil
  then have "bet p \<le> previous"
    using assms(3) by (auto simp: layering_def)
  then show ?case by (simp add: min_absorb2)
next
  case (Cons level levels)
  note d = layeringD [OF Cons.prems(1)]
  have live: "\<exists>q\<in>set qs. \<not> folded q \<and> level \<le> bet q" "live_layers qs levels"
    using Cons.prems(2) by (auto simp: live_layers_def)
  have mem: "pid p \<in> set (sp_players pt) \<longleftrightarrow> level \<le> bet p"
    if "pt \<in> set (layer_pot ps qs previous level)" for pt
    using layer_pot_players [OF live(1) that] assms(3-5) by (auto dest: inj_onD)
  show ?case
  proof (cases "level \<le> bet p")
    case True
    have "filter (\<lambda>pt. pid p \<in> set (sp_players pt)) (layer_pot ps qs previous level)
          = layer_pot ps qs previous level"
      using mem True by (simp add: filter_id_conv)
    then have "side_total (filter (\<lambda>pt. pid p \<in> set (sp_players pt))
          (layer_pots ps qs previous (level # levels)))
        = (\<Sum>q\<leftarrow>qs. min (bet q) level - min (bet q) previous)
          + (\<Sum>q\<leftarrow>qs. min (bet q) (bet p) - min (bet q) (min level (bet p)))"
      using d live by (simp add: layer_pot_total layer_amount Cons.IH)
    also have "\<dots> = (\<Sum>q\<leftarrow>qs. min (bet q) (bet p) - min (bet q) (min previous (bet p)))"
      using True d(1) by (simp add: sum_list_addf [symmetric] min_absorb1)
    finally show ?thesis .
  next
    case False
    then have le: "bet p \<le> previous"
      using d(3) [OF assms(3)] by auto
    have "filter (\<lambda>pt. pid p \<in> set (sp_players pt)) (layer_pot ps qs previous level) = []"
      using mem False by (simp add: filter_empty_conv)
    then have "side_total (filter (\<lambda>pt. pid p \<in> set (sp_players pt))
          (layer_pots ps qs previous (level # levels)))
        = (\<Sum>q\<leftarrow>qs. min (bet q) (bet p) - min (bet q) (min level (bet p)))"
      using d live by (simp add: Cons.IH)
    then show ?thesis
      using False le by (simp add: min_absorb2)
  qed
qed

section \<open>Cards\<close>

lemma foldl_fresh:
  assumes "distinct d" "set d \<subseteq> A" "\<And>c. Some c \<in> set xs \<Longrightarrow> P c \<Longrightarrow> c \<in> A"
  shows "distinct (foldl (\<lambda>d x. case x of None \<Rightarrow> d
                    | Some c \<Rightarrow> if P c \<and> c \<notin> set d then d @ [c] else d) d xs)
    \<and> set (foldl (\<lambda>d x. case x of None \<Rightarrow> d
                    | Some c \<Rightarrow> if P c \<and> c \<notin> set d then d @ [c] else d) d xs) \<subseteq> A"
  using assms
proof (induction xs arbitrary: d)
  case Nil
  then show ?case by simp
next
  case (Cons x xs)
  let ?d = "case x of None \<Rightarrow> d | Some c \<Rightarrow> if P c \<and> c \<notin> set d then d @ [c] else d"
  have "distinct ?d" "set ?d \<subseteq> A"
    using Cons.prems by (auto split: option.splits)
  moreover have "\<And>c. Some c \<in> set xs \<Longrightarrow> P c \<Longrightarrow> c \<in> A"
    using Cons.prems(3) by simp
  ultimately show ?case
    unfolding foldl_Cons by (rule Cons.IH)
qed

lemma foldl_append_missing:
  assumes "distinct d"
  shows "distinct (foldl (\<lambda>d c. if c \<notin> set d then d @ [c] else d) d xs)
    \<and> set (foldl (\<lambda>d c. if c \<notin> set d then d @ [c] else d) d xs) = set d \<union> set xs"
  using assms by (induction xs arbitrary: d) auto

text \<open>The contract of \<open>rng.shuffle\<close> the machine relies on: every card it returns was given.\<close>

locale card_shuffler =
  fixes shuf :: shuffler
  assumes shuf_elements: "Some c \<in> set (shuf xs) \<Longrightarrow> c \<in> set xs"
begin

lemma buildDeck_cards:
  "distinct (buildDeck shuf excluded) \<and> set (buildDeck shuf excluded) = {c. c < 52} - set excluded"
proof -
  define av where "av = filter (\<lambda>c. c \<notin> set excluded) standardDeck"
  define d where "d = foldl (\<lambda>d x. case x of None \<Rightarrow> d
      | Some c \<Rightarrow> if c \<notin> set excluded \<and> c \<notin> set d then d @ [c] else d) [] (shuf av)"
  have av: "distinct av" "set av = {c. c < 52} - set excluded"
    by (auto simp: av_def standardDeck_def)
  have d: "distinct d" "set d \<subseteq> set av"
    using foldl_fresh [of "[]" "set av" "shuf av" "\<lambda>c. c \<notin> set excluded"] shuf_elements [of _ av]
    by (auto simp: d_def)
  show ?thesis
  proof (cases "length d < length av")
    case True
    then show ?thesis
      using foldl_append_missing [OF d(1), of av] d(2) av(2)
      by (simp add: buildDeck_def Let_def flip: av_def d_def) auto
  next
    case False
    then have "card (set av) \<le> card (set d)"
      using d(1) av(1) by (simp add: distinct_card)
    then have "set d = set av"
      using d(2) by (metis List.finite_set card_seteq)
    then show ?thesis
      using False d(1) av(2) by (simp add: buildDeck_def Let_def flip: av_def d_def)
  qed
qed

lemma buildDeck_all: "mset (buildDeck shuf []) = mset standardDeck"
proof -
  have "distinct standardDeck" "set standardDeck = {c. c < 52}"
    by (auto simp: standardDeck_def)
  then show ?thesis
    using buildDeck_cards [of "[]"] set_eq_iff_mset_eq_distinct [of "buildDeck shuf []" standardDeck]
    by simp
qed

end

interpretation hand_rng: card_shuffler "rng_shuffle sha_array rng" for sha_array rng
  by unfold_locales (auto simp: rng_shuffle_def dest: shuffle_elements)

lemma deal_holes_ConsD:
  assumes "deal_holes (p # ps) d = Inr (ps', d')"
  obtains a b d2 qs where "d = d2 @ [b, a]" "deal_holes ps d2 = Inr (qs, d')"
    "ps' = p\<lparr>holeCards := Some [a, b]\<rparr> # qs"
proof -
  from assms obtain a b where d: "d \<noteq> []" "butlast d \<noteq> []" "a = last d" "b = last (butlast d)"
    and r: "rbind (deal_holes ps (butlast (butlast d)))
         (\<lambda>(ps', d'). Inr (p\<lparr>holeCards := Some [a, b]\<rparr> # ps', d')) = Inr (ps', d')"
    by (auto simp: pop_def split: if_splits)
  from d have "d = butlast (butlast d) @ [b, a]"
    by (metis append.assoc append_Cons append_Nil append_butlast_last_id)
  with r show ?thesis
    using that by (auto simp: rbind_eq_Inr_iff)
qed

text \<open>Dealing keeps every field but the hole cards.\<close>

lemma deal_holes_InrD:
  assumes "deal_holes ps d = Inr (ps', d')"
  shows "mset (hole_cards ps') + mset d' = mset d
    \<and> (\<forall>p\<in>set ps'. \<exists>a b. holeCards p = Some [a, b])
    \<and> map (holeCards_update (\<lambda>_. None)) ps' = map (holeCards_update (\<lambda>_. None)) ps"
  using assms
proof (induction ps arbitrary: d ps')
  case Nil
  then show ?case by (simp add: hole_cards_def)
next
  case (Cons p ps)
  from Cons.prems obtain a b d2 qs where *: "d = d2 @ [b, a]" "deal_holes ps d2 = Inr (qs, d')"
    "ps' = p\<lparr>holeCards := Some [a, b]\<rparr> # qs"
    by (rule deal_holes_ConsD)
  then show ?case
    using Cons.IH [OF *(2)] by (auto simp: hole_cards_def)
qed

lemma deal_holes_total: "2 * length ps \<le> length d \<Longrightarrow> \<exists>r. deal_holes ps d = Inr r"
proof (induction ps arbitrary: d)
  case Nil
  then show ?case by simp
next
  case (Cons p ps)
  then have "d \<noteq> []" "butlast d \<noteq> []" "2 * length ps \<le> length (butlast (butlast d))"
    by (auto simp flip: length_greater_0_conv)
  with Cons.IH [of "butlast (butlast d)"] show ?case
    by (auto simp: pop_def split: prod.splits)
qed

lemma top_live_layers:
  assumes "q \<in> set ps" "\<not> folded q" "\<forall>r\<in>set ps. bet r \<le> bet q" "0 < bet q"
  shows "live_layers (bettors_of ps) (bet_levels (bettors_of ps))"
proof -
  have "q \<in> set (bettors_of ps)" using assms(1,4) by (simp add: bettors_of_def)
  moreover have "l \<le> bet q" if "l \<in> set (bet_levels (bettors_of ps))" for l
    using that assms(3) by (auto simp: bet_levels_def bettors_of_def)
  ultimately show ?thesis
    using assms(2) by (auto simp: live_layers_def)
qed

lemma min_bettors:
  assumes "\<forall>p\<in>set ps. 0 \<le> bet p" "0 < b"
  shows "(\<Sum>q\<leftarrow>bettors_of ps. min (bet q) b - min (bet q) (min 0 b)) = (\<Sum>q\<leftarrow>ps. min (bet q) b)"
  using assms by (induction ps) (auto simp: bettors_of_def)

section \<open>Properties\<close>



end
