(* ===== verification/HandRun.thy ===== *)
theory HandRun
  imports StateMachine
begin

text \<open>
  The hand state machine over whole runs. \<open>machine_inv\<close> collects what holds between two
  actions: the pot is the bets plus the side pots, the 52 cards are split between hands, board and
  deck, the board fits the street, somebody is still in the hand. Every operation of theory
  \<open>StateMachine\<close> keeps it, so it holds in every state that \<open>machine_reach\<close> reaches from a
  new table. The lemmas are proved for any shuffler in the locale \<open>card_shuffler\<close> and used
  through its interpretation on the code's own generator.
\<close>

section \<open>New tables and runs\<close>

definition new_player :: "int \<Rightarrow> string \<Rightarrow> player" where
  "new_player startingStack i =
     \<lparr>pid = i, stack = startingStack, folded = False, holeCards = None, bet = 0, allIn = False\<rparr>"

definition new_machine :: "string list \<Rightarrow> int \<Rightarrow> machine" where
  "new_machine ids startingStack =
     \<lparr>mstate = \<lparr>players = map (new_player startingStack) ids, pot = 0, sidePots = [],
        communityCards = [], phase = WAIT_BLINDS, street = Preflop, currentBet = 0, deck = []\<rparr>,
      blindsPosted = []\<rparr>"

fun apply_all :: "shuffler \<Rightarrow> game_action list \<Rightarrow> machine \<Rightarrow> game_error + machine" where
  "apply_all shuf [] m = Inr m"
| "apply_all shuf (a # as) m = rbind (machine_apply shuf a m) (apply_all shuf as)"

inductive machine_reach :: "shuffler \<Rightarrow> machine \<Rightarrow> machine \<Rightarrow> bool" for shuf m0 where
  start: "machine_reach shuf m0 m0"
| step: "machine_reach shuf m0 m \<Longrightarrow> machine_apply shuf a m = Inr m' \<Longrightarrow> machine_reach shuf m0 m'"

lemma machine_reach_iff: "machine_reach shuf m0 m \<longleftrightarrow> (\<exists>as. apply_all shuf as m0 = Inr m)"
proof
  have snoc: "apply_all shuf (as @ [a]) m = rbind (apply_all shuf as m) (machine_apply shuf a)" for as a m
  proof (induction as arbitrary: m)
    case Nil
    then show ?case by (cases "machine_apply shuf a m") simp_all
  next
    case (Cons b as)
    then show ?case by (cases "machine_apply shuf b m") simp_all
  qed
  assume "machine_reach shuf m0 m"
  then show "\<exists>as. apply_all shuf as m0 = Inr m"
  proof induction
    case start
    then show ?case by (intro exI [of _ "[]"]) simp
  next
    case (step m a m')
    then obtain as where "apply_all shuf as m0 = Inr m" by blast
    then have "apply_all shuf (as @ [a]) m0 = Inr m'"
      using step.hyps by (simp add: snoc)
    then show ?case by blast
  qed
next
  have "machine_reach shuf m0 m \<Longrightarrow> apply_all shuf as m = Inr m' \<Longrightarrow> machine_reach shuf m0 m'" for as m m'
    by (induction as arbitrary: m)
      (auto simp: rbind_eq_Inr_iff intro: machine_reach.step)
  then show "\<exists>as. apply_all shuf as m0 = Inr m \<Longrightarrow> machine_reach shuf m0 m"
    using machine_reach.start by blast
qed

section \<open>The invariant\<close>

definition nonneg :: "player list \<Rightarrow> bool" where
  "nonneg ps \<longleftrightarrow> (\<forall>p\<in>set ps. 0 \<le> stack p \<and> 0 \<le> bet p)"

definition two_cards :: "player list \<Rightarrow> bool" where
  "two_cards ps \<longleftrightarrow> (\<forall>p\<in>set ps. case holeCards p of None \<Rightarrow> False | Some h \<Rightarrow> length h = 2)"

definition between_hands :: "game_state \<Rightarrow> bool" where
  "between_hands st \<longleftrightarrow> phase st = WAIT_BLINDS \<or> phase st = NEXT_HAND"

fun board_size :: "street \<Rightarrow> nat" where
  "board_size Preflop = 0"
| "board_size Flop = 3"
| "board_size Turn = 4"
| "board_size River = 5"
| "board_size Showdown = 5"

fun board_before :: "street \<Rightarrow> nat" where
  "board_before Preflop = 0"
| "board_before Flop = 0"
| "board_before Turn = 3"
| "board_before River = 4"
| "board_before Showdown = 5"

text \<open>The money: nothing negative, and the pot is what the bets and the side pots hold.\<close>

definition money_inv :: "game_state \<Rightarrow> bool" where
  "money_inv st \<longleftrightarrow> nonneg (players st) \<and> (\<forall>pt\<in>set (sidePots st). 0 < sp_amount pt)
     \<and> (phase st \<noteq> SETTLE \<longrightarrow> pot st = bets (players st) + side_total (sidePots st))
     \<and> (between_hands st \<longrightarrow> sidePots st = [])
     \<and> (phase st = SHOWDOWN \<longrightarrow> (\<forall>p\<in>set (players st). bet p = 0))
     \<and> (phase st = SETTLE \<longrightarrow> pot st = 0)"

text \<open>The cards: between hands all cards are gathered in, otherwise hands, board and deck are the
  52 cards, each once.\<close>

definition cards_inv :: "game_state \<Rightarrow> bool" where
  "cards_inv st \<longleftrightarrow>
     (if between_hands st
      then deck st = [] \<and> communityCards st = [] \<and> (\<forall>p\<in>set (players st). holeCards p = None)
      else two_cards (players st)
        \<and> mset (hole_cards (players st) @ communityCards st @ deck st) = mset standardDeck)"

definition street_inv :: "game_state \<Rightarrow> bool" where
  "street_inv st \<longleftrightarrow>
     (between_hands st \<longrightarrow> street st = Preflop)
     \<and> (phase st = DEAL \<or> phase st = BETTING_ROUND \<longrightarrow> street st \<noteq> Showdown)
     \<and> length (communityCards st)
       = (if phase st = DEAL then board_before (street st) else board_size (street st))"

text \<open>The players still in: all of them between hands, at least two while the hand is played.\<close>

definition live_inv :: "game_state \<Rightarrow> bool" where
  "live_inv st \<longleftrightarrow>
     (between_hands st \<longrightarrow> activePlayers st = players st)
     \<and> (if phase st = SHOWDOWN \<or> phase st = SETTLE then 1 \<le> length (activePlayers st)
        else 2 \<le> length (activePlayers st))"

definition state_inv :: "game_state \<Rightarrow> bool" where
  "state_inv st \<longleftrightarrow> money_inv st \<and> cards_inv st \<and> street_inv st \<and> live_inv st"

definition machine_inv :: "machine \<Rightarrow> bool" where
  "machine_inv m \<longleftrightarrow> state_inv (mstate m) \<and> 2 \<le> length (players (mstate m))
     \<and> (\<not> between_hands (mstate m) \<longrightarrow> blindsPosted m = [])"

lemmas inv_defs = money_inv_def cards_inv_def street_inv_def live_inv_def between_hands_def

lemma nonneg_bets: "nonneg ps \<Longrightarrow> \<forall>p\<in>set ps. 0 \<le> bet p"
  by (simp add: nonneg_def)

lemma new_machine_inv:
  assumes "2 \<le> length ids" "0 \<le> startingStack"
  shows "machine_inv (new_machine ids startingStack)"
proof -
  have "bets (map (new_player startingStack) ids) = 0"
    by (induction ids) (auto simp: new_player_def)
  moreover have "filter (\<lambda>p. \<not> folded p) (map (new_player startingStack) ids)
      = map (new_player startingStack) ids"
    by (auto simp: filter_id_conv new_player_def)
  ultimately show ?thesis
    using assms
    by (auto simp: machine_inv_def state_inv_def new_machine_def inv_defs nonneg_def activePlayers_def new_player_def)
qed

section \<open>Every operation keeps it\<close>

text \<open>What the invariants of cards, street and players depend on.\<close>

lemma no_holeCards: "(\<forall>p\<in>set ps. holeCards p = None) \<longleftrightarrow> (\<forall>h\<in>set (map holeCards ps). h = None)"
  by simp

lemma two_cards_map: "two_cards ps \<longleftrightarrow> (\<forall>h\<in>set (map holeCards ps). case h of None \<Rightarrow> False | Some h \<Rightarrow> length h = 2)"
  by (simp add: two_cards_def)

lemma hole_cards_map: "hole_cards ps = concat (map (case_option [] id) (map holeCards ps))"
  by (auto simp: hole_cards_def intro!: arg_cong [where f = concat] split: option.splits)

lemma cards_inv_cong:
  assumes "map holeCards (players st') = map holeCards (players st)" "deck st' = deck st"
    "communityCards st' = communityCards st" "between_hands st' = between_hands st"
  shows "cards_inv st' = cards_inv st"
  unfolding cards_inv_def two_cards_map hole_cards_map no_holeCards assms by (rule refl)

lemma length_active: "length (activePlayers st) = length (filter Not (map folded (players st)))"
  by (simp add: activePlayers_def filter_map comp_def)

lemma all_active: "activePlayers st = players st \<longleftrightarrow> True \<notin> set (map folded (players st))"
  by (auto simp: activePlayers_def filter_id_conv)

lemma live_inv_cong:
  assumes "map folded (players st') = map folded (players st)" "phase st' = phase st"
  shows "live_inv st' = live_inv st"
  unfolding live_inv_def length_active all_active between_hands_def assms by (rule refl)

lemma street_inv_cong:
  assumes "street st' = street st" "phase st' = phase st"
    "length (communityCards st') = length (communityCards st)"
  shows "street_inv st' = street_inv st"
  unfolding street_inv_def between_hands_def assms by (rule refl)

lemma nonneg_update:
  assumes "nonneg ps" "0 \<le> stack p" "0 \<le> bet p"
  shows "nonneg (ps[k := p])"
  using assms set_update_subset_insert [of ps k p] by (auto simp: nonneg_def)

lemma placeBet_frame:
  assumes "placeBet k amount st = Inr st'"
  shows "map holeCards (players st') = map holeCards (players st)"
    "map folded (players st') = map folded (players st)"
    "map pid (players st') = map pid (players st)"
    "deck st' = deck st" "communityCards st' = communityCards st" "phase st' = phase st"
    "street st' = street st" "sidePots st' = sidePots st"
  unfolding placeBet_InrD(3) [OF assms] by (simp_all add: map_update_same)

lemma placeBet_inv:
  assumes "placeBet k amount st = Inr st'" "k < length (players st)"
  shows "cards_inv st' = cards_inv st" "live_inv st' = live_inv st" "street_inv st' = street_inv st"
    "money_inv st \<Longrightarrow> phase st \<noteq> SHOWDOWN \<Longrightarrow> phase st \<noteq> SETTLE \<Longrightarrow> money_inv st'"
proof -
  note f = placeBet_frame [OF assms(1)]
  show "cards_inv st' = cards_inv st"
    by (rule cards_inv_cong) (simp_all add: f between_hands_def)
  show "live_inv st' = live_inv st" "street_inv st' = street_inv st"
    by (rule live_inv_cong street_inv_cong; simp add: f)+
  assume m: "money_inv st" "phase st \<noteq> SHOWDOWN" "phase st \<noteq> SETTLE"
  have nn: "nonneg (players st)" using m by (simp add: money_inv_def)
  have "0 \<le> bet (players st ! k)"
    using nonneg_bets [OF nn] assms(2) by simp
  then have "nonneg (players st')"
    using placeBet_InrD(1,2) [OF assms(1)] nn unfolding placeBet_InrD(3) [OF assms(1)]
    by (auto intro!: nonneg_update)
  then show "money_inv st'"
    using m placeBet_chips [OF assms] by (simp add: money_inv_def f between_hands_def)
qed

lemma finishBettingRound_pots_pos:
  assumes "\<forall>pt\<in>set (sidePots st). 0 < sp_amount pt"
  shows "\<forall>pt\<in>set (sidePots (finishBettingRound st)). 0 < sp_amount pt"
proof -
  have "\<forall>pt\<in>set (layer_pots ps qs previous levels). 0 < sp_amount pt" for ps qs previous levels
    by (induction levels arbitrary: previous) (auto simp: layer_pot_def Let_def)
  then show ?thesis
    using assms by (auto simp: finishBettingRound_def Let_def)
qed

lemma nonneg_finish: "nonneg (players st) \<Longrightarrow> nonneg (players (finishBettingRound st))"
  by (auto simp: nonneg_def finishBettingRound_def Let_def)

lemma finishBettingRound_inv:
  "cards_inv (finishBettingRound st) = cards_inv st" "live_inv (finishBettingRound st) = live_inv st"
  "street_inv (finishBettingRound st) = street_inv st"
  by (rule cards_inv_cong live_inv_cong street_inv_cong;
      simp add: finishBettingRound_frame between_hands_def)+

lemma bets_0: "\<forall>p\<in>set ps. bet p = 0 \<Longrightarrow> bets ps = 0"
  by (induction ps) auto

lemma finishBettingRound_money:
  assumes "money_inv st" "phase st = BETTING_ROUND" "ph \<noteq> WAIT_BLINDS" "ph \<noteq> NEXT_HAND" "ph \<noteq> SETTLE"
  shows "money_inv (finishBettingRound st\<lparr>phase := ph\<rparr>)"
    "money_inv (advanceStreet (finishBettingRound st)\<lparr>phase := ph\<rparr>)"
proof -
  have nn: "nonneg (players st)" using assms(1) by (simp add: money_inv_def)
  note b = finishBettingRound_bets [OF nonneg_bets [OF nn]]
  have "bets (players (finishBettingRound st)) = 0"
    using b by (intro bets_0) blast
  then show "money_inv (finishBettingRound st\<lparr>phase := ph\<rparr>)"
    "money_inv (advanceStreet (finishBettingRound st)\<lparr>phase := ph\<rparr>)"
    using assms b finishBettingRound_total [OF nonneg_bets [OF nn]] nonneg_finish [OF nn]
      finishBettingRound_pots_pos [of st]
    by (simp_all add: money_inv_def between_hands_def finishBettingRound_frame)
qed

lemma deal_holes_frame:
  assumes "deal_holes ps d = Inr (ps', d')"
  shows "map folded ps' = map folded ps" "map stack ps' = map stack ps" "map bet ps' = map bet ps"
    "map pid ps' = map pid ps" "length ps' = length ps"
proof -
  have *: "map (holeCards_update (\<lambda>_. None)) ps' = map (holeCards_update (\<lambda>_. None)) ps"
    using deal_holes_InrD [OF assms] by blast
  show "map folded ps' = map folded ps" "map stack ps' = map stack ps" "map bet ps' = map bet ps"
    "map pid ps' = map pid ps"
    by (rule map_frame [OF *]; simp)+
  then show "length ps' = length ps" by (metis length_map)
qed

lemma nonneg_map: "nonneg ps \<longleftrightarrow> (\<forall>x\<in>set (map stack ps). 0 \<le> x) \<and> (\<forall>x\<in>set (map bet ps). 0 \<le> x)"
  by (auto simp: nonneg_def)

text \<open>In a state that satisfies the invariant the deck is never rebuilt: it holds exactly the cards
  that are not in use.\<close>

lemma start_deal_InrE:
  assumes "start_deal shuf st = Inr st'"
  obtains ps d where "deal_holes (players st) (buildDeck shuf []) = Inr (ps, d)"
    "st' = st\<lparr>players := ps, deck := d, phase := DEAL\<rparr>"
  using assms by (auto simp: start_deal_def rbind_eq_Inr_iff)

lemma standardDeck_cards: "distinct standardDeck" "set standardDeck = {c. c < 52}" "length standardDeck = 52"
  by (auto simp: standardDeck_def)

lemma deck_partition:
  assumes "cards_inv st" "\<not> between_hands st"
  shows "distinct (hole_cards (players st) @ communityCards st @ deck st)"
    "set (hole_cards (players st) @ communityCards st @ deck st) = {c. c < 52}"
    "length (deck st) = 52 - (length (hole_cards (players st)) + length (communityCards st))"
    "length (hole_cards (players st)) + length (communityCards st) + length (deck st) = 52"
proof -
  have m: "mset (hole_cards (players st) @ communityCards st @ deck st) = mset standardDeck"
    using assms by (simp add: cards_inv_def)
  from m show "distinct (hole_cards (players st) @ communityCards st @ deck st)"
    by (rule mset_eq_imp_distinct_iff [THEN iffD2]) (rule standardDeck_cards)
  show "set (hole_cards (players st) @ communityCards st @ deck st) = {c. c < 52}"
    using mset_eq_setD [OF m] standardDeck_cards by simp
  show "length (hole_cards (players st)) + length (communityCards st) + length (deck st) = 52"
    using mset_eq_length [OF m] standardDeck_cards by simp
  then show "length (deck st) = 52 - (length (hole_cards (players st)) + length (communityCards st))"
    by simp
qed

lemma used_cards_set: "set (used_cards st) = set (communityCards st) \<union> set (hole_cards (players st))"
  by (simp add: used_cards_def)

lemma used_cards_count:
  assumes "cards_inv st" "\<not> between_hands st"
  shows "length (used_cards st) = length (hole_cards (players st)) + length (communityCards st)"
proof -
  note p = deck_partition [OF assms]
  have "length (used_cards st) = card (set (used_cards st))"
    by (metis distinct_card used_cards_def distinct_js_unique)
  also have "\<dots> = card (set (communityCards st @ hole_cards (players st)))"
    by (simp add: used_cards_set)
  also have "\<dots> = length (communityCards st @ hole_cards (players st))"
    using p(1) by (intro distinct_card) auto
  finally show ?thesis by simp
qed

lemma ensureDeckCapacity_noop:
  assumes "cards_inv st" "\<not> between_hands st"
  shows "ensureDeckCapacity shuf n st = (if length (deck st) < n then Inl InsufficientCards else Inr st)"
proof -
  note p = deck_partition [OF assms] and u = used_cards_count [OF assms]
  have "set (filter (\<lambda>c. c \<notin> set (used_cards st)) standardDeck) = set (deck st)"
    using p(1,2) by (auto simp: standardDeck_cards used_cards_set)
  then have "length (filter (\<lambda>c. c \<notin> set (used_cards st)) standardDeck) = length (deck st)"
    using p(1) standardDeck_cards(1) by (metis distinct_append distinct_card distinct_filter)
  then show ?thesis
    using p(4) u by (simp add: ensureDeckCapacity_def Let_def standardDeck_cards)
qed

lemma deal_loop_total: "n \<le> length (deck st) \<Longrightarrow> \<exists>st'. deal_loop n st = Inr st'"
proof (induction n arbitrary: st)
  case 0
  then show ?case by simp
next
  case (Suc n)
  then have "deck st \<noteq> []" by auto
  with Suc show ?case by (simp add: pop_def)
qed

lemma dealCommunity_inv:
  assumes "dealCommunity shuf n st = Inr st'" "cards_inv st" "\<not> between_hands st"
  shows "cards_inv st'" "players st' = players st" "pot st' = pot st" "sidePots st' = sidePots st"
    "street st' = street st" "phase st' = phase st"
    "length (communityCards st') = length (communityCards st) + n"
proof -
  have d: "deal_loop n st = Inr st'"
    using assms by (auto simp: dealCommunity_def ensureDeckCapacity_noop split: if_splits)
  note f = deal_loop_frame [OF d]
  show "players st' = players st" "pot st' = pot st" "sidePots st' = sidePots st"
    "street st' = street st" "phase st' = phase st"
    "length (communityCards st') = length (communityCards st) + n"
    by (fact f)+
  have "mset (communityCards st') + mset (deck st') = mset (communityCards st) + mset (deck st)"
    using arg_cong [OF f(7), of mset] by simp
  then show "cards_inv st'"
    using assms(2,3) by (simp add: cards_inv_def f between_hands_def add.assoc)
qed

context card_shuffler
begin

lemma start_deal_inv:
  assumes "start_deal shuf st = Inr st'" "between_hands st" "state_inv st"
  shows "state_inv st'" "phase st' = DEAL" "total_chips st' = total_chips st"
proof -
  have inv: "money_inv st" "cards_inv st" "street_inv st" "live_inv st"
    using assms(3) by (simp_all add: state_inv_def)
  obtain ps d where h: "deal_holes (players st) (buildDeck shuf []) = Inr (ps, d)"
    and st': "st' = st\<lparr>players := ps, deck := d, phase := DEAL\<rparr>"
    using assms(1) by (rule start_deal_InrE)
  note f = deal_holes_frame [OF h] and D = deal_holes_InrD [OF h]
  have "money_inv st'"
    using assms(2) inv(1) by (auto simp: st' money_inv_def nonneg_map f between_hands_def)
  have two: "two_cards ps"
    using D by (fastforce simp: two_cards_def)
  have "mset (hole_cards ps) + mset d = mset standardDeck"
    using D buildDeck_all by simp
  then have "cards_inv st'"
    using assms(2) inv(2) two by (simp add: st' cards_inv_def between_hands_def)
  moreover have "street_inv st'"
    using assms(2) inv(3) by (auto simp: st' street_inv_def between_hands_def)
  moreover have "live_inv st'"
  proof -
    have "map folded (players st') = map folded (players st)"
      by (simp add: st' f)
    then have "length (activePlayers st') = length (activePlayers st)"
      by (simp only: length_active)
    then show ?thesis
      using assms(2) inv(4) by (auto simp: st' live_inv_def between_hands_def)
  qed
  ultimately show "state_inv st'"
    using \<open>money_inv st'\<close> by (simp add: state_inv_def)
  show "phase st' = DEAL" "total_chips st' = total_chips st"
    by (simp_all add: st' total_chips_def f)
qed

end

lemma apply_deal_inv:
  assumes "apply_deal shuf a st = Inr st'" "phase st = DEAL" "state_inv st"
  shows "state_inv st'" "phase st' = BETTING_ROUND" "players st' = players st" "pot st' = pot st"
    "street st' = street st"
proof -
  have inv: "money_inv st" "cards_inv st" "street_inv st" "live_inv st"
    using assms(3) by (simp_all add: state_inv_def)
  have nb: "\<not> between_hands st" using assms(2) by (simp add: between_hands_def)
  obtain s1 where s1: "st' = s1\<lparr>phase := BETTING_ROUND\<rparr>" "street st = Preflop \<and> s1 = st
      \<or> (\<exists>n. dealCommunity shuf n st = Inr s1
           \<and> board_before (street st) + n = board_size (street st))"
    using assms(1,2) inv(3)
    by (auto simp: apply_deal_def rbind_eq_Inr_iff street_inv_def
        split: game_action.splits street.splits)
  have keep: "cards_inv s1 \<and> players s1 = players st \<and> pot s1 = pot st \<and> sidePots s1 = sidePots st
      \<and> street s1 = street st \<and> phase s1 = phase st
      \<and> length (communityCards s1) = board_size (street st)"
    using s1(2)
  proof (elim disjE exE conjE)
    assume "street st = Preflop" "s1 = st"
    then show ?thesis using assms(2) inv by (simp add: street_inv_def)
  next
    fix n assume d: "dealCommunity shuf n st = Inr s1"
      and n: "board_before (street st) + n = board_size (street st)"
    show ?thesis
      using dealCommunity_inv [OF d inv(2) nb] n assms(2) inv(3) by (simp add: street_inv_def)
  qed
  then have "money_inv st'" "street_inv st'" "live_inv st'" "cards_inv st'"
    using assms(2) inv by (auto simp: s1(1) inv_defs activePlayers_def)
  then show "state_inv st'" by (simp add: state_inv_def)
  show "phase st' = BETTING_ROUND" "players st' = players st" "pot st' = pot st"
    "street st' = street st"
    using keep by (simp_all add: s1(1))
qed

lemma close_if_alone_inv:
  assumes "phase st = BETTING_ROUND" "money_inv st" "cards_inv st" "street_inv st"
    and "1 \<le> length (activePlayers st)"
  shows "state_inv (close_if_alone st)
    \<and> (phase (close_if_alone st) = BETTING_ROUND \<or> phase (close_if_alone st) = SHOWDOWN)
    \<and> total_chips (close_if_alone st) = total_chips st"
proof -
  consider (two) "2 \<le> length (activePlayers st)"
    | (bets) "length (activePlayers st) \<le> 1" "list_ex (\<lambda>p. bet p > 0) (players st)"
    | (none) "length (activePlayers st) \<le> 1" "\<not> list_ex (\<lambda>p. bet p > 0) (players st)"
    by linarith
  then show ?thesis
  proof cases
    case two
    then have "close_if_alone st = st" "live_inv st"
      using assms(1) by (simp_all add: close_if_alone_def live_inv_def between_hands_def)
    then show ?thesis
      using assms by (simp add: state_inv_def)
  next
    case bets
    let ?f = "finishBettingRound st"
    have c: "close_if_alone st = ?f\<lparr>phase := SHOWDOWN\<rparr>"
      using assms(1) bets by (simp add: close_if_alone_def)
    have "money_inv (?f\<lparr>phase := SHOWDOWN\<rparr>)"
      using assms(2,1) by (rule finishBettingRound_money) simp_all
    moreover have f: "cards_inv ?f" "street_inv ?f" "length (activePlayers ?f) = length (activePlayers st)"
      using assms(3,4) by (simp_all only: finishBettingRound_inv length_active finishBettingRound_frame)
    then have "cards_inv (?f\<lparr>phase := SHOWDOWN\<rparr>)" "street_inv (?f\<lparr>phase := SHOWDOWN\<rparr>)"
      "live_inv (?f\<lparr>phase := SHOWDOWN\<rparr>)"
      using assms(1,5) by (simp_all add: inv_defs activePlayers_def finishBettingRound_frame)
    moreover have "total_chips (?f\<lparr>phase := SHOWDOWN\<rparr>) = total_chips st"
      using finishBettingRound_chips [of st] by (simp add: total_chips_def)
    ultimately show ?thesis
      by (simp add: c state_inv_def)
  next
    case none
    have c: "close_if_alone st = st\<lparr>currentBet := 0, phase := SHOWDOWN\<rparr>"
      using assms(1) none by (simp add: close_if_alone_def)
    have "\<forall>p\<in>set (players st). bet p = 0"
      using none(2) assms(2) by (force simp: list_ex_iff money_inv_def nonneg_def)
    then show ?thesis
      using assms by (simp add: c state_inv_def inv_defs activePlayers_def total_chips_def)
  qed
qed

text \<open>A betting action: everything but \<open>next\<close> stays in the round with at most one player fewer.\<close>

lemma fold_active:
  assumes "k < length ps" "\<not> folded (ps ! k)"
  shows "Suc (length (filter (\<lambda>p. \<not> folded p) (ps[k := (ps ! k)\<lparr>folded := True\<rparr>])))
         = length (filter (\<lambda>p. \<not> folded p) ps)"
  using assms
proof (induction ps arbitrary: k)
  case Nil
  then show ?case by simp
next
  case (Cons p ps)
  then show ?case by (cases k) auto
qed

lemma betting_cases:
  assumes "betting_action a st = Inr st'" "a \<noteq> Next"
  obtains (bet) k n where "k < length (players st)" "placeBet k n st = Inr st'"
    | (same) "st' = st"
    | (fold) k where "k < length (players st)"
        "st' = st\<lparr>players := (players st)[k := (players st ! k)\<lparr>folded := True\<rparr>]\<rparr>"
proof -
  have "(\<exists>k n. k < length (players st) \<and> placeBet k n st = Inr st') \<or> st' = st
    \<or> (\<exists>k < length (players st).
          st' = st\<lparr>players := (players st)[k := (players st ! k)\<lparr>folded := True\<rparr>]\<rparr>)"
    using assms by (cases a; clarsimp simp: betting_action_def rbind_eq_Inr_iff; blast dest: findPlayer_InrD)
  then show ?thesis
    using bet same fold by blast
qed

lemma refold: "folded p \<Longrightarrow> p\<lparr>folded := True\<rparr> = p" for p :: player
  by (cases p) simp

lemma betting_stays:
  assumes "betting_action a st = Inr st'" "a \<noteq> Next" "phase st = BETTING_ROUND" "state_inv st"
  shows "phase st' = BETTING_ROUND" "money_inv st'" "cards_inv st'" "street_inv st'"
    "length (activePlayers st) \<le> Suc (length (activePlayers st'))" "total_chips st' = total_chips st"
proof -
  have inv: "money_inv st" "cards_inv st" "street_inv st" "live_inv st"
    using assms(4) by (simp_all add: state_inv_def)
  from assms(1,2) have "phase st' = BETTING_ROUND \<and> money_inv st' \<and> cards_inv st' \<and> street_inv st'
     \<and> length (activePlayers st) \<le> Suc (length (activePlayers st')) \<and> total_chips st' = total_chips st"
  proof (cases rule: betting_cases)
    case (bet k n)
    note p = placeBet_frame [OF bet(2)] placeBet_inv [OF bet(2,1)] placeBet_chips [OF bet(2,1)]
    have "length (activePlayers st') = length (activePlayers st)"
      by (simp only: length_active p)
    then show ?thesis
      using p inv assms(3) by simp
  next
    case same
    then show ?thesis using inv assms(3) by simp
  next
    case (fold k)
    let ?ps = "(players st)[k := (players st ! k)\<lparr>folded := True\<rparr>]"
    have m: "map holeCards ?ps = map holeCards (players st)" "map bet ?ps = map bet (players st)"
      "map stack ?ps = map stack (players st)"
      by (simp_all add: map_update_same)
    have "length (activePlayers st) \<le> Suc (length (activePlayers st'))"
    proof (cases "folded (players st ! k)")
      case True
      then have "?ps = players st" by (simp add: refold)
      then show ?thesis by (simp add: fold(2) activePlayers_def)
    next
      case False
      then show ?thesis using fold_active [OF fold(1)] by (simp add: fold(2) activePlayers_def)
    qed
    moreover have "cards_inv st'" "street_inv st'"
      using cards_inv_cong [of st' st] street_inv_cong [of st' st] inv m
      by (simp_all add: fold(2) between_hands_def)
    moreover have "money_inv st'"
      using inv(1) m assms(3) by (simp add: fold(2) money_inv_def nonneg_map between_hands_def)
    ultimately show ?thesis
      using m assms(3) by (simp add: fold(2) total_chips_def)
  qed
  then show "phase st' = BETTING_ROUND" "money_inv st'" "cards_inv st'" "street_inv st'"
    "length (activePlayers st) \<le> Suc (length (activePlayers st'))" "total_chips st' = total_chips st"
    by simp_all
qed

lemma betting_next:
  assumes "phase st = BETTING_ROUND" "state_inv st" "betting_action Next st = Inr st'"
  shows "state_inv st'" "total_chips st' = total_chips st"
    "phase st' = (if street st = River then SHOWDOWN else DEAL)"
    "street_index (street st') = Suc (street_index (street st))"
proof -
  have inv: "money_inv st" "cards_inv st" "street_inv st" "live_inv st"
    using assms(2) by (simp_all add: state_inv_def)
  let ?f = "finishBettingRound st"
  define ph where "ph = (if street st = River then SHOWDOWN else DEAL)"
  have st': "st' = advanceStreet ?f\<lparr>phase := ph\<rparr>"
    using assms(3) by (simp add: betting_action_def Let_def finishBettingRound_frame ph_def
        split: if_splits)
  have str: "street st \<noteq> Showdown" "length (communityCards st) = board_size (street st)"
    using inv(3) assms(1) by (simp_all add: street_inv_def)
  have ns: "street st' = street_order ! (street_index (street st) + 1)"
    using str(1) by (cases "street st") (simp_all add: st' advanceStreet_def finishBettingRound_frame
        street_order_def)
  show "phase st' = (if street st = River then SHOWDOWN else DEAL)"
    by (simp add: st' ph_def)
  show "street_index (street st') = Suc (street_index (street st))"
    unfolding ns using str(1) by (cases "street st") (simp_all add: street_order_def)
  show "total_chips st' = total_chips st"
    using finishBettingRound_chips [of st] by (simp add: st' total_chips_def)
  have "money_inv st'"
    unfolding st' using inv(1) assms(1)
    by (rule finishBettingRound_money) (simp_all add: ph_def)
  moreover have "cards_inv st'"
    using finishBettingRound_inv(1) [of st] inv(2) assms(1)
    by (simp add: st' cards_inv_def between_hands_def finishBettingRound_frame ph_def)
  moreover have "street_inv st'"
    using str unfolding street_inv_def ns
    by (cases "street st")
      (simp_all add: st' ph_def between_hands_def finishBettingRound_frame street_order_def)
  moreover have "live_inv st'"
  proof -
    have "length (activePlayers st') = length (activePlayers ?f)"
      by (simp add: st' activePlayers_def)
    also have "\<dots> = length (activePlayers st)"
      by (simp only: length_active finishBettingRound_frame)
    finally show ?thesis
      using inv(4) assms(1) by (simp add: live_inv_def st' ph_def between_hands_def)
  qed
  ultimately show "state_inv st'" by (simp add: state_inv_def)
qed

lemma apply_betting_inv:
  assumes "apply_betting a st = Inr st'" "phase st = BETTING_ROUND" "state_inv st"
  shows "state_inv st' \<and> total_chips st' = total_chips st
    \<and> (phase st' = BETTING_ROUND \<or> phase st' = SHOWDOWN \<or> phase st' = DEAL)"
proof -
  obtain s1 where s1: "betting_action a st = Inr s1" "st' = close_if_alone s1"
    using assms(1) by (auto simp: apply_betting_def rbind_eq_Inr_iff)
  show ?thesis
  proof (cases "a = Next")
    case True
    note b = betting_next [OF assms(2,3) s1(1) [unfolded True]]
    then have "st' = s1"
      using s1(2) by (simp add: close_if_alone_def split: if_splits)
    then show ?thesis using b by auto
  next
    case False
    note b = betting_stays [OF s1(1) False assms(2,3)]
    have "2 \<le> length (activePlayers st)"
      using assms(2,3) by (simp add: state_inv_def live_inv_def)
    then have "1 \<le> length (activePlayers s1)"
      using b(5) by simp
    then show ?thesis
      using close_if_alone_inv [OF b(1-4)] b(6) s1(2) by auto
  qed
qed

lemma active_seats_players: "length (active_seats (players st)) = length (activePlayers st)"
proof -
  have "activePlayers st = filter (\<lambda>p. \<not> folded p) (map ((!) (players st)) [0..<length (players st)])"
    by (simp add: activePlayers_def map_nth)
  then show ?thesis
    by (simp only: filter_map active_seats_def comp_def length_map)
qed

lemma settlePots_frame:
  fixes st :: game_state
  shows "map holeCards (players (settlePots st)) = map holeCards (players st)"
    "map folded (players (settlePots st)) = map folded (players st)"
    "map pid (players (settlePots st)) = map pid (players st)"
    "map bet (players (settlePots st)) = map bet (players st)"
    "deck (settlePots st) = deck st" "communityCards (settlePots st) = communityCards st"
    "street (settlePots st) = street st" "phase (settlePots st) = phase st"
  by (rule map_frame [OF settlePots_only]; simp)+ (simp_all add: settlePots_def Let_def)

text \<open>A pot is orphaned when no player still in the hand is entitled to it.\<close>

definition orphaned :: "game_state \<Rightarrow> side_pot list" where
  "orphaned st = filter (\<lambda>pt. \<forall>p\<in>set (players st). folded p \<or> pid p \<notin> set (sp_players pt)) (sidePots st)"

lemma no_contenders:
  "contenders (active_seats (players st)) pt (players st) = []
   \<longleftrightarrow> (\<forall>p\<in>set (players st). folded p \<or> pid p \<notin> set (sp_players pt))"
  by (auto simp: contenders_def filter_empty_conv set_active_seats all_set_conv_all_nth)

lemma apply_showdown_inv:
  assumes "apply_showdown a st = Inr st'" "phase st = SHOWDOWN" "state_inv st"
  shows "state_inv st'" "phase st' = SETTLE" "pot st' = 0"
    "total_chips st' = total_chips st - side_total (orphaned st)"
proof -
  have inv: "money_inv st" "cards_inv st" "street_inv st" "live_inv st"
    using assms(3) by (simp_all add: state_inv_def)
  have st': "st' = settlePots st\<lparr>phase := SETTLE\<rparr>"
    using assms(1) by (simp add: apply_showdown_def split: game_action.splits)
  note f = settlePots_frame [of st]
  have act: "active_seats (players st) \<noteq> []"
    using inv(4) assms(2) active_seats_players [of st] by (auto simp: live_inv_def)
  have pos: "\<forall>pt\<in>set (sidePots st). 0 \<le> sp_amount pt"
    using inv(1) by (fastforce simp: money_inv_def)
  have pot: "pot st = side_total (sidePots st)" "0 \<le> side_total (sidePots st)"
    using inv(1) assms(2) bets_0 [of "players st"] pos
    by (auto simp: money_inv_def intro!: sum_list_nonneg)
  show "phase st' = SETTLE" "pot st' = 0"
    using act by (simp_all add: st' settlePots_def Let_def)
  have "solvent (players (settlePots st))" "sidePots (settlePots st) = []" "pot (settlePots st) = 0"
    using inv(1) settlePots_solvent [of st] pot pos act
    by (auto simp: money_inv_def nonneg_def solvent_def settlePots_def Let_def)
  then have "money_inv st'"
    using inv(1) assms(2) by (auto simp: st' money_inv_def nonneg_map f between_hands_def solvent_def)
  moreover have "cards_inv st'"
    using inv(2) cards_inv_cong [of st' st] assms(2) by (simp add: st' f between_hands_def)
  moreover have "street_inv st'"
    using inv(3) assms(2) by (simp add: street_inv_def st' f between_hands_def)
  moreover have "length (activePlayers st') = length (activePlayers st)"
    using active_seats_players [of st'] active_seats_players [of st] by (simp add: st')
  then have "live_inv st'"
    using inv(4) assms(2) by (simp add: live_inv_def st' between_hands_def)
  ultimately show "state_inv st'"
    by (simp add: state_inv_def)
  have "side_total (filter (\<lambda>pt. contenders (active_seats (players st)) pt (players st) \<noteq> [])
          (pots_to_settle st))
        = side_total (sidePots st) - side_total (orphaned st)"
  proof (cases "sidePots st = []")
    case True
    then show ?thesis using pot(1) by (simp add: pots_to_settle_def orphaned_def default_pot_def Let_def)
  next
    case False
    then show ?thesis
      using sum_list_filter_split [of sp_amount "\<lambda>pt. contenders (active_seats (players st)) pt (players st) \<noteq> []"
          "sidePots st"]
      by (simp add: pots_to_settle_def orphaned_def no_contenders)
  qed
  then show "total_chips st' = total_chips st - side_total (orphaned st)"
    using chips_settlePots [OF act] pot(1) \<open>pot st' = 0\<close> by (simp add: total_chips_def st')
qed

lemma apply_settle_inv:
  assumes "apply_settle a m = Inr m'" "phase (mstate m) = SETTLE" "state_inv (mstate m)"
    "length (players (mstate m)) \<ge> 2"
  shows "machine_inv m'" "phase (mstate m') = NEXT_HAND"
    "total_chips (mstate m') = total_chips (mstate m) - pot (mstate m)"
proof -
  let ?st = "mstate m"
  have m': "m' = \<lparr>mstate = ?st\<lparr>players := map reset_player (players ?st), pot := 0, sidePots := [],
      currentBet := 0, communityCards := [], deck := [], street := Preflop, phase := NEXT_HAND\<rparr>,
      blindsPosted = []\<rparr>"
    using assms(1) by (simp add: apply_settle_def split: game_action.splits)
  have st: "map stack (map reset_player (players ?st)) = map stack (players ?st)"
    by (simp add: reset_player_def)
  have "bets (map reset_player (players ?st)) = 0"
    by (intro bets_0) (simp add: reset_player_def)
  moreover have "filter (\<lambda>p. \<not> folded p) (map reset_player (players ?st)) = map reset_player (players ?st)"
    by (auto simp: filter_id_conv reset_player_def)
  moreover have "nonneg (map reset_player (players ?st))"
    using assms(3) by (auto simp: state_inv_def money_inv_def nonneg_def reset_player_def)
  ultimately show "machine_inv m'"
    using assms(4)
    by (simp add: m' machine_inv_def state_inv_def inv_defs activePlayers_def)
      (simp add: reset_player_def)
  show "phase (mstate m') = NEXT_HAND"
    "total_chips (mstate m') = total_chips (mstate m) - pot (mstate m)"
    by (simp_all add: m' total_chips_def comp_def reset_player_def)
qed

section \<open>Runs\<close>

lemma apply_blinds_cases:
  assumes "apply_blinds shuf a m = Inr m'"
  obtains k n st where "k < length (players (mstate m))" "placeBet k n (mstate m) = Inr st"
    "(m' = \<lparr>mstate = st, blindsPosted = blindsPosted m'\<rparr>)
     \<or> (start_deal shuf st = Inr (mstate m') \<and> blindsPosted m' = [])"
proof (cases a)
  case (PostBlind i n)
  then obtain k st where "findPlayer i (mstate m) = Inr k" "placeBet k n (mstate m) = Inr st"
    "(m' = \<lparr>mstate = st, blindsPosted = blindsPosted m'\<rparr>)
     \<or> (start_deal shuf st = Inr (mstate m') \<and> blindsPosted m' = [])"
    using assms by (auto simp: apply_blinds_def rbind_eq_Inr_iff Let_def split: if_splits)
  then show ?thesis using that findPlayer_InrD by blast
qed (use assms in \<open>simp_all add: apply_blinds_def\<close>)

lemma close_if_alone_pids: "map pid (players (close_if_alone st)) = map pid (players st)"
  using finishBettingRound_frame(2) [of st] by (simp add: close_if_alone_def)

lemma betting_pids:
  assumes "betting_action a st = Inr st'"
  shows "map pid (players st') = map pid (players st)"
proof (cases "a = Next")
  case True
  then show ?thesis
    using assms finishBettingRound_frame(2) [of st]
    by (auto simp: betting_action_def Let_def split: if_splits)
next
  case False
  from assms False show ?thesis
    by (cases rule: betting_cases) (simp_all add: placeBet_frame map_update_same)
qed

lemma dealCommunity_players:
  assumes "dealCommunity shuf n st = Inr st'"
  shows "players st' = players st" "sidePots st' = sidePots st"
proof -
  obtain s1 where "ensureDeckCapacity shuf n st = Inr s1" "deal_loop n s1 = Inr st'"
    using assms by (auto simp: dealCommunity_def rbind_eq_Inr_iff split: if_splits)
  moreover from this(1) have "players s1 = players st" "sidePots s1 = sidePots st"
    by (auto simp: ensureDeckCapacity_def Let_def split: if_splits)
  ultimately show "players st' = players st" "sidePots st' = sidePots st"
    using deal_loop_frame(1,3) by metis+
qed

lemma machine_apply_pids:
  assumes "machine_apply shuf a m = Inr m'"
  shows "map pid (players (mstate m')) = map pid (players (mstate m))"
proof -
  have blinds: "map pid (players (mstate m')) = map pid (players (mstate m))"
    if b: "apply_blinds shuf a m = Inr m'"
  proof -
    obtain k n st where p: "placeBet k n (mstate m) = Inr st"
      "m' = \<lparr>mstate = st, blindsPosted = blindsPosted m'\<rparr> \<or> start_deal shuf st = Inr (mstate m')"
      using apply_blinds_cases [OF b] by metis
    from p(2) have "map pid (players (mstate m')) = map pid (players st)"
    proof
      assume "m' = \<lparr>mstate = st, blindsPosted = blindsPosted m'\<rparr>"
      then show ?thesis by (metis machine.select_convs(1))
    next
      assume "start_deal shuf st = Inr (mstate m')"
      then obtain ps d where "deal_holes (players st) (buildDeck shuf []) = Inr (ps, d)"
        "mstate m' = st\<lparr>players := ps, deck := d, phase := DEAL\<rparr>"
        by (rule start_deal_InrE)
      then show ?thesis using deal_holes_frame(4) by simp
    qed
    then show ?thesis using placeBet_frame [OF p(1)] by simp
  qed
  show ?thesis
  proof (cases "phase (mstate m)")
    case DEAL
    then show ?thesis
      using assms by (auto simp: machine_apply_def apply_deal_def rbind_eq_Inr_iff
          dest!: dealCommunity_players(1) split: game_action.splits street.splits)
  next
    case BETTING_ROUND
    then show ?thesis
      using assms by (auto simp: machine_apply_def apply_betting_def rbind_eq_Inr_iff
          close_if_alone_pids betting_pids)
  next
    case SHOWDOWN
    then show ?thesis
      using assms by (auto simp: machine_apply_def apply_showdown_def settlePots_frame
          split: game_action.splits)
  next
    case SETTLE
    then show ?thesis
      using assms by (auto simp: machine_apply_def apply_settle_def reset_player_def
          split: game_action.splits)
  qed (use assms blinds in \<open>simp_all add: machine_apply_def\<close>)
qed

context card_shuffler
begin

lemma machine_apply_inv:
  assumes "machine_apply shuf a m = Inr m'" "machine_inv m"
  shows "machine_inv m'"
    "total_chips (mstate m') = total_chips (mstate m)
       - (if phase (mstate m) = SHOWDOWN then side_total (orphaned (mstate m)) else 0)"
proof -
  let ?st = "mstate m" and ?st' = "mstate m'"
  have inv: "state_inv ?st" "2 \<le> length (players ?st)"
    and none: "\<not> between_hands ?st \<Longrightarrow> blindsPosted m = []"
    using assms(2) by (auto simp: machine_inv_def)
  have len: "2 \<le> length (players ?st')"
    using machine_apply_pids [OF assms(1)] inv(2) by (metis length_map)
  have blinds: "machine_inv m' \<and> total_chips ?st' = total_chips ?st"
    if b: "apply_blinds shuf a m = Inr m'" and nb: "between_hands ?st"
  proof -
    obtain k n st where p: "k < length (players ?st)" "placeBet k n ?st = Inr st"
      "(m' = \<lparr>mstate = st, blindsPosted = blindsPosted m'\<rparr>)
       \<or> (start_deal shuf st = Inr ?st' \<and> blindsPosted m' = [])"
      using b by (rule apply_blinds_cases)
    note f = placeBet_frame [OF p(2)]
    have st: "state_inv st" "between_hands st"
      using placeBet_inv [OF p(2,1)] inv(1) nb by (auto simp: state_inv_def between_hands_def f)
    from p(3) show ?thesis
    proof
      assume "m' = \<lparr>mstate = st, blindsPosted = blindsPosted m'\<rparr>"
      then have "?st' = st" by (metis machine.select_convs(1))
      then show ?thesis
        using st len placeBet_chips(1) [OF p(2,1)] by (simp add: machine_inv_def)
    next
      assume d: "start_deal shuf st = Inr ?st' \<and> blindsPosted m' = []"
      show ?thesis
        using start_deal_inv [OF conjunct1 [OF d] st(2,1)] d len placeBet_chips(1) [OF p(2,1)]
        by (simp add: machine_inv_def)
    qed
  qed
  have "machine_inv m' \<and> total_chips ?st' = total_chips ?st
       - (if phase ?st = SHOWDOWN then side_total (orphaned ?st) else 0)"
  proof (cases "phase ?st")
    case DEAL
    then obtain st' where s: "apply_deal shuf a ?st = Inr st'" "m' = m\<lparr>mstate := st'\<rparr>"
      using assms(1) by (auto simp: machine_apply_def rbind_eq_Inr_iff)
    then show ?thesis
      using apply_deal_inv [OF s(1) DEAL inv(1)] len none DEAL
      by (simp add: machine_inv_def total_chips_def between_hands_def)
  next
    case BETTING_ROUND
    then obtain st' where s: "apply_betting a ?st = Inr st'" "m' = m\<lparr>mstate := st'\<rparr>"
      using assms(1) by (auto simp: machine_apply_def rbind_eq_Inr_iff)
    then show ?thesis
      using apply_betting_inv [OF s(1) BETTING_ROUND inv(1)] len none BETTING_ROUND
      by (simp add: machine_inv_def between_hands_def)
  next
    case SHOWDOWN
    then obtain st' where s: "apply_showdown a ?st = Inr st'" "m' = m\<lparr>mstate := st'\<rparr>"
      using assms(1) by (auto simp: machine_apply_def rbind_eq_Inr_iff)
    then show ?thesis
      using apply_showdown_inv [OF s(1) SHOWDOWN inv(1)] len none SHOWDOWN
      by (simp add: machine_inv_def between_hands_def)
  next
    case SETTLE
    then have s: "apply_settle a m = Inr m'"
      using assms(1) by (simp add: machine_apply_def)
    have "pot ?st = 0" using inv(1) SETTLE by (simp add: state_inv_def money_inv_def)
    then show ?thesis
      using apply_settle_inv [OF s SETTLE inv] SETTLE by simp
  qed (use assms(1) blinds in \<open>simp_all add: machine_apply_def between_hands_def\<close>)
  then show "machine_inv m'"
    "total_chips ?st' = total_chips ?st
       - (if phase ?st = SHOWDOWN then side_total (orphaned ?st) else 0)"
    by simp_all
qed

lemma machine_reach_inv:
  "machine_reach shuf m0 m \<Longrightarrow> machine_inv m0 \<Longrightarrow> machine_inv m"
  by (induction rule: machine_reach.induct) (auto dest: machine_apply_inv)

end

section \<open>Progress\<close>

text \<open>The errors a player's request can cause.\<close>

fun player_error :: "game_error \<Rightarrow> bool" where
  "player_error InvalidActionForPhase = True"
| "player_error (UnknownPlayer i) = True"
| "player_error AmountMustBePositive = True"
| "player_error BetExceedsStack = True"
| "player_error _ = False"

lemma findPlayer_error: "findPlayer i st = Inl e \<Longrightarrow> player_error e"
  by (auto simp: findPlayer_def or_fail_def split: option.splits)

lemma placeBet_error: "placeBet k n st = Inl e \<Longrightarrow> player_error e"
  by (auto simp: placeBet_def Let_def split: if_splits)

lemmas request_errors = findPlayer_error placeBet_error

text \<open>The number of \<open>next\<close> actions that takes a hand in play to settlement.\<close>

definition nexts_left :: "game_state \<Rightarrow> nat" where
  "nexts_left st =
     (case phase st of
        DEAL \<Rightarrow> 9 - 2 * street_index (street st)
      | BETTING_ROUND \<Rightarrow> 8 - 2 * street_index (street st)
      | SHOWDOWN \<Rightarrow> 1
      | _ \<Rightarrow> 0)"

definition in_play :: "game_state \<Rightarrow> bool" where
  "in_play st \<longleftrightarrow> \<not> between_hands st \<and> phase st \<noteq> SETTLE"

lemma hole_cards_length: "two_cards ps \<Longrightarrow> length (hole_cards ps) = 2 * length ps"
  by (induction ps) (auto simp: two_cards_def hole_cards_def split: option.splits)

lemma dealCommunity_total:
  assumes "cards_inv st" "street_inv st" "phase st = DEAL" "2 * length (players st) + 5 \<le> 52"
    and "board_before (street st) + n = board_size (street st)" "street st \<noteq> Preflop"
  shows "\<exists>st'. dealCommunity shuf n st = Inr st'"
proof -
  have nb: "\<not> between_hands st" using assms(3) by (simp add: between_hands_def)
  have "length (hole_cards (players st)) = 2 * length (players st)"
    using assms(1) nb by (simp add: cards_inv_def hole_cards_length)
  moreover have "length (communityCards st) = board_before (street st)"
    "board_before (street st) + n \<le> 5" "expectedCommunityCountBeforeDeal st = board_before (street st)"
    using assms(2,3,5,6)
    by (cases "street st"; simp add: street_inv_def expectedCommunityCountBeforeDeal_def)+
  ultimately have "n \<le> length (deck st)"
    using deck_partition(4) [OF assms(1) nb] assms(4) by simp
  then show ?thesis
    using deal_loop_total [of n st] \<open>length (communityCards st) = _\<close>
      \<open>expectedCommunityCountBeforeDeal st = _\<close>
    by (simp add: dealCommunity_def ensureDeckCapacity_noop [OF assms(1) nb])
qed

lemma apply_deal_total:
  assumes "state_inv st" "phase st = DEAL" "2 * length (players st) + 5 \<le> 52"
  shows "\<exists>st'. apply_deal shuf Next st = Inr st'"
proof -
  have inv: "cards_inv st" "street_inv st" "street st \<noteq> Showdown"
    using assms by (auto simp: state_inv_def street_inv_def)
  note d = dealCommunity_total [OF inv(1,2) assms(2,3), of _ shuf]
  show ?thesis
    using d [of 3] d [of 1] inv(3)
    by (cases "street st") (auto simp: apply_deal_def)
qed

context card_shuffler
begin

lemma next_step:
  assumes "machine_inv m" "in_play (mstate m)" "2 * length (players (mstate m)) + 5 \<le> 52"
  shows "\<exists>m'. machine_apply shuf Next m = Inr m'
     \<and> Suc (nexts_left (mstate m')) = nexts_left (mstate m)
     \<and> (phase (mstate m') = SETTLE \<or> in_play (mstate m'))"
proof -
  let ?st = "mstate m"
  have inv: "state_inv ?st" using assms(1) by (simp add: machine_inv_def)
  have str: "phase ?st = DEAL \<or> phase ?st = BETTING_ROUND \<Longrightarrow> street_index (street ?st) < 4"
    using inv by (cases "street ?st") (auto simp: state_inv_def street_inv_def)
  show ?thesis
  proof (cases "phase ?st")
    case DEAL
    obtain st' where s: "apply_deal shuf Next ?st = Inr st'"
      using apply_deal_total [OF inv DEAL assms(3)] by blast
    then show ?thesis
      using apply_deal_inv [OF s DEAL inv] DEAL str
      by (simp add: machine_apply_def nexts_left_def in_play_def between_hands_def)
  next
    case BETTING_ROUND
    obtain s1 where s: "betting_action Next ?st = Inr s1"
      by (cases "street (finishBettingRound ?st) = River") (simp_all add: betting_action_def Let_def)
    note b = betting_next [OF BETTING_ROUND inv s]
    then have "machine_apply shuf Next m = Inr (m\<lparr>mstate := s1\<rparr>)"
      using s BETTING_ROUND by (simp add: machine_apply_def apply_betting_def close_if_alone_def)
    then show ?thesis
      using b(3,4) BETTING_ROUND str
      by (cases "street ?st") (simp_all add: nexts_left_def in_play_def between_hands_def)
  next
    case SHOWDOWN
    then show ?thesis
      by (simp add: machine_apply_def apply_showdown_def nexts_left_def)
  qed (use assms(2) in \<open>simp_all add: in_play_def between_hands_def\<close>)
qed

lemma nexts_settle:
  assumes "machine_inv m" "in_play (mstate m)" "2 * length (players (mstate m)) + 5 \<le> 52"
  shows "\<exists>m'. apply_all shuf (replicate (nexts_left (mstate m)) Next) m = Inr m'
     \<and> phase (mstate m') = SETTLE"
  using assms
proof (induction "nexts_left (mstate m)" arbitrary: m)
  case 0
  then show ?case using next_step [OF 0(2-4)] by force
next
  case (Suc n)
  obtain m' where m': "machine_apply shuf Next m = Inr m'" "Suc (nexts_left (mstate m')) = nexts_left (mstate m)"
    "phase (mstate m') = SETTLE \<or> in_play (mstate m')"
    using next_step [OF Suc.prems] by blast
  have n: "nexts_left (mstate m) = Suc n" "nexts_left (mstate m') = n"
    using m'(2) Suc.hyps(2) by simp_all
  show ?case
  proof (cases "phase (mstate m') = SETTLE")
    case True
    then have "n = 0" using n by (simp add: nexts_left_def)
    then show ?thesis using m'(1) n True by simp
  next
    case False
    have "length (players (mstate m')) = length (players (mstate m))"
      using machine_apply_pids [OF m'(1)] by (metis length_map)
    then show ?thesis
      using Suc.hyps(1) [of m'] machine_apply_inv(1) [OF m'(1) Suc.prems(1)] m' n False Suc.prems(3)
      by simp
  qed
qed

lemma blinds_total:
  assumes "2 * length (players st) \<le> 52"
  shows "\<exists>st'. start_deal shuf st = Inr st'"
proof -
  have "length (buildDeck shuf []) = 52"
    using buildDeck_all mset_eq_length standardDeck_cards(3) by metis
  then show ?thesis
    using deal_holes_total [of "players st" "buildDeck shuf []"] assms
    by (auto simp: start_deal_def)
qed

lemma machine_apply_errors:
  assumes "machine_apply shuf a m = Inl e" "machine_inv m" "2 * length (players (mstate m)) + 5 \<le> 52"
  shows "player_error e"
proof -
  let ?st = "mstate m"
  have inv: "state_inv ?st" using assms(2) by (simp add: machine_inv_def)
  have blinds: "player_error e" if b: "apply_blinds shuf a m = Inl e"
  proof (cases a)
    case (PostBlind i n)
    have "start_deal shuf st \<noteq> Inl e" if "placeBet k n ?st = Inr st" for k st
    proof -
      have "length (players st) = length (players ?st)"
        using placeBet_frame(3) [OF that] by (metis length_map)
      then show ?thesis using blinds_total [of st] assms(3) by auto
    qed
    then show ?thesis
      using b PostBlind
      by (auto simp: apply_blinds_def rbind_eq_Inl_iff Let_def intro: request_errors split: if_splits)
  qed (use b in \<open>simp_all add: apply_blinds_def\<close>)
  have deal: "player_error e" if d: "apply_deal shuf a ?st = Inl e" "phase ?st = DEAL"
    using apply_deal_total [OF inv d(2) assms(3), of shuf] d(1)
    by (cases a) (auto simp: apply_deal_def)
  have bet: "player_error e" if "apply_betting a ?st = Inl e"
    using that
    by (cases a) (auto simp: apply_betting_def betting_action_def rbind_eq_Inl_iff Let_def
        intro: request_errors split: if_splits)
  show ?thesis
    using assms(1) blinds deal bet
    by (auto simp: machine_apply_def rbind_eq_Inl_iff apply_showdown_def apply_settle_def
        split: hand_phase.splits game_action.splits)
qed

end

section \<open>Runs without folds\<close>

text \<open>As long as nobody folds, every side pot lists a player of the table.\<close>

definition full_table :: "game_state \<Rightarrow> bool" where
  "full_table st \<longleftrightarrow> True \<notin> set (map folded (players st))
     \<and> (\<forall>pt\<in>set (sidePots st). set (map pid (players st)) \<inter> set (sp_players pt) \<noteq> {})"

lemma full_table_cong:
  assumes "map folded (players st') = map folded (players st)" "map pid (players st') = map pid (players st)"
    "sidePots st' = sidePots st"
  shows "full_table st' = full_table st"
  unfolding full_table_def assms by (rule refl)

lemma full_table_orphaned: "full_table st \<Longrightarrow> orphaned st = []"
  by (fastforce simp: full_table_def orphaned_def filter_empty_conv)

lemma layer_pots_listed:
  assumes "\<forall>p\<in>set ps. \<not> folded p" "set qs \<subseteq> set ps" "pt \<in> set (layer_pots ps qs previous levels)"
  shows "pid ` set ps \<inter> set (sp_players pt) \<noteq> {}"
  using assms(3)
proof (induction levels arbitrary: previous)
  case Nil
  then show ?case by simp
next
  case (Cons level levels)
  have "pid ` set ps \<inter> set (sp_players pt) \<noteq> {}" if "pt \<in> set (layer_pot ps qs previous level)"
  proof -
    from that have ne: "filter (\<lambda>p. level \<le> bet p) qs \<noteq> []"
      by (auto simp: layer_pot_def Let_def split: if_splits)
    moreover have "filter (\<lambda>p. \<not> folded p) (filter (\<lambda>p. level \<le> bet p) qs) = filter (\<lambda>p. level \<le> bet p) qs"
      using assms(1,2) by (intro filter_True) auto
    ultimately have "sp_players pt = map pid (filter (\<lambda>p. level \<le> bet p) qs)"
      using that by (auto simp: layer_pot_def Let_def split: if_splits)
    then show ?thesis
      using ne assms(2) by (cases "filter (\<lambda>p. level \<le> bet p) qs") (auto simp: filter_eq_Cons_iff)
  qed
  then show ?case using Cons by auto
qed

lemma full_table_finish: "full_table st \<Longrightarrow> full_table (finishBettingRound st)"
  using layer_pots_listed [of "players st" "bettors_of (players st)"]
  by (auto simp: full_table_def finishBettingRound_def Let_def bettors_of_def image_image)

lemma full_table_betting:
  assumes "betting_action a st = Inr st'" "full_table st" "\<forall>i. a \<noteq> Fold i"
  shows "full_table st'"
proof (cases "a = Next")
  case True
  then have "full_table st' = full_table (finishBettingRound st)"
    using assms(1) by (auto simp: betting_action_def Let_def full_table_def split: if_splits)
  then show ?thesis using assms(2) full_table_finish by simp
next
  case False
  have "(\<exists>k n. placeBet k n st = Inr st') \<or> st' = st"
    using assms(1,3) False by (cases a) (auto simp: betting_action_def rbind_eq_Inr_iff)
  then show ?thesis
    using assms(2) by (auto simp: full_table_cong [OF placeBet_frame(2,3,8)])
qed

lemma full_table_close: "full_table st \<Longrightarrow> full_table (close_if_alone st)"
  using full_table_finish [of st] by (auto simp: close_if_alone_def full_table_def)

lemma full_table_deal:
  assumes "apply_deal shuf a st = Inr st'" "full_table st"
  shows "full_table st'"
proof -
  obtain s1 where "st' = s1\<lparr>phase := BETTING_ROUND\<rparr>"
    "s1 = st \<or> (\<exists>n. dealCommunity shuf n st = Inr s1)"
    using assms(1) by (auto simp: apply_deal_def rbind_eq_Inr_iff split: game_action.splits street.splits)
  moreover from this(2) have "players s1 = players st" "sidePots s1 = sidePots st"
    using dealCommunity_players by blast+
  ultimately show ?thesis
    using assms(2) by (simp add: full_table_def)
qed

lemma machine_apply_full:
  assumes "machine_apply shuf a m = Inr m'" "full_table (mstate m)" "\<forall>i. a \<noteq> Fold i"
  shows "full_table (mstate m')"
proof -
  have blinds: "full_table (mstate m')" if b: "apply_blinds shuf a m = Inr m'"
  proof -
    obtain k n st where p: "placeBet k n (mstate m) = Inr st"
      "m' = \<lparr>mstate = st, blindsPosted = blindsPosted m'\<rparr> \<or> start_deal shuf st = Inr (mstate m')"
      using apply_blinds_cases [OF b] by metis
    have st: "full_table st"
      using assms(2) by (simp add: full_table_cong [OF placeBet_frame(2,3,8) [OF p(1)]])
    from p(2) show ?thesis
    proof
      assume "m' = \<lparr>mstate = st, blindsPosted = blindsPosted m'\<rparr>"
      then show ?thesis using st by (metis machine.select_convs(1))
    next
      assume "start_deal shuf st = Inr (mstate m')"
      then obtain ps d where d: "deal_holes (players st) (buildDeck shuf []) = Inr (ps, d)"
        "mstate m' = st\<lparr>players := ps, deck := d, phase := DEAL\<rparr>"
        by (rule start_deal_InrE)
      show ?thesis
        using st deal_holes_frame(1,4) [OF d(1)] by (simp add: full_table_def d(2) flip: set_map)
    qed
  qed
  show ?thesis
  proof (cases "phase (mstate m)")
    case SHOWDOWN
    then have "mstate m' = settlePots (mstate m)\<lparr>phase := SETTLE\<rparr>"
      using assms(1) by (auto simp: machine_apply_def apply_showdown_def split: game_action.splits)
    moreover have "sidePots (settlePots (mstate m)) = [] \<or> settlePots (mstate m) = mstate m"
      by (simp add: settlePots_def Let_def)
    ultimately show ?thesis
      using assms(2) settlePots_frame(2) [of "mstate m"]
      by (auto simp: full_table_def simp flip: set_map)
  next
    case BETTING_ROUND
    then obtain s1 where "betting_action a (mstate m) = Inr s1" "mstate m' = close_if_alone s1"
      using assms(1) by (auto simp: machine_apply_def apply_betting_def rbind_eq_Inr_iff)
    then show ?thesis
      using full_table_betting [OF _ assms(2,3)] full_table_close by simp
  next
    case SETTLE
    then show ?thesis
      using assms(1) by (auto simp: machine_apply_def apply_settle_def full_table_def reset_player_def
          split: game_action.splits)
  qed (use assms blinds full_table_deal in \<open>auto simp: machine_apply_def rbind_eq_Inr_iff\<close>)
qed

lemma new_machine_chips: "total_chips (mstate (new_machine ids s)) = int (length ids) * s"
  by (induction ids) (simp_all add: new_machine_def total_chips_def new_player_def algebra_simps)

lemma new_machine_full: "full_table (mstate (new_machine ids s))"
  by (simp add: full_table_def new_machine_def new_player_def)

lemma orphaned_nonneg: "money_inv st \<Longrightarrow> 0 \<le> side_total (orphaned st)"
  by (rule sum_list_nonneg) (fastforce simp: orphaned_def money_inv_def)

lemma money_nonneg: "money_inv st \<Longrightarrow> 0 \<le> total_chips st"
proof -
  assume m: "money_inv st"
  have "0 \<le> side_total (sidePots st)" "0 \<le> bets (players st)" "0 \<le> chips (players st)"
    using m by (auto intro!: sum_list_nonneg simp: money_inv_def nonneg_def less_imp_le)
  then show ?thesis
    using m by (cases "phase st = SETTLE") (auto simp: total_chips_def money_inv_def)
qed

context card_shuffler
begin

lemma run_inv:
  assumes "apply_all shuf as (new_machine ids s) = Inr m" "2 \<le> length ids" "0 \<le> s"
  shows "machine_inv m"
  using machine_reach_inv [OF _ new_machine_inv [OF assms(2,3)]] assms(1) machine_reach_iff by blast

lemma run_pids:
  "apply_all shuf as m = Inr m' \<Longrightarrow> map pid (players (mstate m')) = map pid (players (mstate m))"
  by (induction as arbitrary: m) (auto simp: rbind_eq_Inr_iff dest: machine_apply_pids)

lemma run_length:
  assumes "apply_all shuf as (new_machine ids s) = Inr m"
  shows "length (players (mstate m)) = length ids"
  using arg_cong [OF run_pids [OF assms], of length] by (simp add: new_machine_def)

lemma run_chips:
  assumes "apply_all shuf as m = Inr m'" "machine_inv m"
  shows "total_chips (mstate m') \<le> total_chips (mstate m)"
    "full_table (mstate m) \<Longrightarrow> \<forall>i. Fold i \<notin> set as \<Longrightarrow> total_chips (mstate m') = total_chips (mstate m)"
  using assms
proof (induction as arbitrary: m)
  case Nil
  { case 1 then show ?case by simp }
  { case 2 then show ?case by simp }
next
  case (Cons a as)
  { case 1
    then obtain m1 where m1: "machine_apply shuf a m = Inr m1" "apply_all shuf as m1 = Inr m'"
      by (auto simp: rbind_eq_Inr_iff)
    note inv = machine_apply_inv [OF m1(1) 1(2)]
    have "total_chips (mstate m1) \<le> total_chips (mstate m)"
      using inv(2) orphaned_nonneg [of "mstate m"] 1(2) by (auto simp: machine_inv_def state_inv_def)
    then show ?case using Cons.IH(1) [OF m1(2) inv(1)] by simp }
  { case 2
    then obtain m1 where m1: "machine_apply shuf a m = Inr m1" "apply_all shuf as m1 = Inr m'"
      by (auto simp: rbind_eq_Inr_iff)
    note inv = machine_apply_inv [OF m1(1) 2(4)]
    have "\<forall>i. a \<noteq> Fold i" "\<forall>i. Fold i \<notin> set as"
      using 2(2) by auto
    moreover from this have "full_table (mstate m1)"
      using machine_apply_full [OF m1(1) 2(1)] by simp
    ultimately show ?case
      using Cons.IH(2) [OF _ _ m1(2) inv(1)] inv(2) full_table_orphaned [OF 2(1)] by simp }
qed

end

section \<open>Properties\<close>

text \<open>A concrete table for the witnesses: two players have posted their blinds.\<close>

abbreviation demo_shuffle :: shuffler where
  "demo_shuffle \<equiv> rng_shuffle (\<lambda>_. replicate 32 0)
     \<lparr>rng_seed = replicate 32 0, rng_nonce = [], rng_commitment = []\<rparr>"

abbreviation demo_table :: machine where
  "demo_table \<equiv> new_machine [''a'', ''b''] 100"

abbreviation demo_blinds :: "game_action list" where
  "demo_blinds \<equiv> [PostBlind ''a'' 1, PostBlind ''b'' 2]"

lemma demo_dealt:
  "\<exists>m. apply_all demo_shuffle demo_blinds demo_table = Inr m \<and> phase (mstate m) = DEAL
     \<and> street (mstate m) = Preflop"
proof -
  let ?p = "\<lambda>i s b. \<lparr>pid = i, stack = s, folded = False, holeCards = None, bet = b, allIn = False\<rparr>"
  let ?st = "\<lparr>players = [?p ''a'' 99 1, ?p ''b'' 98 2], pot = 3, sidePots = [], communityCards = [],
      phase = WAIT_BLINDS, street = Preflop, currentBet = 2, deck = []\<rparr>"
  have "apply_all demo_shuffle demo_blinds demo_table
      = rbind (rbind (start_deal demo_shuffle ?st) (\<lambda>st. Inr \<lparr>mstate = st, blindsPosted = []\<rparr>))
          (apply_all demo_shuffle [])"
    by (simp add: new_machine_def new_player_def machine_apply_def apply_blinds_def findPlayer_def
        or_fail_def placeBet_def upt_rec)
  moreover obtain st' where s: "start_deal demo_shuffle ?st = Inr st'"
    using hand_rng.blinds_total [of ?st] by fastforce
  moreover have "phase st' = DEAL" "street st' = Preflop"
    using s by (auto elim!: start_deal_InrE)
  ultimately show ?thesis by simp
qed

text \<open>C1: no card is lost or dealt twice. At every table of at least two players, after any
  sequence of accepted actions that left a hand in play, each player holds two cards, the board has
  the size the street asks for, and the players' cards, the board and the deck together are exactly
  the 52 cards.\<close>

theorem hand_cards_partition:
  assumes "apply_all (rng_shuffle sha_array rng) as (new_machine ids s) = Inr m"
    and "2 \<le> length ids" "0 \<le> s" "\<not> between_hands (mstate m)"
  shows "mset (hole_cards (players (mstate m)) @ communityCards (mstate m) @ deck (mstate m))
           = mset standardDeck
    \<and> two_cards (players (mstate m))
    \<and> length (communityCards (mstate m)) = (if phase (mstate m) = DEAL
         then board_before (street (mstate m)) else board_size (street (mstate m)))"
  using hand_rng.run_inv [OF assms(1-3)] assms(4)
  by (simp add: machine_inv_def state_inv_def cards_inv_def street_inv_def)

theorem hand_cards_partition_witness:
  "\<exists>m. apply_all demo_shuffle demo_blinds demo_table = Inr m
     \<and> length (deck (mstate m)) + length (hole_cards (players (mstate m))) = 52"
proof -
  obtain m where m: "apply_all demo_shuffle demo_blinds demo_table = Inr m" "phase (mstate m) = DEAL"
    "street (mstate m) = Preflop"
    using demo_dealt by blast
  have "mset (hole_cards (players (mstate m)) @ communityCards (mstate m) @ deck (mstate m)) = mset standardDeck"
    "communityCards (mstate m) = []"
    using hand_cards_partition [OF m(1)] m(2,3) by (auto simp: between_hands_def)
  then have "length (hole_cards (players (mstate m)) @ deck (mstate m)) = 52"
    using mset_eq_length standardDeck_cards(3) by fastforce
  then show ?thesis using m(1) by (intro exI [of _ m]) simp
qed

text \<open>C2: chips are never created, and the books of the table always balance. After any sequence of
  accepted actions at a table of at least two players, stacks and pot together hold at least 0 and
  at most what the players brought; outside settlement the pot is the players' bets plus the side
  pots.\<close>

theorem hand_chips_bounded:
  assumes "apply_all (rng_shuffle sha_array rng) as (new_machine ids s) = Inr m"
    and "2 \<le> length ids" "0 \<le> s"
  shows "0 \<le> total_chips (mstate m) \<and> total_chips (mstate m) \<le> int (length ids) * s
    \<and> (phase (mstate m) \<noteq> SETTLE \<longrightarrow>
         pot (mstate m) = bets (players (mstate m)) + side_total (sidePots (mstate m)))"
proof -
  have "money_inv (mstate m)"
    using hand_rng.run_inv [OF assms] by (simp add: machine_inv_def state_inv_def)
  then show ?thesis
    using hand_rng.run_chips(1) [OF assms(1) new_machine_inv [OF assms(2,3)]] money_nonneg
    by (simp add: new_machine_chips money_inv_def)
qed

theorem hand_chips_bounded_witness:
  "\<exists>m. apply_all demo_shuffle demo_blinds demo_table = Inr m \<and> total_chips (mstate m) \<le> 200"
proof -
  obtain m where m: "apply_all demo_shuffle demo_blinds demo_table = Inr m"
    using demo_dealt by blast
  then show ?thesis using hand_chips_bounded [OF m] by auto
qed

text \<open>C15: as long as nobody folds, no chip is lost: through any number of hands without a fold,
  stacks and pot together stay exactly what the players brought.\<close>

theorem hand_chips_conserved:
  assumes "apply_all (rng_shuffle sha_array rng) as (new_machine ids s) = Inr m"
    and "2 \<le> length ids" "0 \<le> s" "\<forall>i. Fold i \<notin> set as"
  shows "total_chips (mstate m) = int (length ids) * s"
  using hand_rng.run_chips(2) [OF assms(1) new_machine_inv [OF assms(2,3)] new_machine_full assms(4)]
  by (simp add: new_machine_chips)

theorem hand_chips_conserved_witness:
  "\<exists>m. apply_all demo_shuffle demo_blinds demo_table = Inr m \<and> total_chips (mstate m) = 200"
proof -
  obtain m where m: "apply_all demo_shuffle demo_blinds demo_table = Inr m"
    using demo_dealt by blast
  then show ?thesis using hand_chips_conserved [OF m] by auto
qed

text \<open>what the showdown pays. In a state that satisfies the invariant, every accepted action
  keeps the chips on the table, except that the settlement of a showdown drops exactly the side
  pots none of whose entitled players is still in the hand.\<close>

theorem hand_step_chips:
  assumes "machine_inv m" "machine_apply (rng_shuffle sha_array rng) a m = Inr m'"
  shows "total_chips (mstate m') = total_chips (mstate m)
      - (if phase (mstate m) = SHOWDOWN then side_total (orphaned (mstate m)) else 0)
    \<and> machine_inv m'"
  using hand_rng.machine_apply_inv [OF assms(2,1)] by simp

theorem hand_step_chips_witness:
  "case machine_apply demo_shuffle (PostBlind ''a'' 1) demo_table of
     Inl _ \<Rightarrow> False | Inr m' \<Rightarrow> total_chips (mstate m') = 200 \<and> machine_inv m'"
proof -
  obtain m' where m': "machine_apply demo_shuffle (PostBlind ''a'' 1) demo_table = Inr m'"
    using demo_dealt by (auto simp: rbind_eq_Inr_iff)
  have "total_chips (mstate demo_table) = 200" "phase (mstate demo_table) = WAIT_BLINDS"
    by (simp_all add: new_machine_chips) (simp add: new_machine_def)
  then show ?thesis
    using hand_step_chips [OF new_machine_inv m'] m' by simp
qed






end
