(* ===== verification/Effects.thy ===== *)
theory Effects
  imports Prelude
begin

text \<open>
  Methods with effects. An asynchronous method of a service is a function from the state it reads
  and writes to its outcome, an exception (\<open>Inl\<close>) or a result (\<open>Inr\<close>), and the state it
  leaves: an exception does not undo what was written before it. The combinators are the
  statements the services are written with: sequencing, \<open>throw\<close>, \<open>try ... catch\<close> with
  rethrow, \<open>try ... finally\<close> and \<open>for ... of\<close>. A method runs without interleaving.

  \<open>keeps P m\<close> says that \<open>m\<close> preserves \<open>P\<close> whether or not it throws; the rules of the
  collection \<open>keeps_intros\<close> follow the combinators.
\<close>

named_theorems keeps_intros
named_theorems run_simps

type_synonym ('s, 'e, 'a) act = "'s \<Rightarrow> ('e + 'a) \<times> 's"

definition ret :: "'a \<Rightarrow> ('s, 'e, 'a) act" where
  "ret x s = (Inr x, s)"

definition raise :: "'e \<Rightarrow> ('s, 'e, 'a) act" where
  "raise e s = (Inl e, s)"

definition bnd :: "('s, 'e, 'a) act \<Rightarrow> ('a \<Rightarrow> ('s, 'e, 'b) act) \<Rightarrow> ('s, 'e, 'b) act" where
  "bnd m f s = (case m s of (Inl e, s') \<Rightarrow> (Inl e, s') | (Inr x, s') \<Rightarrow> f x s')"

definition seq :: "('s, 'e, 'a) act \<Rightarrow> ('s, 'e, 'b) act \<Rightarrow> ('s, 'e, 'b) act" where
  "seq m m' = bnd m (\<lambda>_. m')"

definition gets :: "('s \<Rightarrow> 'a) \<Rightarrow> ('s, 'e, 'a) act" where
  "gets f s = (Inr (f s), s)"

definition upd :: "('s \<Rightarrow> 's) \<Rightarrow> ('s, 'e, unit) act" where
  "upd f s = (Inr (), f s)"

definition raise_if :: "bool \<Rightarrow> 'e \<Rightarrow> ('s, 'e, unit) act" where
  "raise_if b e = (if b then raise e else ret ())"

definition do_when :: "bool \<Rightarrow> ('s, 'e, unit) act \<Rightarrow> ('s, 'e, unit) act" where
  "do_when b m = (if b then m else ret ())"

definition orFail :: "'e \<Rightarrow> 'a option \<Rightarrow> ('s, 'e, 'a) act" where
  "orFail e x = (case x of None \<Rightarrow> raise e | Some y \<Rightarrow> ret y)"

text \<open>\<open>try { m } catch (err) { c; throw err }\<close>; if \<open>c\<close> throws, its exception replaces \<open>err\<close>.\<close>

definition on_error :: "('s, 'e, 'a) act \<Rightarrow> ('s, 'e, unit) act \<Rightarrow> ('s, 'e, 'a) act" where
  "on_error m c s = (case m s of (Inl e, s') \<Rightarrow> seq c (raise e) s' | (Inr x, s') \<Rightarrow> (Inr x, s'))"

definition finally_do :: "('s, 'e, 'a) act \<Rightarrow> ('s, 'e, unit) act \<Rightarrow> ('s, 'e, 'a) act" where
  "finally_do m c s =
     (case m s of (Inl e, s') \<Rightarrow> seq c (raise e) s' | (Inr x, s') \<Rightarrow> seq c (ret x) s')"

primrec each :: "('a \<Rightarrow> ('s, 'e, unit) act) \<Rightarrow> 'a list \<Rightarrow> ('s, 'e, unit) act" where
  "each f [] = ret ()"
| "each f (x # xs) = seq (f x) (each f xs)"

section \<open>Running\<close>

lemma run_ret [run_simps]: "ret x s = (Inr x, s)" by (simp add: ret_def)
lemma run_raise [run_simps]: "raise e s = (Inl e, s)" by (simp add: raise_def)
lemma run_gets [run_simps]: "gets f s = (Inr (f s), s)" by (simp add: gets_def)
lemma run_upd [run_simps]: "upd f s = (Inr (), f s)" by (simp add: upd_def)

lemma run_bnd_Inr: "m s = (Inr x, s') \<Longrightarrow> bnd m f s = f x s'"
  by (simp add: bnd_def)

lemma run_bnd_Inl: "m s = (Inl e, s') \<Longrightarrow> bnd m f s = (Inl e, s')"
  by (simp add: bnd_def)

lemma run_seq_Inr: "m s = (Inr x, s') \<Longrightarrow> seq m m' s = m' s'"
  by (simp add: seq_def bnd_def)

lemma run_seq_Inl: "m s = (Inl e, s') \<Longrightarrow> seq m m' s = (Inl e, s')"
  by (simp add: seq_def bnd_def)

lemma run_bnd [run_simps]:
  "bnd (ret y) f s = f y s" "bnd (gets g) f s = f (g s) s" "bnd (upd h) k s = k () (h s)"
  "bnd (raise e) f s = (Inl e, s)"
  by (simp_all add: bnd_def run_simps)

lemma run_seq [run_simps]:
  "seq (ret y) m s = m s" "seq (upd h) m s = m (h s)" "seq (raise e) m s = (Inl e, s)"
  by (simp_all add: seq_def run_simps)

lemma run_orFail [run_simps]: "bnd (orFail e (Some y)) f s = f y s" "bnd (orFail e None) f s = (Inl e, s)"
  by (simp_all add: orFail_def run_simps)

lemma run_raise_if [run_simps]:
  "\<not> b \<Longrightarrow> seq (raise_if b e) m s = m s" "b \<Longrightarrow> seq (raise_if b e) m s = (Inl e, s)"
  by (simp_all add: raise_if_def run_simps)

lemma run_when [run_simps]:
  "\<not> b \<Longrightarrow> seq (do_when b m) m' s = m' s" "b \<Longrightarrow> seq (do_when b m) m' s = seq m m' s"
  by (simp_all add: do_when_def run_simps)

lemma bnd_assoc: "bnd (bnd m f) g = bnd m (\<lambda>x. bnd (f x) g)"
  by (rule ext) (simp add: bnd_def split: prod.splits sum.splits)

lemma seq_assoc: "seq (seq m m') m'' = seq m (seq m' m'')"
  by (simp add: seq_def bnd_assoc)

section \<open>Invariants\<close>

definition keeps :: "('s \<Rightarrow> bool) \<Rightarrow> ('s, 'e, 'a) act \<Rightarrow> bool" where
  "keeps P m \<longleftrightarrow> (\<forall>s. P s \<longrightarrow> P (snd (m s)))"

lemma keepsD: "keeps P m \<Longrightarrow> P s \<Longrightarrow> m s = (r, s') \<Longrightarrow> P s'"
  by (metis keeps_def snd_conv)

lemma keeps_ret [keeps_intros]: "keeps P (ret x)"
  by (simp add: keeps_def run_simps)

lemma keeps_raise [keeps_intros]: "keeps P (raise e)"
  by (simp add: keeps_def run_simps)

lemma keeps_gets [keeps_intros]: "keeps P (gets f)"
  by (simp add: keeps_def run_simps)

lemma keeps_upd: "(\<And>s. P s \<Longrightarrow> P (f s)) \<Longrightarrow> keeps P (upd f)"
  by (simp add: keeps_def run_simps)

lemma keeps_raise_if [keeps_intros]: "keeps P (raise_if b e)"
  by (simp add: raise_if_def keeps_intros)

lemma keeps_orFail [keeps_intros]: "keeps P (orFail e x)"
  by (auto simp: orFail_def keeps_intros split: option.splits)

lemma keeps_bnd [keeps_intros]: "keeps P m \<Longrightarrow> (\<And>x. keeps P (f x)) \<Longrightarrow> keeps P (bnd m f)"
  by (auto simp: keeps_def bnd_def split: prod.splits sum.splits)

text \<open>Reading a value the invariant says something about.\<close>

lemma keeps_bnd_gets: "(\<And>s. P s \<Longrightarrow> P (snd (f (g s) s))) \<Longrightarrow> keeps P (bnd (gets g) f)"
  by (simp add: keeps_def run_simps)

lemma keeps_seq [keeps_intros]: "keeps P m \<Longrightarrow> keeps P m' \<Longrightarrow> keeps P (seq m m')"
  by (simp add: seq_def keeps_bnd)

lemma keeps_do_when [keeps_intros]: "(b \<Longrightarrow> keeps P m) \<Longrightarrow> keeps P (do_when b m)"
  by (simp add: do_when_def keeps_intros)

lemma keeps_if [keeps_intros]: "(b \<Longrightarrow> keeps P m) \<Longrightarrow> (\<not> b \<Longrightarrow> keeps P m') \<Longrightarrow> keeps P (if b then m else m')"
  by simp

lemma keeps_case_option [keeps_intros]:
  "keeps P m \<Longrightarrow> (\<And>y. x = Some y \<Longrightarrow> keeps P (f y)) \<Longrightarrow> keeps P (case x of None \<Rightarrow> m | Some y \<Rightarrow> f y)"
  by (simp split: option.splits)

lemma keeps_seq_run: "keeps P c \<Longrightarrow> keeps P k \<Longrightarrow> P s \<Longrightarrow> P (snd (seq c k s))"
  using keeps_seq [of P c k] by (simp add: keeps_def)

lemma keeps_on_error [keeps_intros]:
  assumes "keeps P m" "keeps P c"
  shows "keeps P (on_error m c)"
  unfolding keeps_def
proof (intro allI impI)
  fix s assume "P s"
  then have "P (snd (m s))" using assms(1) by (simp add: keeps_def)
  then show "P (snd (on_error m c s))"
    using keeps_seq_run [OF assms(2) keeps_raise]
    by (cases "m s"; cases "fst (m s)") (simp_all add: on_error_def)
qed

lemma keeps_finally_do [keeps_intros]:
  assumes "keeps P m" "keeps P c"
  shows "keeps P (finally_do m c)"
  unfolding keeps_def
proof (intro allI impI)
  fix s assume "P s"
  then have "P (snd (m s))" using assms(1) by (simp add: keeps_def)
  then show "P (snd (finally_do m c s))"
    using keeps_seq_run [OF assms(2) keeps_raise] keeps_seq_run [OF assms(2) keeps_ret]
    by (cases "m s"; cases "fst (m s)") (simp_all add: finally_do_def)
qed

lemma keeps_each [keeps_intros]: "(\<And>x. x \<in> set xs \<Longrightarrow> keeps P (f x)) \<Longrightarrow> keeps P (each f xs)"
  by (induction xs) (auto intro: keeps_intros)

lemma keeps_conj: "keeps P m \<Longrightarrow> keeps Q m \<Longrightarrow> keeps (\<lambda>s. P s \<and> Q s) m"
  by (simp add: keeps_def)

text \<open>Methods that leave a component of the state as it is.\<close>

definition leaves :: "('s \<Rightarrow> 'c) \<Rightarrow> ('s, 'e, 'a) act \<Rightarrow> bool" where
  "leaves g m \<longleftrightarrow> (\<forall>c. keeps (\<lambda>s. g s = c) m)"

lemma leavesD: "leaves g m \<Longrightarrow> g (snd (m s)) = g s"
  by (simp add: leaves_def keeps_def)

section \<open>Weakest preconditions\<close>

text \<open>\<open>wp m Q E s\<close>: run in \<open>s\<close>, \<open>m\<close> either returns with \<open>Q\<close> or throws with \<open>E\<close>.
  The equations of the collection \<open>wp_simps\<close> compute it.\<close>

named_theorems wp_simps

definition wp :: "('s, 'e, 'a) act \<Rightarrow> ('a \<Rightarrow> 's \<Rightarrow> bool) \<Rightarrow> ('s \<Rightarrow> bool) \<Rightarrow> 's \<Rightarrow> bool" where
  "wp m Q E s = (case m s of (Inl e, s') \<Rightarrow> E s' | (Inr x, s') \<Rightarrow> Q x s')"

lemma wp_basic [wp_simps]:
  "wp (ret x) Q E s = Q x s" "wp (raise e) Q E s = E s" "wp (gets f) Q E s = Q (f s) s"
  "wp (upd g) Q' E s = Q' () (g s)"
  by (simp_all add: wp_def run_simps)

lemma wp_bnd [wp_simps]: "wp (bnd m f) Q E s = wp m (\<lambda>x. wp (f x) Q E) E s"
  by (simp add: wp_def bnd_def split: prod.splits sum.splits)

lemma wp_seq [wp_simps]: "wp (seq m m') Q E s = wp m (\<lambda>_. wp m' Q E) E s"
  by (simp add: seq_def wp_simps)

lemma wp_raise_if [wp_simps]: "wp (raise_if b e) Q E s = (if b then E s else Q () s)"
  by (simp add: raise_if_def wp_simps)

lemma wp_do_when [wp_simps]: "wp (do_when b m) Q E s = (if b then wp m Q E s else Q () s)"
  by (simp add: do_when_def wp_simps)

lemma wp_orFail [wp_simps]: "wp (orFail e x) Q E s = (case x of None \<Rightarrow> E s | Some y \<Rightarrow> Q y s)"
  by (simp add: orFail_def wp_simps split: option.splits)

lemma wp_on_error [wp_simps]:
  "wp (on_error m c) Q E s = wp m Q (\<lambda>s'. wp c (\<lambda>_. E) E s') s"
  by (simp add: wp_def on_error_def seq_def bnd_def run_simps split: prod.splits sum.splits)

lemma wp_finally_do [wp_simps]:
  "wp (finally_do m c) Q E s = wp m (\<lambda>x. wp c (\<lambda>_. Q x) E) (\<lambda>s'. wp c (\<lambda>_. E) E s') s"
  by (simp add: wp_def finally_do_def seq_def bnd_def run_simps split: prod.splits sum.splits)

lemma wp_mono:
  assumes "wp m Q E s" "\<And>x s. Q x s \<Longrightarrow> Q' x s" "\<And>s. E s \<Longrightarrow> E' s"
  shows "wp m Q' E' s"
  using assms by (auto simp: wp_def split: prod.splits sum.splits)

lemma wp_then:
  "wp m (\<lambda>_. R) E s \<Longrightarrow> (\<And>s. R s \<Longrightarrow> wp m' Q E s) \<Longrightarrow> wp m (\<lambda>_. wp m' Q E) E s"
  by (rule wp_mono)

lemma keeps_wp: "keeps P m \<longleftrightarrow> (\<forall>s. P s \<longrightarrow> wp m (\<lambda>_. P) P s)"
proof -
  have "wp m (\<lambda>_. P) P s \<longleftrightarrow> P (snd (m s))" for s
    by (cases "m s"; cases "fst (m s)") (simp_all add: wp_def)
  then show ?thesis by (simp add: keeps_def)
qed

lemma wp_keeps: "keeps P m \<Longrightarrow> P s \<Longrightarrow> wp m (\<lambda>_. P) P s"
  by (simp add: keeps_wp)

lemma wp_each:
  assumes "I xs s" "\<And>x xs s. I (x # xs) s \<Longrightarrow> wp (f x) (\<lambda>_. I xs) E s"
  shows "wp (each f xs) (\<lambda>_. I []) E s"
  using assms(1) by (induction xs arbitrary: s) (auto simp: wp_simps intro!: wp_mono [OF assms(2)])

lemma wp_run: "wp m Q E s \<Longrightarrow> m s = (Inr x, s') \<Longrightarrow> Q x s'" "wp m Q E s \<Longrightarrow> m s = (Inl e, s') \<Longrightarrow> E s'"
  by (simp_all add: wp_def)

end
