(* ===== verification/RedisClient.thy ===== *)
theory RedisClient
  imports Effects "HOL-Library.AList"
begin

text \<open>
  Redis as the services use it. The server is not part of the repository: a client is a record of
  functions on an unknown store, and the locale \<open>redis\<close> states the documented behaviour of the
  commands the services rely on. Keys expire on the server's own clock; the laws speak of commands
  that follow one another before an expiry.

  The repository's own in-memory client, the class \<open>MockRedis\<close> of
  \<open>backend/test/utils/mock-redis.ts\<close>, is modelled below and shown to satisfy the laws.

  Texts the services write with \<open>JSON.stringify\<close> are kept as the value they encode
  (\<open>Json\<close>); they are objects, so never equal to a plain text such as \<open>LOCK\<close>.
\<close>

datatype json = JStr string | JNum int | JObj "(string \<times> json) list"

datatype rtext = Raw string | Json json

record 's redis_client =
  r_get :: "string \<Rightarrow> 's \<Rightarrow> rtext option"
  r_set :: "nat \<Rightarrow> string \<Rightarrow> rtext \<Rightarrow> nat option \<Rightarrow> bool \<Rightarrow> 's \<Rightarrow> bool \<times> 's"
  r_del :: "string \<Rightarrow> 's \<Rightarrow> 's"
  r_incrby :: "string \<Rightarrow> int \<Rightarrow> 's \<Rightarrow> int option \<times> 's"
  r_expire :: "nat \<Rightarrow> string \<Rightarrow> nat \<Rightarrow> 's \<Rightarrow> bool \<times> 's"
  r_zadd :: "string \<Rightarrow> int \<Rightarrow> string \<Rightarrow> 's \<Rightarrow> 's"
  r_zremrangebyscore :: "string \<Rightarrow> int \<Rightarrow> int \<Rightarrow> 's \<Rightarrow> 's"
  r_zmembers :: "string \<Rightarrow> 's \<Rightarrow> (int \<times> string) list"

text \<open>\<open>setWithOptions\<close>: the options select one of the four forms of \<open>SET\<close>; the result says
  whether the value was stored (\<open>null\<close> otherwise).\<close>

definition setWithOptions ::
  "'s redis_client \<Rightarrow> nat \<Rightarrow> string \<Rightarrow> rtext \<Rightarrow> (nat option \<times> bool) option \<Rightarrow> 's \<Rightarrow> bool \<times> 's" where
  "setWithOptions rd now key v opts =
     (case opts of
        None \<Rightarrow> r_set rd now key v None False
      | Some (Some ex, True) \<Rightarrow> r_set rd now key v (Some ex) True
      | Some (Some ex, False) \<Rightarrow> r_set rd now key v (Some ex) False
      | Some (None, True) \<Rightarrow> r_set rd now key v None True
      | Some (None, False) \<Rightarrow> r_set rd now key v None False)"

lemma setWithOptions_set: "setWithOptions rd now key v (Some (ex, nx)) = r_set rd now key v ex nx"
  by (cases ex; cases nx) (simp_all add: setWithOptions_def)

section \<open>The contract\<close>

text \<open>The value of a counter: an absent key counts from 0.\<close>

definition counter_of :: "rtext option \<Rightarrow> int option" where
  "counter_of v = (case v of None \<Rightarrow> Some 0 | Some (Raw s) \<Rightarrow> parseInt10 s | Some (Json j) \<Rightarrow> None)"

locale redis =
  fixes rd :: "'s redis_client"
  assumes get_set: "r_get rd k (snd (r_set rd now k' v ex nx s))
      = (if k = k' \<and> (\<not> nx \<or> r_get rd k s = None) then Some v else r_get rd k s)"
    and set_stored: "fst (r_set rd now k' v ex nx s) \<longleftrightarrow> \<not> nx \<or> r_get rd k' s = None"
    and get_del: "r_get rd k (r_del rd k' s) = (if k = k' then None else r_get rd k s)"
    and incrby_result: "counter_of (r_get rd k s) = Some c \<Longrightarrow> fst (r_incrby rd k n s) = Some (c + n)"
    and incrby_get: "counter_of (r_get rd k' s) = Some c \<Longrightarrow>
      r_get rd k (snd (r_incrby rd k' n s)) = (if k = k' then Some (Raw (int_to_string (c + n))) else r_get rd k s)"
    and get_expire: "r_get rd k (snd (r_expire rd now k' ttl s)) = r_get rd k s"
    and expire_ok: "r_get rd k' s \<noteq> None \<Longrightarrow> fst (r_expire rd now k' ttl s)"
    and get_zset: "r_get rd k (r_zadd rd k' score member s) = r_get rd k s"
      "r_get rd k (r_zremrangebyscore rd k' lo hi s) = r_get rd k s"
    and zadd_members: "k \<noteq> k' \<Longrightarrow> r_zmembers rd k (r_zadd rd k' score member s) = r_zmembers rd k s"
    and zadd_mset: "member \<notin> snd ` set (r_zmembers rd k s) \<Longrightarrow>
      mset (r_zmembers rd k (r_zadd rd k score member s)) = mset (r_zmembers rd k s) + {#(score, member)#}"
    and zremrange_members: "r_zmembers rd k (r_zremrangebyscore rd k' lo hi s)
      = (if k = k' then filter (\<lambda>(sc, _). sc < lo \<or> hi < sc) (r_zmembers rd k s) else r_zmembers rd k s)"
begin

text \<open>A lock taken with \<open>SET NX\<close> excludes every later taker until it is released.\<close>

lemma lock_excludes:
  "fst (r_set rd now k v ex True s) \<Longrightarrow> \<not> fst (r_set rd now' k v' ex' True (snd (r_set rd now k v ex True s)))"
  by (simp add: set_stored get_set)

lemma lock_released: "fst (r_set rd now k v ex True (r_del rd k s))"
  by (simp add: set_stored get_del)

lemma counter_incrby:
  "counter_of (r_get rd k s) = Some c \<Longrightarrow> counter_of (r_get rd k (snd (r_incrby rd k n s))) = Some (c + n)"
  by (simp add: incrby_get counter_of_def)

end

section \<open>The repository's in-memory client\<close>

record mock_redis =
  mr_store :: "(string \<times> rtext) list"
  mr_sorted :: "(string \<times> (int \<times> string) list) list"
  mr_expirations :: "(string \<times> nat) list"

definition mock_get :: "string \<Rightarrow> mock_redis \<Rightarrow> rtext option" where
  "mock_get key m = map_of (mr_store m) key"

definition mock_set :: "nat \<Rightarrow> string \<Rightarrow> rtext \<Rightarrow> nat option \<Rightarrow> bool \<Rightarrow> mock_redis \<Rightarrow> bool \<times> mock_redis" where
  "mock_set now key v ex nx m =
     (if nx \<and> mock_get key m \<noteq> None then (False, m)
      else let m1 = m\<lparr>mr_store := AList.update key v (mr_store m)\<rparr>
           in (True, case ex of
                 None \<Rightarrow> m1
               | Some ttl \<Rightarrow> if ttl = 0 then m1
                   else m1\<lparr>mr_expirations := AList.update key (now + ttl * 1000) (mr_expirations m1)\<rparr>))"

definition mock_del :: "string \<Rightarrow> mock_redis \<Rightarrow> mock_redis" where
  "mock_del key m =
     (if mock_get key m \<noteq> None then m\<lparr>mr_store := AList.delete key (mr_store m)\<rparr>
      else m\<lparr>mr_sorted := AList.delete key (mr_sorted m)\<rparr>)"

definition mock_incrby :: "string \<Rightarrow> int \<Rightarrow> mock_redis \<Rightarrow> int option \<times> mock_redis" where
  "mock_incrby key n m =
     (let old = (case mock_get key m of None \<Rightarrow> parseInt10 ''0'' | Some (Raw s) \<Rightarrow> parseInt10 s
                 | Some (Json _) \<Rightarrow> None);
          next_text = (case old of None \<Rightarrow> ''NaN'' | Some c \<Rightarrow> int_to_string (c + n))
      in (parseInt10 next_text, m\<lparr>mr_store := AList.update key (Raw next_text) (mr_store m)\<rparr>))"

definition mock_expire :: "nat \<Rightarrow> string \<Rightarrow> nat \<Rightarrow> mock_redis \<Rightarrow> bool \<times> mock_redis" where
  "mock_expire now key ttl m =
     (True, m\<lparr>mr_expirations := AList.update key (now + ttl * 1000) (mr_expirations m)\<rparr>)"

definition mock_zmembers :: "string \<Rightarrow> mock_redis \<Rightarrow> (int \<times> string) list" where
  "mock_zmembers key m = (case map_of (mr_sorted m) key of None \<Rightarrow> [] | Some arr \<Rightarrow> arr)"

text \<open>\<open>findIndex\<close> and \<open>splice\<close>: the first entry of the member is removed before the new one
  is pushed and the array sorted.\<close>

fun drop_member :: "string \<Rightarrow> (int \<times> string) list \<Rightarrow> (int \<times> string) list" where
  "drop_member member [] = []"
| "drop_member member (e # es) = (if snd e = member then es else e # drop_member member es)"

definition mock_zadd :: "string \<Rightarrow> int \<Rightarrow> string \<Rightarrow> mock_redis \<Rightarrow> mock_redis" where
  "mock_zadd key score member m =
     m\<lparr>mr_sorted := AList.update key
         (js_sort (\<lambda>a b. fst a - fst b \<le> 0) (drop_member member (mock_zmembers key m) @ [(score, member)]))
         (mr_sorted m)\<rparr>"

definition mock_zremrangebyscore :: "string \<Rightarrow> int \<Rightarrow> int \<Rightarrow> mock_redis \<Rightarrow> mock_redis" where
  "mock_zremrangebyscore key lo hi m =
     m\<lparr>mr_sorted := AList.update key
         (filter (\<lambda>(sc, _). sc < lo \<or> sc > hi) (mock_zmembers key m)) (mr_sorted m)\<rparr>"

definition mock_client :: "mock_redis redis_client" where
  "mock_client = \<lparr>r_get = mock_get, r_set = mock_set, r_del = mock_del, r_incrby = mock_incrby,
     r_expire = mock_expire, r_zadd = mock_zadd, r_zremrangebyscore = mock_zremrangebyscore,
     r_zmembers = mock_zmembers\<rparr>"

definition empty_mock :: mock_redis where
  "empty_mock = \<lparr>mr_store = [], mr_sorted = [], mr_expirations = []\<rparr>"

lemma drop_member_absent: "member \<notin> snd ` set es \<Longrightarrow> drop_member member es = es"
  by (induction es) auto

lemma parseInt10_zero: "parseInt10 ''0'' = Some 0"
  by (simp add: parseInt10_def js_space_def js_digit_def dec_value_def)

interpretation mock: redis mock_client
proof (unfold_locales, goal_cases)
  case (1 k now k' v ex nx s)
  then show ?case
    by (auto simp: mock_client_def mock_set_def mock_get_def Let_def update_conv' split: option.splits)
next
  case (5 k' s c k n)
  then show ?case
    by (auto simp: mock_client_def mock_incrby_def mock_get_def Let_def update_conv' counter_of_def
        parseInt10_zero split: option.splits rtext.splits)
next
  case (11 member k s score)
  then show ?case
    by (simp add: mock_client_def mock_zadd_def mock_zmembers_def update_conv' drop_member_absent)
qed (auto simp: mock_client_def mock_set_def mock_get_def mock_del_def mock_incrby_def mock_expire_def
    mock_zadd_def mock_zremrangebyscore_def mock_zmembers_def Let_def update_conv' delete_conv'
    counter_of_def parseInt10_zero split: option.splits rtext.splits)

end
