(* ===== verification/Ledger.thy ===== *)
theory Ledger
  imports RedisClient StateMachine
begin

text \<open>
  The double-entry ledger of \<open>backend/src/wallet/wallet.service.ts\<close> (\<open>record\<close>,
  \<open>reserve\<close>, \<open>commit\<close>, \<open>rollback\<close>, \<open>reconcile\<close> and the totals), the settlement
  journal of \<open>backend/src/wallet/settlement.service.ts\<close> and the hand ledger of
  \<open>backend/src/wallet/hand-ledger.ts\<close>.

  The database is the part \<open>wallet\<close> of the state: a repository is the list of the rows of its
  table in order of insertion. \<open>findOneBy\<close> returns a copy of the first row that matches, as
  the services hold entities apart from the table and write them back with \<open>save\<close>. SHA-256,
  fresh identifiers, the clock, the Redis client and the services outside the wallet (KYC,
  geolocation, payment provider, the configuration) are the fields of \<open>wallet_env\<close>.
  Telemetry (spans, counters, the revenue metric) is left out.
\<close>

section \<open>Tables and environment\<close>

record account =
  acc_id :: string
  acc_name :: string
  acc_currency :: string
  acc_balance :: int
  acc_creditBalance :: int
  acc_kycVerified :: bool

record journal_entry =
  je_id :: string
  je_accountId :: string
  je_amount :: int
  je_currency :: string
  je_refType :: string
  je_refId :: string
  je_hash :: string
  je_providerTxnId :: "string option"
  je_providerStatus :: "string option"
  je_createdAt :: nat

datatype settlement_status = Reserved | Committed

record settlement_row =
  sj_id :: string
  sj_idempotencyKey :: string
  sj_status :: settlement_status

datatype disbursement_status = DPending | DCompleted

record disbursement =
  d_id :: string
  d_accountId :: string
  d_amount :: int
  d_idempotencyKey :: string
  d_status :: disbursement_status
  d_completedAt :: "nat option"
  d_providerRef :: "string option"
  d_createdAt :: nat

datatype deposit_status = PdPending | PdConfirmed | PdRejected

record pending_deposit =
  pd_id :: string
  pd_userId :: string
  pd_amount :: int
  pd_currency :: string
  pd_reference :: string
  pd_status :: deposit_status
  pd_actionRequired :: bool
  pd_expiresAt :: nat
  pd_confirmedBy :: "string option"
  pd_confirmedAt :: "nat option"
  pd_rejectedBy :: "string option"
  pd_rejectedAt :: "nat option"
  pd_rejectionReason :: "string option"
  pd_createdAt :: nat

record deposit_iban =
  di_iban :: string
  di_masked :: string
  di_holder :: string
  di_instructions :: string
  di_updatedBy :: string
  di_updatedAt :: nat

record iban_history =
  ih_oldIban :: string
  ih_newIban :: string
  ih_by :: string
  ih_notes :: string
  ih_date :: nat

datatype wallet_op = DepositOp | WithdrawOp

record reconcile_row =
  rr_account :: string
  rr_balance :: int
  rr_journal :: int

datatype wallet_event =
    WalletCredit string int string string string
  | WalletDebit string int string string string
  | NotificationCreate string string
  | DisbursementRequest string string int string string
  | MismatchResolved string string nat
  | ReconcileMismatch string int
  | AntiCheatFlag string wallet_op int int int string
  | VelocityLimit string wallet_op string string int int
  | ChargebackFlag string string int int
  | AdminDepositPending string string int string "int option" "string option"
  | DepositConfirmed string string int string
  | DepositRejected string string string "string option"
  | AdminDepositConfirmed string
  | AdminDepositRejected string "string option"

record 's wallet =
  accounts :: "account list"
  journals :: "journal_entry list"
  settlements :: "settlement_row list"
  disbursements :: "disbursement list"
  pendingDeposits :: "pending_deposit list"
  depositIbans :: "deposit_iban list"
  ibanHistory :: "iban_history list"
  acknowledgedMismatches :: "(string \<times> string \<times> nat) list"
  outbox :: "wallet_event list"
  payoutJobs :: "(string \<times> string) list"
  depositJobs :: "string list"
  retryJobs :: "string list"
  store :: 's
  uuids :: nat

record 's wallet_env =
  client :: "'s redis_client"
  sha256 :: "string \<Rightarrow> string"
  uuid :: "nat \<Rightarrow> string"
  now_ms :: nat
  systemAccounts :: "string list"
  queueConnected :: bool
  kycIsVerified :: "string \<Rightarrow> string \<Rightarrow> bool"
  kycValidate :: "account \<Rightarrow> bool"
  kycDenialReason :: "string \<Rightarrow> string option"
  geoIsAllowed :: "string \<Rightarrow> bool"
  initiate3DS :: "string \<Rightarrow> int \<Rightarrow> string option"
  dailyLimit :: "wallet_op \<Rightarrow> int option"
  hourlyCountLimit :: "wallet_op \<Rightarrow> int option"
  hourlyAmountLimit :: "wallet_op \<Rightarrow> int option"
  dailyCountLimit :: "wallet_op \<Rightarrow> int option"
  bankConfig :: "(string \<times> string \<times> string) option"
  cbWindowMs :: int
  cbAccountLimit :: nat
  cbDeviceLimit :: nat

datatype wallet_error =
    EntityNotFound
  | JournalNotBalanced
  | UniqueViolation
  | KycRequired
  | KycInvalid
  | CountryNotAllowed
  | AmlLimitExceeded
  | RateLimitExceeded
  | VelocityLimitExceeded
  | DailyLimitExceeded
  | ExpiryFailed
  | ChargebackThresholdExceeded
  | DuplicateInProgress
  | DepositLocked
  | BankConfigMissing
  | IbanNotConfigured
  | ProviderFailed
  | RedisFailed
  | MissingEventId
  | InvalidSignature
  | InvalidEvent
  | MissingHandler
  | InvalidJson

type_synonym ('s, 'a) wact = "('s wallet, wallet_error, 'a) act"

section \<open>Access to the tables\<close>

definition randomUUID :: "'s wallet_env \<Rightarrow> ('s, string) wact" where
  "randomUUID env = bnd (gets uuids) (\<lambda>n. seq (upd (\<lambda>w. w\<lparr>uuids := n + 1\<rparr>)) (ret (uuid env n)))"

definition emit :: "wallet_event \<Rightarrow> ('s, unit) wact" where
  "emit e = upd (\<lambda>w. w\<lparr>outbox := outbox w @ [e]\<rparr>)"

definition account_by :: "(account \<Rightarrow> bool) \<Rightarrow> ('s, account) wact" where
  "account_by P = bnd (gets (\<lambda>w. List.find P (accounts w))) (orFail EntityNotFound)"

definition by_id_currency :: "string \<Rightarrow> string \<Rightarrow> account \<Rightarrow> bool" where
  "by_id_currency i cur a \<longleftrightarrow> acc_id a = i \<and> acc_currency a = cur"

definition by_name_currency :: "string \<Rightarrow> string \<Rightarrow> account \<Rightarrow> bool" where
  "by_name_currency n cur a \<longleftrightarrow> acc_name a = n \<and> acc_currency a = cur"

definition save_account :: "account \<Rightarrow> ('s, unit) wact" where
  "save_account a =
     upd (\<lambda>w. w\<lparr>accounts := map (\<lambda>b. if acc_id b = acc_id a then a else b) (accounts w)\<rparr>)"

text \<open>The unique index on \<open>hash\<close> rejects a second row with the same hash.\<close>

definition insert_journal :: "journal_entry \<Rightarrow> ('s, unit) wact" where
  "insert_journal e =
     bnd (gets journals) (\<lambda>js.
     seq (raise_if (je_hash e \<in> je_hash ` set js) UniqueViolation)
         (upd (\<lambda>w. w\<lparr>journals := js @ [e]\<rparr>)))"

text \<open>A transaction of the database: an exception restores the tables, not what was sent out.\<close>

definition db_transaction :: "('s, 'a) wact \<Rightarrow> ('s, 'a) wact" where
  "db_transaction m w =
     (case m w of
        (Inl e, w') \<Rightarrow> (Inl e, w'\<lparr>accounts := accounts w, journals := journals w, settlements := settlements w,
                          disbursements := disbursements w, pendingDeposits := pendingDeposits w\<rparr>)
      | r \<Rightarrow> r)"

section \<open>Recording\<close>

record movement =
  mv_account :: account
  mv_amount :: int

definition buildHash :: "'s wallet_env \<Rightarrow> string \<Rightarrow> string \<Rightarrow> string \<Rightarrow> int \<Rightarrow> string" where
  "buildHash env refType refId accountId amount =
     sha256 env (refType @ '':'' @ refId @ '':'' @ accountId @ '':'' @ int_to_string amount)"

definition record_entry ::
  "'s wallet_env \<Rightarrow> string \<Rightarrow> string \<Rightarrow> string option \<Rightarrow> string option \<Rightarrow> movement \<Rightarrow> ('s, unit) wact" where
  "record_entry env refType refId txn status e =
     bnd (randomUUID env) (\<lambda>i.
     seq (insert_journal
            \<lparr>je_id = i, je_accountId = acc_id (mv_account e), je_amount = mv_amount e,
             je_currency = acc_currency (mv_account e), je_refType = refType, je_refId = refId,
             je_hash = buildHash env refType refId (acc_id (mv_account e)) (mv_amount e),
             je_providerTxnId = txn, je_providerStatus = status, je_createdAt = now_ms env\<rparr>)
         (save_account ((mv_account e)\<lparr>acc_balance := acc_balance (mv_account e) + mv_amount e\<rparr>)))"

definition notify_entry :: "'s wallet_env \<Rightarrow> string \<Rightarrow> string \<Rightarrow> movement \<Rightarrow> ('s, unit) wact" where
  "notify_entry env refType refId e =
     (let a = mv_account e; cur = acc_currency a; n = \<bar>mv_amount e\<bar>
      in seq (emit ((if mv_amount e > 0 then WalletCredit else WalletDebit) (acc_id a) n refType refId cur))
         (do_when (acc_name a \<notin> set (systemAccounts env))
            (emit (NotificationCreate (acc_id a)
               ((if mv_amount e > 0 then ''Wallet credited '' else ''Wallet debited '')
                 @ int_to_string n @ '' '' @ cur)))))"

definition record_movements ::
  "'s wallet_env \<Rightarrow> string \<Rightarrow> string \<Rightarrow> movement list \<Rightarrow> string option \<Rightarrow> string option \<Rightarrow> ('s, unit) wact" where
  "record_movements env refType refId es txn status =
     seq (raise_if (sum_list (map mv_amount es) \<noteq> 0) JournalNotBalanced)
     (bnd (gets (\<lambda>w. filter (\<lambda>j. je_hash j \<in> (\<lambda>e. buildHash env refType refId (acc_id (mv_account e)) (mv_amount e)) ` set es)
             (journals w))) (\<lambda>existing.
      if existing \<noteq> [] then ret ()
      else seq (db_transaction (each (record_entry env refType refId txn status) es))
               (each (notify_entry env refType refId) es)))"

section \<open>Settlement journal\<close>

definition street_name :: "street \<Rightarrow> string" where
  "street_name st = (case st of Preflop \<Rightarrow> ''preflop'' | Flop \<Rightarrow> ''flop'' | Turn \<Rightarrow> ''turn''
     | River \<Rightarrow> ''river'' | Showdown \<Rightarrow> ''showdown'')"

definition buildKey :: "string \<Rightarrow> string \<Rightarrow> string \<Rightarrow> string" where
  "buildKey handId strt idx = handId @ ''#'' @ strt @ ''#'' @ idx"

text \<open>\<open>insert ... orIgnore\<close> on the unique column \<open>idempotencyKey\<close>.\<close>

definition insert_settlement :: "'s wallet_env \<Rightarrow> string \<Rightarrow> ('s, unit) wact" where
  "insert_settlement env key =
     bnd (randomUUID env) (\<lambda>i.
       upd (\<lambda>w. if key \<in> sj_idempotencyKey ` set (settlements w) then w
                else w\<lparr>settlements := settlements w
                         @ [\<lparr>sj_id = i, sj_idempotencyKey = key, sj_status = Reserved\<rparr>]\<rparr>))"

definition settlement_reserve :: "'s wallet_env \<Rightarrow> string \<Rightarrow> string \<Rightarrow> string \<Rightarrow> ('s, unit) wact" where
  "settlement_reserve env handId strt idx = insert_settlement env (buildKey handId strt idx)"

definition settlement_commit :: "string \<Rightarrow> string \<Rightarrow> string \<Rightarrow> ('s, unit) wact" where
  "settlement_commit handId strt idx =
     upd (\<lambda>w. w\<lparr>settlements := map (\<lambda>r. if sj_idempotencyKey r = buildKey handId strt idx \<and> sj_status r = Reserved
                  then r\<lparr>sj_status := Committed\<rparr> else r) (settlements w)\<rparr>)"

definition settlement_cancel :: "string \<Rightarrow> string \<Rightarrow> string \<Rightarrow> ('s, unit) wact" where
  "settlement_cancel handId strt idx =
     upd (\<lambda>w. w\<lparr>settlements := filter (\<lambda>r. \<not> (sj_idempotencyKey r = buildKey handId strt idx \<and> sj_status r = Reserved))
                  (settlements w)\<rparr>)"

section \<open>Reserve, commit, rollback\<close>

definition wallet_reserve ::
  "'s wallet_env \<Rightarrow> string \<Rightarrow> int \<Rightarrow> string \<Rightarrow> string \<Rightarrow> string option \<Rightarrow> ('s, unit) wact" where
  "wallet_reserve env accountId amount refId currency key =
     bnd (account_by (by_id_currency accountId currency)) (\<lambda>user.
     bnd (account_by (by_name_currency ''reserve'' currency)) (\<lambda>reserve.
     seq (case key of None \<Rightarrow> ret () | Some k \<Rightarrow> do_when (k \<noteq> []) (insert_settlement env k))
         (record_movements env ''reserve'' refId
            [\<lparr>mv_account = user, mv_amount = - amount\<rparr>, \<lparr>mv_account = reserve, mv_amount = amount\<rparr>] None None)))"

definition mark_committed :: "string option \<Rightarrow> ('s, unit) wact" where
  "mark_committed key =
     (case key of
        None \<Rightarrow> ret ()
      | Some k \<Rightarrow> do_when (k \<noteq> []) (upd (\<lambda>w. w\<lparr>settlements :=
          map (\<lambda>r. if sj_idempotencyKey r = k then r\<lparr>sj_status := Committed\<rparr> else r) (settlements w)\<rparr>)))"

definition wallet_commit ::
  "'s wallet_env \<Rightarrow> string \<Rightarrow> int \<Rightarrow> int \<Rightarrow> string \<Rightarrow> string option \<Rightarrow> ('s, unit) wact" where
  "wallet_commit env refId amount rakeAmount currency key =
     bnd (account_by (by_name_currency ''reserve'' currency)) (\<lambda>reserve.
     bnd (account_by (by_name_currency ''prize'' currency)) (\<lambda>prize.
     bnd (account_by (by_name_currency ''rake'' currency)) (\<lambda>rakeAcc.
     seq (record_movements env ''commit'' refId
            [\<lparr>mv_account = reserve, mv_amount = - amount\<rparr>, \<lparr>mv_account = prize, mv_amount = amount - rakeAmount\<rparr>,
             \<lparr>mv_account = rakeAcc, mv_amount = rakeAmount\<rparr>] None None)
         (mark_committed key))))"

text \<open>
  \<open>key.split('#')\<close>, and \<open>Number(idx)\<close> printed again: a decimal is normalised, any other
  text becomes \<open>NaN\<close> (the forms \<open>Number\<close> accepts beyond decimals do not occur in keys).
\<close>

fun split_on :: "char \<Rightarrow> string \<Rightarrow> string list" where
  "split_on c [] = [[]]"
| "split_on c (x # xs) =
     (if x = c then [] # split_on c xs
      else case split_on c xs of [] \<Rightarrow> [[x]] | p # ps \<Rightarrow> (x # p) # ps)"

lemma split_on_sep: "c \<notin> set p \<Longrightarrow> split_on c (p @ c # r) = p # split_on c r"
  by (induction p) auto

lemma split_on_whole: "c \<notin> set p \<Longrightarrow> split_on c p = [p]"
  by (induction p) auto

definition number_text :: "string \<Rightarrow> string" where
  "number_text s = (if s \<noteq> [] \<and> list_all js_digit s then nat_digits (dec_value s) else ''NaN'')"

definition cancel_by_key :: "string \<Rightarrow> ('s, unit) wact" where
  "cancel_by_key key =
     (case split_on (CHR ''#'') key of
        handId # strt # idx # _ \<Rightarrow>
          do_when (handId \<noteq> [] \<and> strt \<noteq> [] \<and> idx \<noteq> []) (settlement_cancel handId strt (number_text idx))
      | _ \<Rightarrow> ret ())"

definition cancel_key :: "string option \<Rightarrow> ('s, unit) wact" where
  "cancel_key key = (case key of None \<Rightarrow> ret () | Some k \<Rightarrow> do_when (k \<noteq> []) (cancel_by_key k))"

definition wallet_rollback ::
  "'s wallet_env \<Rightarrow> string \<Rightarrow> int \<Rightarrow> string \<Rightarrow> string \<Rightarrow> string option \<Rightarrow> ('s, unit) wact" where
  "wallet_rollback env accountId amount refId currency key =
     bnd (account_by (by_name_currency ''reserve'' currency)) (\<lambda>reserve.
     bnd (account_by (by_id_currency accountId currency)) (\<lambda>user.
     seq (record_movements env ''rollback'' refId
            [\<lparr>mv_account = reserve, mv_amount = - amount\<rparr>, \<lparr>mv_account = user, mv_amount = amount\<rparr>] None None)
         (cancel_key key)))"

section \<open>Totals and reconciliation\<close>

definition totalBalance :: "'s wallet \<Rightarrow> int" where
  "totalBalance w = sum_list (map acc_balance (accounts w))"

definition totalJournal :: "'s wallet \<Rightarrow> int" where
  "totalJournal w = sum_list (map je_amount (journals w))"

definition journal_sum :: "string \<Rightarrow> journal_entry list \<Rightarrow> int" where
  "journal_sum i js = sum_list (map je_amount (filter (\<lambda>j. je_accountId j = i) js))"

definition reconcile :: "'s wallet \<Rightarrow> reconcile_row list" where
  "reconcile w =
     concat (map (\<lambda>a. if journal_sum (acc_id a) (journals w) \<noteq> acc_balance a
                      then [\<lparr>rr_account = acc_name a, rr_balance = acc_balance a,
                             rr_journal = journal_sum (acc_id a) (journals w)\<rparr>]
                      else []) (accounts w))"

text \<open>\<open>hand-ledger.ts\<close>: the losses are reserved, then the total is committed, in one
  transaction of the database.\<close>

record settlement_entry =
  se_playerId :: string
  se_delta :: int

definition writeHandLedger ::
  "'s wallet_env \<Rightarrow> string \<Rightarrow> street \<Rightarrow> nat \<Rightarrow> settlement_entry list \<Rightarrow> string \<Rightarrow> ('s, unit) wact" where
  "writeHandLedger env handId st idx entries currency =
     (let key = handId @ ''#'' @ street_name st @ ''#'' @ nat_digits idx;
          losers = filter (\<lambda>e. se_delta e < 0) entries;
          total = sum_list (map (\<lambda>e. - se_delta e) losers)
      in db_transaction
           (seq (each (\<lambda>e. wallet_reserve env (se_playerId e) (- se_delta e) key currency (Some key)) losers)
                (do_when (total > 0) (wallet_commit env key total 0 currency (Some key)))))"

end
