(* ===== verification/LedgerInv.thy ===== *)
theory LedgerInv
  imports Ledger
begin

text \<open>
  The ledger invariant: every account's balance is the sum of its journal entries, the journal as a
  whole sums to zero, entries belong to known accounts and their hashes are unique. It is what
  \<open>reconcile\<close> checks, and every operation of the ledger keeps it as long as a movement never
  names the same account twice: an operation writes back the copies of the accounts it read.
\<close>

definition books :: "account list \<Rightarrow> journal_entry list \<Rightarrow> bool" where
  "books as js \<longleftrightarrow> distinct (map acc_id as)
     \<and> (\<forall>a\<in>set as. journal_sum (acc_id a) js = acc_balance a)
     \<and> (\<forall>j\<in>set js. je_accountId j \<in> set (map acc_id as))
     \<and> distinct (map je_hash js)"

definition balanced :: "'s wallet \<Rightarrow> bool" where
  "balanced w \<longleftrightarrow> books (accounts w) (journals w)"

definition ledger_ok :: "'s wallet \<Rightarrow> bool" where
  "ledger_ok w \<longleftrightarrow> balanced w \<and> totalJournal w = 0"

lemma ledger_ok_cong:
  "accounts w' = accounts w \<Longrightarrow> journals w' = journals w \<Longrightarrow> ledger_ok w' = ledger_ok w"
  by (simp add: ledger_ok_def balanced_def totalJournal_def)

lemma reconcile_empty: "balanced w \<Longrightarrow> reconcile w = []"
  by (simp add: balanced_def books_def reconcile_def concat_eq_Nil_conv)

lemma sum_accounts:
  assumes "distinct (map acc_id as)" "\<forall>j\<in>set js. je_accountId j \<in> acc_id ` set as"
  shows "(\<Sum>a\<leftarrow>as. journal_sum (acc_id a) js) = sum_list (map je_amount js)"
  using assms(2)
proof (induction js)
  case Nil
  then show ?case by (simp add: journal_sum_def)
next
  case (Cons j js)
  have one: "(\<Sum>a\<leftarrow>as. if acc_id a = x then v else 0) = v" if "x \<in> acc_id ` set as" for x and v :: int
    using assms(1) that
  proof (induction as)
    case Nil
    then show ?case by simp
  next
    case (Cons a as)
    have "(\<Sum>a\<leftarrow>as. if acc_id a = x then v else 0) = 0" if "x \<notin> acc_id ` set as"
      using that by (induction as) auto
    then show ?case using Cons by auto
  qed
  have "journal_sum i (j # js) = journal_sum i js + (if i = je_accountId j then je_amount j else 0)" for i
    by (auto simp: journal_sum_def)
  then have "(\<Sum>a\<leftarrow>as. journal_sum (acc_id a) (j # js))
      = (\<Sum>a\<leftarrow>as. journal_sum (acc_id a) js) + (\<Sum>a\<leftarrow>as. if acc_id a = je_accountId j then je_amount j else 0)"
    by (simp add: sum_list_addf)
  then show ?case
    using Cons one [of "je_accountId j" "je_amount j"] by simp
qed

lemma totals_agree: "balanced w \<Longrightarrow> totalBalance w = totalJournal w"
proof -
  assume b: "balanced w"
  have "totalBalance w = (\<Sum>a\<leftarrow>accounts w. journal_sum (acc_id a) (journals w))"
    unfolding totalBalance_def
    by (rule arg_cong [where f = sum_list]) (use b in \<open>simp add: balanced_def books_def\<close>)
  then show ?thesis
    using b sum_accounts [of "accounts w" "journals w"] by (simp add: balanced_def books_def totalJournal_def)
qed

section \<open>Recording\<close>

lemma wp_db_transaction [wp_simps]:
  "wp (db_transaction m) Q E w
   = wp m Q (\<lambda>w'. E (w'\<lparr>accounts := accounts w, journals := journals w, settlements := settlements w,
       disbursements := disbursements w, pendingDeposits := pendingDeposits w\<rparr>)) w"
  by (simp add: wp_def db_transaction_def split: prod.splits sum.splits)

text \<open>Balances are all that recording changes in the accounts; disbursements and deposits stay.\<close>

abbreviation no_balance :: "account \<Rightarrow> account" where
  "no_balance a \<equiv> a\<lparr>acc_balance := 0\<rparr>"

definition same_accounts :: "'s wallet \<Rightarrow> 's wallet \<Rightarrow> bool" where
  "same_accounts w w' \<longleftrightarrow> map no_balance (accounts w') = map no_balance (accounts w)
     \<and> disbursements w' = disbursements w \<and> pendingDeposits w' = pendingDeposits w"

lemma same_accounts_refl [simp]: "same_accounts w w"
  by (simp add: same_accounts_def)

lemma same_accounts_trans: "same_accounts w w' \<Longrightarrow> same_accounts w' w'' \<Longrightarrow> same_accounts w w''"
  by (simp add: same_accounts_def)

lemma same_accounts_ids: "same_accounts w w' \<Longrightarrow> map acc_id (accounts w') = map acc_id (accounts w)"
  "same_accounts w w' \<Longrightarrow> map acc_name (accounts w') = map acc_name (accounts w)"
  by (rule map_frame [where u = no_balance]; simp add: same_accounts_def)+

lemma unique_row:
  assumes "distinct (map acc_id as)" "a \<in> set as" "b \<in> set as" "acc_id a = acc_id b"
  shows "a = b"
  using assms by (metis distinct_map inj_onD)

lemma save_snapshot:
  assumes "distinct (map acc_id as)" "a \<in> set as"
  shows "map (\<lambda>b. if acc_id b = acc_id a then f a else b) as
       = map (\<lambda>b. if acc_id b = acc_id a then f b else b) as"
proof (rule map_cong [OF refl])
  fix b assume "b \<in> set as"
  then show "(if acc_id b = acc_id a then f a else b) = (if acc_id b = acc_id a then f b else b)"
    using unique_row [OF assms(1) _ assms(2)] by metis
qed

abbreviation add_balance :: "string \<Rightarrow> int \<Rightarrow> account list \<Rightarrow> account list" where
  "add_balance i n as \<equiv> map (\<lambda>b. if acc_id b = i then b\<lparr>acc_balance := acc_balance b + n\<rparr> else b) as"

lemma add_balance_frame: "map acc_id (add_balance i n as) = map acc_id as"
  "map no_balance (add_balance i n as) = map no_balance as"
  by simp_all

lemma journal_sum_snoc:
  "journal_sum i (js @ [j]) = journal_sum i js + (if je_accountId j = i then je_amount j else 0)"
  by (simp add: journal_sum_def)

lemma books_step:
  assumes "books as js" "je_accountId j \<in> set (map acc_id as)" "je_hash j \<notin> je_hash ` set js"
  shows "books (add_balance (je_accountId j) (je_amount j) as) (js @ [j])"
  unfolding books_def add_balance_frame
proof (intro conjI)
  show "\<forall>a\<in>set (add_balance (je_accountId j) (je_amount j) as).
      journal_sum (acc_id a) (js @ [j]) = acc_balance a"
  proof
    fix a assume "a \<in> set (add_balance (je_accountId j) (je_amount j) as)"
    then obtain b where "b \<in> set as"
      "a = (if acc_id b = je_accountId j then b\<lparr>acc_balance := acc_balance b + je_amount j\<rparr> else b)"
      by (auto simp only: set_map)
    then show "journal_sum (acc_id a) (js @ [j]) = acc_balance a"
      using assms(1) by (cases "acc_id b = je_accountId j") (auto simp: books_def journal_sum_snoc)
  qed
qed (use assms in \<open>simp_all add: books_def\<close>)

lemma record_entry_run:
  assumes "balanced w" "mv_account e \<in> set (accounts w)"
  obtains (fail) w' where "record_entry env refType refId txn status e w = (Inl UniqueViolation, w')"
     "buildHash env refType refId (acc_id (mv_account e)) (mv_amount e) \<in> je_hash ` set (journals w)"
  | (ok) j where "record_entry env refType refId txn status e w
       = (Inr (), w\<lparr>uuids := uuids w + 1, journals := journals w @ [j],
            accounts := add_balance (acc_id (mv_account e)) (mv_amount e) (accounts w)\<rparr>)"
     "je_accountId j = acc_id (mv_account e)" "je_amount j = mv_amount e"
     "je_hash j = buildHash env refType refId (acc_id (mv_account e)) (mv_amount e)"
     "je_hash j \<notin> je_hash ` set (journals w)"
proof -
  let ?a = "mv_account e" and ?n = "mv_amount e"
  have as: "map (\<lambda>b. if acc_id b = acc_id ?a then ?a\<lparr>acc_balance := acc_balance ?a + ?n\<rparr> else b) (accounts w)
      = add_balance (acc_id ?a) ?n (accounts w)"
    using assms by (intro save_snapshot [where f = "\<lambda>a. a\<lparr>acc_balance := acc_balance a + ?n\<rparr>"])
      (simp_all add: balanced_def books_def)
  define j where "j = \<lparr>je_id = uuid env (uuids w), je_accountId = acc_id ?a, je_amount = ?n,
     je_currency = acc_currency ?a, je_refType = refType, je_refId = refId,
     je_hash = buildHash env refType refId (acc_id ?a) ?n,
     je_providerTxnId = txn, je_providerStatus = status, je_createdAt = now_ms env\<rparr>"
  show ?thesis
  proof (cases "je_hash j \<in> je_hash ` set (journals w)")
    case True
    then have "buildHash env refType refId (acc_id ?a) ?n \<in> je_hash ` set (journals w)"
      by (simp add: j_def)
    then show ?thesis
      by (intro fail [of "w\<lparr>uuids := uuids w + 1\<rparr>"])
        (simp_all add: record_entry_def randomUUID_def insert_journal_def run_simps bnd_assoc seq_def
          raise_if_def flip: j_def)
  next
    case False
    then have "buildHash env refType refId (acc_id ?a) ?n \<notin> je_hash ` set (journals w)"
      by (simp add: j_def)
    then show ?thesis
      by (intro ok [of j])
        (simp_all add: record_entry_def randomUUID_def insert_journal_def save_account_def run_simps
          bnd_assoc seq_def raise_if_def as flip: j_def, simp_all add: j_def)
  qed
qed

lemma record_entry_fresh:
  assumes "balanced w" "mv_account e \<in> set (accounts w)"
    and "buildHash env refType refId (acc_id (mv_account e)) (mv_amount e) \<notin> je_hash ` set (journals w)"
  obtains j where "record_entry env refType refId txn status e w
       = (Inr (), w\<lparr>uuids := uuids w + 1, journals := journals w @ [j],
            accounts := add_balance (acc_id (mv_account e)) (mv_amount e) (accounts w)\<rparr>)"
     "je_accountId j = acc_id (mv_account e)" "je_amount j = mv_amount e"
     "je_hash j = buildHash env refType refId (acc_id (mv_account e)) (mv_amount e)"
  using assms(1,2)
  by (cases rule: record_entry_run [where env = env and refType = refType and refId = refId
        and txn = txn and status = status]) (use assms(3) that in blast)+

text \<open>The movements of one call: copies of current rows, of different accounts.\<close>

definition current :: "movement list \<Rightarrow> 's wallet \<Rightarrow> bool" where
  "current es w \<longleftrightarrow> (\<forall>e\<in>set es. mv_account e \<in> set (accounts w))
     \<and> distinct (map (acc_id \<circ> mv_account) es)"

lemma current_cong: "accounts w' = accounts w \<Longrightarrow> current es w' = current es w"
  by (simp add: current_def)

lemma record_entries:
  assumes "balanced w" "current es w"
  shows "wp (each (record_entry env refType refId txn status) es)
     (\<lambda>_ w'. balanced w' \<and> totalJournal w' = totalJournal w + sum_list (map mv_amount es) \<and> same_accounts w w')
     (\<lambda>_. True) w"
proof -
  define I where "I = (\<lambda>rest w'. balanced w' \<and> current rest w' \<and> same_accounts w w'
     \<and> totalJournal w' + sum_list (map mv_amount rest) = totalJournal w + sum_list (map mv_amount es))"
  have "wp (each (record_entry env refType refId txn status) es) (\<lambda>_. I []) (\<lambda>_. True) w"
  proof (rule wp_each)
    show "I es w" using assms by (simp add: I_def)
    fix e rest w1
    assume I: "I (e # rest) w1"
    then have b: "balanced w1" "mv_account e \<in> set (accounts w1)"
      by (simp_all add: I_def current_def)
    from b show "wp (record_entry env refType refId txn status e) (\<lambda>_. I rest) (\<lambda>_. True) w1"
    proof (cases rule: record_entry_run [where env = env and refType = refType and refId = refId
          and txn = txn and status = status])
      case (fail w')
      then show ?thesis by (simp add: wp_def)
    next
      case (ok j)
      let ?as = "add_balance (acc_id (mv_account e)) (mv_amount e) (accounts w1)"
      have "books ?as (journals w1 @ [j])"
        using books_step [of "accounts w1" "journals w1" j, unfolded ok(2,3)] b ok(5)
        by (simp add: balanced_def)
      moreover have "mv_account r \<in> set ?as" if "r \<in> set rest" for r
      proof -
        have "acc_id (mv_account r) \<noteq> acc_id (mv_account e)" "mv_account r \<in> set (accounts w1)"
          using I that by (auto simp: I_def current_def image_iff)
        then show ?thesis by (force simp: image_iff)
      qed
      moreover have "map no_balance ?as = map no_balance (accounts w)" "disbursements w1 = disbursements w"
        "pendingDeposits w1 = pendingDeposits w"
        using I by (simp_all only: add_balance_frame I_def same_accounts_def)
      ultimately show ?thesis
        using I ok(3) unfolding wp_def ok(1)
        by (simp add: I_def balanced_def current_def same_accounts_def totalJournal_def)
    qed
  qed
  then show ?thesis
    by (rule wp_mono) (simp_all add: I_def)
qed

lemma emit_frame [simp]: "accounts (snd (emit e w)) = accounts w" "journals (snd (emit e w)) = journals w"
  by (simp_all add: emit_def run_simps)

text \<open>What the notifications leave alone.\<close>

lemma keeps_tables:
  assumes "\<And>w f. P (w\<lparr>outbox := f\<rparr>) = P w"
  shows "keeps P (each (notify_entry env refType refId) es)"
  by (intro keeps_intros) (simp add: notify_entry_def Let_def emit_def keeps_wp wp_simps assms)

lemma record_movements_ok:
  assumes "ledger_ok w" "current es w"
  shows "wp (record_movements env refType refId es txn status)
     (\<lambda>_ w'. ledger_ok w' \<and> same_accounts w w') (\<lambda>w'. ledger_ok w' \<and> same_accounts w w') w"
proof -
  let ?P = "\<lambda>w'. ledger_ok w' \<and> same_accounts w w'"
  have *: "wp (each (notify_entry env refType refId) es) (\<lambda>_. ?P) ?P w'" if "?P w'" for w'
    by (rule wp_keeps [OF keeps_tables])
      (use that in \<open>simp_all add: ledger_ok_def balanced_def totalJournal_def same_accounts_def\<close>)
  have "wp (each (record_entry env refType refId txn status) es) (\<lambda>_. ?P)
      (\<lambda>w'. ?P (w'\<lparr>accounts := accounts w, journals := journals w, settlements := settlements w,
         disbursements := disbursements w, pendingDeposits := pendingDeposits w\<rparr>)) w"
    if "sum_list (map mv_amount es) = 0"
    by (rule wp_mono [OF record_entries [OF _ assms(2)]])
      (use assms(1) that in \<open>auto simp: ledger_ok_def balanced_def totalJournal_def same_accounts_def\<close>)
  then show ?thesis
    using assms(1) by (auto simp: record_movements_def wp_simps intro: wp_mono *)
qed

section \<open>Reserve, commit, rollback\<close>

lemma wp_account_by [wp_simps]:
  "wp (account_by P) Q E w = (case List.find P (accounts w) of None \<Rightarrow> E w | Some a \<Rightarrow> Q a w)"
  by (simp add: account_by_def wp_simps)

lemma wp_emit [wp_simps]: "wp (emit e) Q E w = Q () (w\<lparr>outbox := outbox w @ [e]\<rparr>)"
  by (simp add: emit_def wp_simps)

lemma wp_randomUUID [wp_simps]: "wp (randomUUID env) Q E w = Q (uuid env (uuids w)) (w\<lparr>uuids := uuids w + 1\<rparr>)"
  by (simp add: randomUUID_def wp_simps)

definition system_name :: "string \<Rightarrow> bool" where
  "system_name n \<longleftrightarrow> n \<in> {''reserve'', ''house'', ''prize'', ''rake''}"

text \<open>\<open>i\<close> is not the identifier of one of the four system accounts.\<close>

definition is_user :: "'s wallet \<Rightarrow> string \<Rightarrow> bool" where
  "is_user w i \<longleftrightarrow> (\<forall>a\<in>set (accounts w). acc_id a = i \<longrightarrow> \<not> system_name (acc_name a))"

lemma is_user_map:
  "is_user w i \<longleftrightarrow> (\<forall>(x, n)\<in>set (map (\<lambda>a. (acc_id a, acc_name a)) (accounts w)). x = i \<longrightarrow> \<not> system_name n)"
  by (auto simp: is_user_def)

lemma is_user_same:
  assumes "same_accounts w w'"
  shows "is_user w' i = is_user w i"
proof -
  have "map (\<lambda>a. (acc_id a, acc_name a)) (accounts w') = map (\<lambda>a. (acc_id a, acc_name a)) (accounts w)"
    by (rule map_frame [where u = no_balance]) (use assms in \<open>simp_all add: same_accounts_def\<close>)
  then show ?thesis by (simp only: is_user_map)
qed

lemma rows:
  assumes "List.find P (accounts w) = Some a"
  shows "a \<in> set (accounts w)" "P a"
  using find_Some_nth [OF assms] by simp_all

lemma other_names: "acc_name a \<noteq> acc_name b \<Longrightarrow> a \<in> set (accounts w) \<Longrightarrow> b \<in> set (accounts w) \<Longrightarrow> balanced w
    \<Longrightarrow> acc_id a \<noteq> acc_id b"
  unfolding balanced_def books_def using unique_row by metis

abbreviation steady :: "'s wallet \<Rightarrow> 's wallet \<Rightarrow> bool" where
  "steady w w' \<equiv> ledger_ok w' \<and> same_accounts w w'"

lemma ledger_balanced: "ledger_ok w \<Longrightarrow> balanced w"
  by (simp add: ledger_ok_def)

text \<open>A movement between a user and a system account, and one between system accounts.\<close>

lemma current_user:
  assumes "ledger_ok w" "is_user w i"
    and "List.find (by_id_currency i cur) (accounts w) = Some user"
    and "List.find (by_name_currency n cur') (accounts w) = Some sys" "system_name n"
  shows "current [\<lparr>mv_account = user, mv_amount = x\<rparr>, \<lparr>mv_account = sys, mv_amount = y\<rparr>] w"
    "current [\<lparr>mv_account = sys, mv_amount = y\<rparr>, \<lparr>mv_account = user, mv_amount = x\<rparr>] w"
proof -
  have "acc_id user \<noteq> acc_id sys"
    using rows [OF assms(3)] rows [OF assms(4)] assms(2,5)
    by (auto simp: by_id_currency_def by_name_currency_def is_user_def)
  then show "current [\<lparr>mv_account = user, mv_amount = x\<rparr>, \<lparr>mv_account = sys, mv_amount = y\<rparr>] w"
    "current [\<lparr>mv_account = sys, mv_amount = y\<rparr>, \<lparr>mv_account = user, mv_amount = x\<rparr>] w"
    using rows [OF assms(3)] rows [OF assms(4)] by (auto simp: current_def)
qed

lemma record_steady:
  assumes "steady w w1" "current es w1"
  shows "wp (record_movements env refType refId es txn status) (\<lambda>_. steady w) (steady w) w1"
  by (rule wp_mono [OF record_movements_ok [OF conjunct1 [OF assms(1)] assms(2)]])
    (use assms(1) in \<open>auto intro: same_accounts_trans\<close>)

lemma steady_refl: "ledger_ok w \<Longrightarrow> steady w w"
  by simp

lemma wp_insert_settlement [wp_simps]:
  "wp (insert_settlement env k) Q E w
   = Q () ((\<lambda>w. if k \<in> sj_idempotencyKey ` set (settlements w) then w
        else w\<lparr>settlements := settlements w @ [\<lparr>sj_id = uuid env (uuids w - 1), sj_idempotencyKey = k, sj_status = Reserved\<rparr>]\<rparr>)
      (w\<lparr>uuids := uuids w + 1\<rparr>))"
  by (simp add: insert_settlement_def wp_simps)

lemma wallet_reserve_ok:
  assumes "ledger_ok w" "is_user w accountId"
  shows "wp (wallet_reserve env accountId amount refId currency key) (\<lambda>_. steady w) (steady w) w"
proof -
  have "wp (record_movements env ''reserve'' refId
            [\<lparr>mv_account = user, mv_amount = - amount\<rparr>, \<lparr>mv_account = rsv, mv_amount = amount\<rparr>] None None)
          (\<lambda>_. steady w) (steady w) w1"
    if "List.find (by_id_currency accountId currency) (accounts w) = Some user"
      "List.find (by_name_currency ''reserve'' currency) (accounts w) = Some rsv"
      "accounts w1 = accounts w" "steady w w1" for user rsv w1
    using current_user(1) [OF assms that(1,2)]
    by (intro record_steady that(4)) (simp add: system_name_def current_cong [OF that(3)])
  moreover have "steady w (w\<lparr>uuids := u\<rparr>)" "steady w (w\<lparr>uuids := u, settlements := f\<rparr>)" for u f
    using assms(1) by (simp_all add: same_accounts_def ledger_ok_def balanced_def totalJournal_def)
  ultimately show ?thesis
    using assms(1) by (auto simp: wallet_reserve_def wp_simps split: option.splits)
qed

lemma keeps_settlement_marks:
  assumes "\<And>w f. P (w\<lparr>settlements := f\<rparr>) = P w"
  shows "keeps P (cancel_key k)" "keeps P (mark_committed k)"
  by (auto simp: cancel_key_def cancel_by_key_def settlement_cancel_def mark_committed_def keeps_wp
      wp_simps assms split: list.splits option.splits)

lemma steady_settlements [simp]: "steady w (w1\<lparr>settlements := f\<rparr>) = steady w w1"
  by (simp add: same_accounts_def ledger_ok_def balanced_def totalJournal_def)

lemmas wp_settlement_marks = keeps_settlement_marks [OF steady_settlements, THEN wp_keeps]

lemma wallet_rollback_ok:
  assumes "ledger_ok w" "is_user w accountId"
  shows "wp (wallet_rollback env accountId amount refId currency key) (\<lambda>_. steady w) (steady w) w"
proof -
  have "wp (record_movements env ''rollback'' refId
            [\<lparr>mv_account = rsv, mv_amount = - amount\<rparr>, \<lparr>mv_account = user, mv_amount = amount\<rparr>] None None)
          (\<lambda>_. steady w) (steady w) w"
    if "List.find (by_id_currency accountId currency) (accounts w) = Some user"
      "List.find (by_name_currency ''reserve'' currency) (accounts w) = Some rsv" for user rsv
    using assms(1) current_user(2) [OF assms that]
    by (intro record_steady) (simp_all add: system_name_def)
  then show ?thesis
    using assms(1) by (auto simp: wallet_rollback_def wp_simps split: option.splits
        intro: wp_then [where R = "steady w"] wp_settlement_marks)
qed

lemma wallet_commit_ok:
  assumes "ledger_ok w"
  shows "wp (wallet_commit env refId amount rakeAmount currency key) (\<lambda>_. steady w) (steady w) w"
proof -
  have "wp (record_movements env ''commit'' refId
            [\<lparr>mv_account = rsv, mv_amount = - amount\<rparr>, \<lparr>mv_account = prize, mv_amount = amount - rakeAmount\<rparr>,
             \<lparr>mv_account = rakeAcc, mv_amount = rakeAmount\<rparr>] None None)
          (\<lambda>_. steady w) (steady w) w"
    if "List.find (by_name_currency ''reserve'' currency) (accounts w) = Some rsv"
      "List.find (by_name_currency ''prize'' currency) (accounts w) = Some prize"
      "List.find (by_name_currency ''rake'' currency) (accounts w) = Some rakeAcc" for rsv prize rakeAcc
  proof (rule record_steady [OF steady_refl [OF assms]])
    note r = rows [OF that(1)] rows [OF that(2)] rows [OF that(3)]
    have "acc_id rsv \<noteq> acc_id prize" "acc_id rsv \<noteq> acc_id rakeAcc" "acc_id prize \<noteq> acc_id rakeAcc"
      using r other_names [OF _ _ _ ledger_balanced [OF assms]] by (auto simp: by_name_currency_def)
    then show "current [\<lparr>mv_account = rsv, mv_amount = - amount\<rparr>, \<lparr>mv_account = prize, mv_amount = amount - rakeAmount\<rparr>,
             \<lparr>mv_account = rakeAcc, mv_amount = rakeAmount\<rparr>] w"
      using r by (auto simp: current_def)
  qed
  then show ?thesis
    using assms by (auto simp: wallet_commit_def wp_simps split: option.splits
        intro: wp_then [where R = "steady w"] wp_settlement_marks)
qed

end
