(* ===== verification/Wallet.thy ===== *)
theory Wallet
  imports LedgerInv
begin

text \<open>
  The rest of \<open>backend/src/wallet/wallet.service.ts\<close>: provider callbacks, disbursements,
  velocity and daily limits, deposits and withdrawals with their idempotency locks, bank transfers
  and pending deposits, reports, administration; and
  \<open>backend/src/wallet/chargeback.service.ts\<close> and
  \<open>backend/src/wallet/bank-reconciliation.service.ts\<close>.
\<close>

section \<open>Redis commands of the service\<close>

definition rget :: "'s wallet_env \<Rightarrow> string \<Rightarrow> ('s, rtext option) wact" where
  "rget env key = gets (\<lambda>w. r_get (client env) key (store w))"

definition rset :: "'s wallet_env \<Rightarrow> string \<Rightarrow> rtext \<Rightarrow> nat \<Rightarrow> bool \<Rightarrow> ('s, bool) wact" where
  "rset env key v ex nx w =
     (case setWithOptions (client env) (now_ms env) key v (Some (Some ex, nx)) (store w) of
        (ok, s) \<Rightarrow> (Inr ok, w\<lparr>store := s\<rparr>))"

definition rdel :: "'s wallet_env \<Rightarrow> string \<Rightarrow> ('s, unit) wact" where
  "rdel env key = upd (\<lambda>w. w\<lparr>store := r_del (client env) key (store w)\<rparr>)"

definition rincrby :: "'s wallet_env \<Rightarrow> string \<Rightarrow> int \<Rightarrow> ('s, int) wact" where
  "rincrby env key n w =
     (case r_incrby (client env) key n (store w) of
        (None, s) \<Rightarrow> (Inl RedisFailed, w\<lparr>store := s\<rparr>)
      | (Some c, s) \<Rightarrow> (Inr c, w\<lparr>store := s\<rparr>))"

definition rexpire :: "'s wallet_env \<Rightarrow> string \<Rightarrow> nat \<Rightarrow> ('s, bool) wact" where
  "rexpire env key ttl w =
     (case r_expire (client env) (now_ms env) key ttl (store w) of (ok, s) \<Rightarrow> (Inr ok, w\<lparr>store := s\<rparr>))"

section \<open>Dates\<close>

text \<open>\<open>toISOString().slice(0, 10)\<close>: the civil date of a time in milliseconds.\<close>

definition pad :: "nat \<Rightarrow> string \<Rightarrow> string" where
  "pad n s = replicate (n - length s) (CHR ''0'') @ s"

definition date_key :: "nat \<Rightarrow> string" where
  "date_key ms =
     (let z = ms div 86400000 + 719468;
          era = z div 146097;
          doe = z mod 146097;
          yoe = (doe - doe div 1460 + doe div 36524 - doe div 146096) div 365;
          doy = doe - (365 * yoe + yoe div 4 - yoe div 100);
          mp = (5 * doy + 2) div 153;
          d = doy - (153 * mp + 2) div 5 + 1;
          m = (if mp < 10 then mp + 3 else mp - 9);
          y = yoe + era * 400 + (if m \<le> 2 then 1 else 0)
      in pad 4 (nat_digits y) @ ''-'' @ pad 2 (nat_digits m) @ ''-'' @ pad 2 (nat_digits d))"

definition secs_to_midnight :: "nat \<Rightarrow> nat" where
  "secs_to_midnight ms = ((86400000 - ms mod 86400000) + 999) div 1000"

section \<open>Disbursements and provider callbacks\<close>

definition disb_by_id :: "string \<Rightarrow> ('s, disbursement) wact" where
  "disb_by_id i = bnd (gets (\<lambda>w. List.find (\<lambda>d. d_id d = i) (disbursements w))) (orFail EntityNotFound)"

definition requestDisbursement :: "'s wallet_env \<Rightarrow> string \<Rightarrow> string \<Rightarrow> ('s, unit) wact" where
  "requestDisbursement env i currency =
     bnd (disb_by_id i) (\<lambda>disb.
     bnd (account_by (by_id_currency (d_accountId disb) currency)) (\<lambda>account.
     seq (raise_if (\<not> kycValidate env account) KycInvalid)
         (emit (DisbursementRequest (d_id disb) (d_accountId disb) (d_amount disb) currency
                  (d_idempotencyKey disb)))))"

definition enqueueDisbursement :: "'s wallet_env \<Rightarrow> string \<Rightarrow> string \<Rightarrow> ('s, unit) wact" where
  "enqueueDisbursement env i currency =
     (if \<not> queueConnected env then requestDisbursement env i currency
      else upd (\<lambda>w. w\<lparr>payoutJobs := payoutJobs w @ [(i, currency)]\<rparr>))"

definition refundDisbursement :: "'s wallet_env \<Rightarrow> disbursement \<Rightarrow> ('s, unit) wact" where
  "refundDisbursement env disb =
     bnd (account_by (\<lambda>a. acc_id a = d_accountId disb)) (\<lambda>account.
     bnd (account_by (by_name_currency ''house'' (acc_currency account))) (\<lambda>house.
       record_movements env ''withdraw_reject'' (d_id disb)
         [\<lparr>mv_account = house, mv_amount = - d_amount disb\<rparr>, \<lparr>mv_account = account, mv_amount = d_amount disb\<rparr>]
         None None))"

record wallet_status =
  ws_kycVerified :: bool
  ws_denialReason :: "string option"
  ws_realBalance :: int
  ws_creditBalance :: int
  ws_currency :: string

definition status :: "'s wallet_env \<Rightarrow> string \<Rightarrow> ('s, wallet_status) wact" where
  "status env accountId =
     bnd (account_by (\<lambda>a. acc_id a = accountId)) (\<lambda>account.
       ret \<lparr>ws_kycVerified = acc_kycVerified account, ws_denialReason = kycDenialReason env accountId,
            ws_realBalance = acc_balance account - acc_creditBalance account,
            ws_creditBalance = acc_creditBalance account, ws_currency = acc_currency account\<rparr>)"

definition retryPendingPayouts :: "'s wallet_env \<Rightarrow> ('s, unit) wact" where
  "retryPendingPayouts env =
     bnd (gets (\<lambda>w. filter (\<lambda>d. d_status d = DPending) (disbursements w))) (\<lambda>pending.
       each (\<lambda>disb.
         bnd (account_by (\<lambda>a. acc_id a = d_accountId disb)) (\<lambda>account.
           enqueueDisbursement env (d_id disb) (acc_currency account))) pending)"

definition isDuplicateWebhook :: "'s wallet_env \<Rightarrow> string \<Rightarrow> ('s, bool) wact" where
  "isDuplicateWebhook env eventId =
     bnd (rset env (''wallet:webhook:'' @ eventId) (Raw ''1'') (60 * 60 * 24) True) (\<lambda>stored. ret (\<not> stored))"

definition challengeKey :: "string \<Rightarrow> string" where
  "challengeKey i = ''wallet:3ds:'' @ i"

datatype provider_status = Approved | Risky | Chargeback

definition provider_status_text :: "provider_status \<Rightarrow> string" where
  "provider_status_text s = (case s of Approved \<Rightarrow> ''approved'' | Risky \<Rightarrow> ''risky'' | Chargeback \<Rightarrow> ''chargeback'')"

record provider_callback =
  pc_eventId :: string
  pc_idempotencyKey :: string
  pc_providerTxnId :: string
  pc_status :: provider_status

record challenge =
  ch_op :: wallet_op
  ch_accountId :: string
  ch_amount :: int
  ch_currency :: string
  ch_deviceId :: "string option"

definition op_text :: "wallet_op \<Rightarrow> string" where
  "op_text x = (case x of DepositOp \<Rightarrow> ''deposit'' | WithdrawOp \<Rightarrow> ''withdraw'')"

definition encode_challenge :: "challenge \<Rightarrow> rtext" where
  "encode_challenge c = Json (JObj
     ([(''op'', JStr (op_text (ch_op c))), (''accountId'', JStr (ch_accountId c)),
       (''amount'', JNum (ch_amount c)), (''currency'', JStr (ch_currency c))]
      @ (case ch_deviceId c of None \<Rightarrow> [] | Some d \<Rightarrow> [(''deviceId'', JStr d)])))"

definition decode_challenge :: "rtext \<Rightarrow> challenge option" where
  "decode_challenge t =
     (case t of
        Json (JObj fs) \<Rightarrow>
          (case (map_of fs ''op'', map_of fs ''accountId'', map_of fs ''amount'', map_of fs ''currency'') of
             (Some (JStr x), Some (JStr a), Some (JNum n), Some (JStr cur)) \<Rightarrow>
               (if x = ''deposit'' \<or> x = ''withdraw''
                then Some \<lparr>ch_op = (if x = ''deposit'' then DepositOp else WithdrawOp), ch_accountId = a,
                       ch_amount = n, ch_currency = cur,
                       ch_deviceId = (case map_of fs ''deviceId'' of Some (JStr d) \<Rightarrow> Some d | _ \<Rightarrow> None)\<rparr>
                else None)
           | _ \<Rightarrow> None)
      | _ \<Rightarrow> None)"

subsection \<open>Chargeback monitor\<close>

definition cb_accKey :: "string \<Rightarrow> string" where "cb_accKey i = ''wallet:cb:a:'' @ i"

definition cb_devKey :: "string \<Rightarrow> string" where "cb_devKey i = ''wallet:cb:d:'' @ i"

definition cb_record :: "'s wallet_env \<Rightarrow> string \<Rightarrow> string \<Rightarrow> ('s, unit) wact" where
  "cb_record env accountId deviceId =
     bnd (randomUUID env) (\<lambda>i.
       let now = now_ms env; member = nat_digits now @ '':'' @ i;
           ttl = nat ((cbWindowMs env + 999) div 1000)
       in seq (upd (\<lambda>w. w\<lparr>store := r_zadd (client env) (cb_accKey accountId) (int now) member (store w)\<rparr>))
         (seq (upd (\<lambda>w. w\<lparr>store := r_zadd (client env) (cb_devKey deviceId) (int now) member (store w)\<rparr>))
         (seq (rexpire env (cb_accKey accountId) ttl)
              (bnd (rexpire env (cb_devKey deviceId) ttl) (\<lambda>_. ret ())))))"

record cb_result =
  cb_flagged :: bool
  cb_accountCount :: nat
  cb_deviceCount :: nat

definition cb_check :: "'s wallet_env \<Rightarrow> string \<Rightarrow> string \<Rightarrow> ('s, cb_result) wact" where
  "cb_check env accountId deviceId =
     (let cutoff = int (now_ms env) - cbWindowMs env
      in seq (upd (\<lambda>w. w\<lparr>store := r_zremrangebyscore (client env) (cb_accKey accountId) 0 cutoff (store w)\<rparr>))
        (seq (upd (\<lambda>w. w\<lparr>store := r_zremrangebyscore (client env) (cb_devKey deviceId) 0 cutoff (store w)\<rparr>))
        (gets (\<lambda>w. let a = length (r_zmembers (client env) (cb_accKey accountId) (store w));
                       d = length (r_zmembers (client env) (cb_devKey deviceId) (store w))
                   in \<lparr>cb_flagged = (a \<ge> cbAccountLimit env \<or> d \<ge> cbDeviceLimit env),
                       cb_accountCount = a, cb_deviceCount = d\<rparr>))))"

subsection \<open>Callbacks\<close>

definition insert_disbursement :: "'s wallet_env \<Rightarrow> string \<Rightarrow> int \<Rightarrow> ('s, string) wact" where
  "insert_disbursement env accountId amount =
     bnd (randomUUID env) (\<lambda>i.
     bnd (randomUUID env) (\<lambda>key.
     seq (upd (\<lambda>w. w\<lparr>disbursements := disbursements w @
            [\<lparr>d_id = i, d_accountId = accountId, d_amount = amount, d_idempotencyKey = key, d_status = DPending,
              d_completedAt = None, d_providerRef = None, d_createdAt = now_ms env\<rparr>]\<rparr>))
         (ret i)))"

definition settle_challenge :: "'s wallet_env \<Rightarrow> provider_callback \<Rightarrow> challenge \<Rightarrow> ('s, unit) wact" where
  "settle_challenge env event c =
     (let amount = ch_amount c; txn = Some (pc_providerTxnId event);
          st = Some (provider_status_text (pc_status event))
      in bnd (account_by (by_id_currency (ch_accountId c) (ch_currency c))) (\<lambda>user.
         bnd (account_by (by_name_currency ''house'' (ch_currency c))) (\<lambda>house.
         bnd (randomUUID env) (\<lambda>ref.
           case ch_op c of
             DepositOp \<Rightarrow>
               if pc_status event = Approved
               then record_movements env ''deposit'' ref
                      [\<lparr>mv_account = house, mv_amount = - amount\<rparr>, \<lparr>mv_account = user, mv_amount = amount\<rparr>] txn st
               else if pc_status event = Chargeback
               then (case ch_deviceId c of None \<Rightarrow> ret ()
                     | Some d \<Rightarrow> do_when (d \<noteq> []) (cb_record env (ch_accountId c) d))
               else ret ()
           | WithdrawOp \<Rightarrow>
               do_when (pc_status event = Approved)
                 (seq (record_movements env ''withdraw'' ref
                         [\<lparr>mv_account = user, mv_amount = - amount\<rparr>, \<lparr>mv_account = house, mv_amount = amount\<rparr>] txn st)
                 (bnd (insert_disbursement env (ch_accountId c) amount) (\<lambda>i.
                    enqueueDisbursement env i (ch_currency c))))))))"

definition confirm3DS :: "'s wallet_env \<Rightarrow> provider_callback \<Rightarrow> ('s, unit) wact" where
  "confirm3DS env event =
     bnd (isDuplicateWebhook env (pc_eventId event)) (\<lambda>dup.
       if dup then ret ()
       else bnd (rget env (challengeKey (pc_providerTxnId event))) (\<lambda>stored.
         case stored of
           None \<Rightarrow> ret ()
         | Some t \<Rightarrow>
             if t = Raw [] then ret ()
             else seq (rdel env (challengeKey (pc_providerTxnId event)))
                  (bnd (orFail InvalidJson (decode_challenge t)) (settle_challenge env event))))"

definition save_disbursement :: "disbursement \<Rightarrow> ('s, unit) wact" where
  "save_disbursement d =
     upd (\<lambda>w. w\<lparr>disbursements := map (\<lambda>x. if d_id x = d_id d then d else x) (disbursements w)\<rparr>)"

definition processDisbursement ::
  "'s wallet_env \<Rightarrow> string \<Rightarrow> string \<Rightarrow> string \<Rightarrow> provider_status \<Rightarrow> ('s, unit) wact" where
  "processDisbursement env eventId key txn st =
     bnd (isDuplicateWebhook env eventId) (\<lambda>dup.
       if dup then ret ()
       else bnd (gets (\<lambda>w. List.find (\<lambda>d. d_idempotencyKey d = key) (disbursements w))) (\<lambda>found.
         case found of
           None \<Rightarrow> ret ()
         | Some disb \<Rightarrow>
             if d_status disb = DCompleted then ret ()
             else bnd (account_by (\<lambda>a. acc_id a = d_accountId disb)) (\<lambda>user.
                  bnd (account_by (by_name_currency ''house'' (acc_currency user))) (\<lambda>house.
                  seq (record_movements env ''payout'' (d_id disb) [\<lparr>mv_account = house, mv_amount = 0\<rparr>]
                         (Some txn) (Some (provider_status_text st)))
                      (if st = Approved
                       then save_disbursement (disb\<lparr>d_status := DCompleted,
                              d_completedAt := Some (now_ms env), d_providerRef := Some txn\<rparr>)
                       else enqueueDisbursement env (d_id disb) (acc_currency user))))))"

section \<open>Mismatch reports\<close>

definition acknowledgeMismatch :: "'s wallet_env \<Rightarrow> string \<Rightarrow> string \<Rightarrow> ('s, unit) wact" where
  "acknowledgeMismatch env account adminId =
     seq (upd (\<lambda>w. w\<lparr>acknowledgedMismatches :=
            AList.update account (adminId, now_ms env) (acknowledgedMismatches w)\<rparr>))
         (emit (MismatchResolved account adminId (now_ms env)))"

definition filterAcknowledgedMismatches :: "reconcile_row list \<Rightarrow> ('s, reconcile_row list) wact" where
  "filterAcknowledgedMismatches report =
     bnd (gets (\<lambda>w. filter (\<lambda>row. rr_account row \<notin> fst ` set (acknowledgedMismatches w)) report)) (\<lambda>filtered.
     seq (upd (\<lambda>w. w\<lparr>acknowledgedMismatches :=
            filter (\<lambda>(a, _). a \<in> rr_account ` set report) (acknowledgedMismatches w)\<rparr>))
         (ret filtered))"

section \<open>Limits\<close>

definition checkVelocity :: "'s wallet_env \<Rightarrow> wallet_op \<Rightarrow> string \<Rightarrow> string \<Rightarrow> ('s, unit) wact" where
  "checkVelocity env x deviceId ip =
     (let limit = 3; ttl = 60 * 60;
          ipKey = op_text x @ '':ip:'' @ ip;
          devKey = op_text x @ '':dev:'' @ deviceId
      in bnd (rincrby env ipKey 1) (\<lambda>ipCount.
         seq (do_when (ipCount = 1) (bnd (rexpire env ipKey ttl) (\<lambda>_. ret ())))
         (bnd (rincrby env devKey 1) (\<lambda>devCount.
         seq (do_when (devCount = 1) (bnd (rexpire env devKey ttl) (\<lambda>_. ret ())))
             (raise_if (ipCount > limit \<or> devCount > limit) RateLimitExceeded)))))"

definition dailyKey :: "'s wallet_env \<Rightarrow> wallet_op \<Rightarrow> string \<Rightarrow> string" where
  "dailyKey env x accountId = ''wallet:'' @ op_text x @ '':'' @ accountId @ '':'' @ date_key (now_ms env)"

definition enforceDailyLimit ::
  "'s wallet_env \<Rightarrow> wallet_op \<Rightarrow> string \<Rightarrow> int \<Rightarrow> string \<Rightarrow> ('s, unit) wact" where
  "enforceDailyLimit env x accountId amount currency =
     (let key = dailyKey env x accountId
      in bnd (rincrby env key amount) (\<lambda>total.
         seq (do_when (total = amount)
                (bnd (rexpire env key (secs_to_midnight (now_ms env))) (\<lambda>_. ret ())))
             (case dailyLimit env x of
                None \<Rightarrow> ret ()
              | Some limit \<Rightarrow>
                  do_when (total > limit)
                    (bnd (rincrby env key (- amount)) (\<lambda>_.
                     seq (emit (AntiCheatFlag accountId x amount total limit currency))
                         (raise DailyLimitExceeded))))))"

text \<open>One window of \<open>enforceVelocity\<close>: whatever fails after the increment, the increment is
  taken back once.\<close>

definition velocity_window ::
  "'s wallet_env \<Rightarrow> string \<Rightarrow> int \<Rightarrow> nat \<Rightarrow> int \<Rightarrow> (int \<Rightarrow> wallet_event) \<Rightarrow> ('s, unit) wact" where
  "velocity_window env key n ttl limit ev =
     (let undo = bnd (rincrby env key (- n)) (\<lambda>_. ret ())
      in bnd (on_error (rincrby env key n) undo) (\<lambda>count.
         seq (do_when (count = n)
                (bnd (rexpire env key ttl) (\<lambda>ok. do_when (\<not> ok) (seq undo (raise ExpiryFailed)))))
             (do_when (count > limit) (seq undo (seq (emit (ev count)) (raise VelocityLimitExceeded))))))"

definition velocity_key :: "wallet_op \<Rightarrow> string \<Rightarrow> string \<Rightarrow> string" where
  "velocity_key x accountId sfx = ''wallet:'' @ op_text x @ '':'' @ accountId @ '':'' @ sfx"

definition enforceVelocity :: "'s wallet_env \<Rightarrow> wallet_op \<Rightarrow> string \<Rightarrow> int \<Rightarrow> ('s, unit) wact" where
  "enforceVelocity env x accountId amount =
     seq (case hourlyCountLimit env x of
            None \<Rightarrow> ret ()
          | Some l \<Rightarrow> velocity_window env (velocity_key x accountId ''h:count'') 1 (60 * 60) l
                        (VelocityLimit accountId x ''count'' ''hour'' l))
    (seq (case hourlyAmountLimit env x of
            None \<Rightarrow> ret ()
          | Some l \<Rightarrow> velocity_window env (velocity_key x accountId ''h:amount'') amount (60 * 60) l
                        (VelocityLimit accountId x ''amount'' ''hour'' l))
         (case dailyCountLimit env x of
            None \<Rightarrow> ret ()
          | Some l \<Rightarrow> velocity_window env (velocity_key x accountId ''d:count'') 1 (24 * 60 * 60) l
                        (VelocityLimit accountId x ''count'' ''day'' l)))"

section \<open>Deposits and withdrawals\<close>

definition LOCK :: rtext where "LOCK = Raw ''LOCK''"

text \<open>A cached response: present, not empty and not the lock.\<close>

definition cached_response :: "rtext option \<Rightarrow> rtext option" where
  "cached_response v = (case v of None \<Rightarrow> None | Some t \<Rightarrow> if t = Raw [] \<or> t = LOCK then None else Some t)"

definition json_parse :: "rtext \<Rightarrow> ('s, json) wact" where
  "json_parse t = (case t of Json j \<Rightarrow> ret j | Raw _ \<Rightarrow> raise InvalidJson)"

text \<open>
  The idempotency frame of \<open>withdraw\<close>, \<open>deposit\<close> and \<open>initiateBankTransfer\<close>: return a
  cached response, or take the lock and run the body, whose response is cached; any exception
  deletes the key.
\<close>

definition idempotent :: "'s wallet_env \<Rightarrow> string option \<Rightarrow> ('s, json) wact \<Rightarrow> ('s, json) wact" where
  "idempotent env key body =
     (case key of
        None \<Rightarrow> body
      | Some k \<Rightarrow>
          if k = [] then body
          else let redisKey = ''wallet:idemp:'' @ k
               in on_error
                    (bnd (rget env redisKey) (\<lambda>existing.
                     case cached_response existing of
                       Some t \<Rightarrow> json_parse t
                     | None \<Rightarrow>
                         bnd (rset env redisKey LOCK 600 True) (\<lambda>lock.
                         if \<not> lock
                         then bnd (rget env redisKey) (\<lambda>cached.
                              case cached_response cached of
                                Some t \<Rightarrow> json_parse t
                              | None \<Rightarrow> raise DuplicateInProgress)
                         else bnd body (\<lambda>res.
                              bnd (rset env redisKey (Json res) 600 False) (\<lambda>_. ret res)))))
                    (rdel env redisKey))"

definition start_challenge ::
  "'s wallet_env \<Rightarrow> wallet_op \<Rightarrow> string \<Rightarrow> int \<Rightarrow> string \<Rightarrow> string option \<Rightarrow> ('s, json) wact" where
  "start_challenge env x accountId amount currency deviceId =
     bnd (orFail ProviderFailed (initiate3DS env accountId amount)) (\<lambda>i.
     bnd (rset env (challengeKey i)
            (encode_challenge \<lparr>ch_op = x, ch_accountId = accountId, ch_amount = amount,
               ch_currency = currency, ch_deviceId = deviceId\<rparr>) 600 False) (\<lambda>_.
       ret (JObj [(''id'', JStr i)])))"

definition withdraw_body ::
  "'s wallet_env \<Rightarrow> string \<Rightarrow> int \<Rightarrow> string \<Rightarrow> string \<Rightarrow> string \<Rightarrow> ('s, json) wact" where
  "withdraw_body env accountId amount deviceId ip currency =
     seq (raise_if (\<not> geoIsAllowed env ip) CountryNotAllowed)
    (bnd (account_by (by_id_currency accountId currency)) (\<lambda>user.
     seq (raise_if (\<not> kycIsVerified env accountId ip) KycRequired)
    (seq (raise_if (amount > 100000) AmlLimitExceeded)
    (seq (checkVelocity env WithdrawOp deviceId ip)
    (seq (enforceVelocity env WithdrawOp accountId amount)
    (seq (enforceDailyLimit env WithdrawOp accountId amount currency)
         (start_challenge env WithdrawOp accountId amount currency None)))))))"

definition withdraw ::
  "'s wallet_env \<Rightarrow> string \<Rightarrow> int \<Rightarrow> string \<Rightarrow> string \<Rightarrow> string \<Rightarrow> string option \<Rightarrow> ('s, json) wact" where
  "withdraw env accountId amount deviceId ip currency key =
     idempotent env key (withdraw_body env accountId amount deviceId ip currency)"

definition deposit_body ::
  "'s wallet_env \<Rightarrow> string \<Rightarrow> int \<Rightarrow> string \<Rightarrow> string \<Rightarrow> string \<Rightarrow> ('s, json) wact" where
  "deposit_body env accountId amount deviceId ip currency =
     seq (raise_if (\<not> geoIsAllowed env ip) CountryNotAllowed)
    (seq (checkVelocity env DepositOp deviceId ip)
    (seq (enforceVelocity env DepositOp accountId amount)
    (bnd (account_by (by_id_currency accountId currency)) (\<lambda>user.
     seq (raise_if (\<not> acc_kycVerified user) KycRequired)
    (seq (enforceDailyLimit env DepositOp accountId amount currency)
    (bnd (cb_check env accountId deviceId) (\<lambda>cb.
     seq (do_when (cb_flagged cb)
            (seq (emit (if cb_accountCount cb \<ge> cbAccountLimit env
                        then ChargebackFlag accountId deviceId (int (cb_accountCount cb)) (int (cbAccountLimit env))
                        else ChargebackFlag accountId deviceId (int (cb_deviceCount cb)) (int (cbDeviceLimit env))))
                 (raise ChargebackThresholdExceeded)))
         (start_challenge env DepositOp accountId amount currency (Some deviceId)))))))))"

definition deposit ::
  "'s wallet_env \<Rightarrow> string \<Rightarrow> int \<Rightarrow> string \<Rightarrow> string \<Rightarrow> string \<Rightarrow> string option \<Rightarrow> ('s, json) wact" where
  "deposit env accountId amount deviceId ip currency key =
     idempotent env key (deposit_body env accountId amount deviceId ip currency)"

section \<open>Reports\<close>

record txn_row =
  tr_id :: string
  tr_type :: string
  tr_amount :: int
  tr_currency :: string
  tr_status :: string
  tr_createdAt :: nat

record txn_report =
  rep_realBalance :: int
  rep_creditBalance :: int
  rep_transactions :: "txn_row list"

text \<open>\<open>ORDER BY createdAt DESC\<close> (rows of the same time in table order).\<close>

definition transactions :: "string \<Rightarrow> ('s, txn_report) wact" where
  "transactions accountId =
     bnd (gets (\<lambda>w. js_sort (\<lambda>a b. je_createdAt b \<le> je_createdAt a)
            (filter (\<lambda>j. je_accountId j = accountId) (journals w)))) (\<lambda>es.
     bnd (account_by (\<lambda>a. acc_id a = accountId)) (\<lambda>account.
       ret \<lparr>rep_realBalance = acc_balance account - acc_creditBalance account,
            rep_creditBalance = acc_creditBalance account,
            rep_transactions = map (\<lambda>e. \<lparr>tr_id = je_id e, tr_type = je_refType e, tr_amount = je_amount e,
              tr_currency = je_currency e,
              tr_status = (case je_providerStatus e of None \<Rightarrow> ''completed'' | Some s \<Rightarrow> s),
              tr_createdAt = je_createdAt e\<rparr>) es\<rparr>))"

definition disb_status_text :: "disbursement_status \<Rightarrow> string" where
  "disb_status_text s = (case s of DPending \<Rightarrow> ''pending'' | DCompleted \<Rightarrow> ''completed'')"

definition pending :: "string \<Rightarrow> ('s, txn_report) wact" where
  "pending accountId =
     bnd (gets (\<lambda>w. js_sort (\<lambda>a b. d_createdAt b \<le> d_createdAt a)
            (filter (\<lambda>d. d_accountId d = accountId \<and> d_status d = DPending) (disbursements w)))) (\<lambda>ds.
     bnd (account_by (\<lambda>a. acc_id a = accountId)) (\<lambda>account.
       ret \<lparr>rep_realBalance = acc_balance account - acc_creditBalance account,
            rep_creditBalance = acc_creditBalance account,
            rep_transactions = map (\<lambda>d. \<lparr>tr_id = d_id d, tr_type = ''withdraw'', tr_amount = d_amount d,
              tr_currency = acc_currency account, tr_status = disb_status_text (d_status d),
              tr_createdAt = d_createdAt d\<rparr>) ds\<rparr>))"

section \<open>Bank transfers and pending deposits\<close>

definition deposit_by_id :: "string \<Rightarrow> ('s, pending_deposit option) wact" where
  "deposit_by_id i = gets (\<lambda>w. List.find (\<lambda>d. pd_id d = i) (pendingDeposits w))"

definition save_deposit :: "pending_deposit \<Rightarrow> ('s, unit) wact" where
  "save_deposit d =
     upd (\<lambda>w. w\<lparr>pendingDeposits := map (\<lambda>x. if pd_id x = pd_id d then d else x) (pendingDeposits w)\<rparr>)"

definition markActionRequiredIfPending :: "string \<Rightarrow> string option \<Rightarrow> ('s, unit) wact" where
  "markActionRequiredIfPending i jobId =
     (let hit = (\<lambda>d. pd_id d = i \<and> pd_status d = PdPending \<and> \<not> pd_actionRequired d)
      in bnd (gets (\<lambda>w. filter hit (pendingDeposits w))) (\<lambda>affected.
         seq (upd (\<lambda>w. w\<lparr>pendingDeposits :=
                map (\<lambda>d. if hit d then d\<lparr>pd_actionRequired := True\<rparr> else d) (pendingDeposits w)\<rparr>))
         (do_when (affected \<noteq> [])
           (bnd (deposit_by_id i) (\<lambda>found.
            case found of
              None \<Rightarrow> ret ()
            | Some dep \<Rightarrow>
                bnd (gets (\<lambda>w. List.find (by_id_currency (pd_userId dep) (pd_currency dep)) (accounts w))) (\<lambda>account.
                  emit (AdminDepositPending i (pd_userId dep) (pd_amount dep) (pd_currency dep)
                          (map_option (\<lambda>a. acc_balance a + pd_amount dep) account)
                          (case jobId of None \<Rightarrow> None | Some j \<Rightarrow> if j = [] then None else Some j))))))))"

definition bank_transfer_body ::
  "'s wallet_env \<Rightarrow> string \<Rightarrow> int \<Rightarrow> string \<Rightarrow> string \<Rightarrow> string \<Rightarrow> ('s, json) wact" where
  "bank_transfer_body env accountId amount deviceId ip currency =
     (case bankConfig env of
        None \<Rightarrow> raise BankConfigMissing
      | Some (bankName, accountNumber, routingCode) \<Rightarrow>
         seq (raise_if (bankName = [] \<or> accountNumber = [] \<or> routingCode = []) BankConfigMissing)
        (seq (checkVelocity env DepositOp deviceId ip)
        (seq (enforceVelocity env DepositOp accountId amount)
        (bnd (account_by (by_id_currency accountId currency)) (\<lambda>_.
         seq (raise_if (\<not> kycIsVerified env accountId ip) KycRequired)
        (seq (enforceDailyLimit env DepositOp accountId amount currency)
        (bnd (rincrby env ''wallet:deposit:ref'' 1) (\<lambda>refNum.
         let reference = ''DEP'' @ pad 5 (int_to_string refNum)
         in bnd (randomUUID env) (\<lambda>i.
            seq (upd (\<lambda>w. w\<lparr>pendingDeposits := pendingDeposits w @
                   [\<lparr>pd_id = i, pd_userId = accountId, pd_amount = amount, pd_currency = currency,
                     pd_reference = reference, pd_status = PdPending, pd_actionRequired = False,
                     pd_expiresAt = now_ms env + 24 * 60 * 60 * 1000, pd_confirmedBy = None,
                     pd_confirmedAt = None, pd_rejectedBy = None, pd_rejectedAt = None,
                     pd_rejectionReason = None, pd_createdAt = now_ms env\<rparr>]\<rparr>))
            (seq (do_when (queueConnected env) (upd (\<lambda>w. w\<lparr>depositJobs := depositJobs w @ [i]\<rparr>)))
            (seq (do_when (\<not> queueConnected env) (markActionRequiredIfPending i None))
                 (ret (JObj [(''reference'', JStr reference),
                        (''bank'', JObj [(''bankName'', JStr bankName), (''accountNumber'', JStr accountNumber),
                                         (''routingCode'', JStr routingCode)])])))))))))))))"

definition initiateBankTransfer ::
  "'s wallet_env \<Rightarrow> string \<Rightarrow> int \<Rightarrow> string \<Rightarrow> string \<Rightarrow> string \<Rightarrow> string option \<Rightarrow> ('s, json) wact" where
  "initiateBankTransfer env accountId amount deviceId ip currency key =
     idempotent env key (bank_transfer_body env accountId amount deviceId ip currency)"

definition remove_job :: "string \<Rightarrow> ('s, unit) wact" where
  "remove_job i = upd (\<lambda>w. w\<lparr>depositJobs := filter (\<lambda>j. j \<noteq> i) (depositJobs w)\<rparr>)"

definition cancelPendingDeposit :: "'s wallet_env \<Rightarrow> string \<Rightarrow> string \<Rightarrow> ('s, unit) wact" where
  "cancelPendingDeposit env userId depositId =
     bnd (gets (\<lambda>w. List.find (\<lambda>d. pd_id d = depositId \<and> pd_userId d = userId) (pendingDeposits w))) (\<lambda>found.
     case found of
       None \<Rightarrow> ret ()
     | Some dep \<Rightarrow>
         if pd_status dep \<noteq> PdPending then ret ()
         else seq (save_deposit (dep\<lparr>pd_status := PdRejected, pd_rejectedBy := Some userId,
                     pd_rejectedAt := Some (now_ms env), pd_actionRequired := False\<rparr>))
             (seq (emit (NotificationCreate (pd_userId dep) ''Deposit cancelled''))
             (seq (emit (DepositRejected (pd_userId dep) (pd_id dep) (pd_currency dep) (Some ''cancelled'')))
                  (remove_job depositId))))"

definition pending_lock :: "string \<Rightarrow> string" where
  "pending_lock i = ''wallet:pending:'' @ i @ '':lock''"

definition confirm_body :: "'s wallet_env \<Rightarrow> string \<Rightarrow> string \<Rightarrow> ('s, unit) wact" where
  "confirm_body env i adminId =
     bnd (deposit_by_id i) (\<lambda>found.
     case found of
       None \<Rightarrow> ret ()
     | Some dep \<Rightarrow>
         if pd_status dep \<noteq> PdPending then ret ()
         else bnd (account_by (by_id_currency (pd_userId dep) (pd_currency dep))) (\<lambda>user.
              bnd (account_by (by_name_currency ''house'' (pd_currency dep))) (\<lambda>house.
              seq (record_movements env ''deposit'' (pd_id dep)
                     [\<lparr>mv_account = house, mv_amount = - pd_amount dep\<rparr>, \<lparr>mv_account = user, mv_amount = pd_amount dep\<rparr>]
                     None None)
             (seq (save_deposit (dep\<lparr>pd_status := PdConfirmed, pd_confirmedBy := Some adminId,
                     pd_confirmedAt := Some (now_ms env), pd_actionRequired := False\<rparr>))
             (seq (emit (NotificationCreate (pd_userId dep) ''Deposit confirmed''))
             (seq (emit (DepositConfirmed (pd_userId dep) (pd_id dep) (pd_amount dep) (pd_currency dep)))
                  (emit (AdminDepositConfirmed (pd_id dep)))))))))"

definition confirmPendingDeposit :: "'s wallet_env \<Rightarrow> string \<Rightarrow> string \<Rightarrow> ('s, unit) wact" where
  "confirmPendingDeposit env i adminId =
     bnd (rset env (pending_lock i) (Raw ''1'') 30 True) (\<lambda>lock.
     seq (raise_if (\<not> lock) DepositLocked)
         (finally_do (confirm_body env i adminId)
            (seq (remove_job i) (rdel env (pending_lock i)))))"

definition reject_body :: "'s wallet_env \<Rightarrow> string \<Rightarrow> string \<Rightarrow> string option \<Rightarrow> ('s, unit) wact" where
  "reject_body env i adminId reason =
     bnd (deposit_by_id i) (\<lambda>found.
     case found of
       None \<Rightarrow> ret ()
     | Some dep \<Rightarrow>
         if pd_status dep \<noteq> PdPending then ret ()
         else seq (save_deposit (dep\<lparr>pd_status := PdRejected, pd_rejectedBy := Some adminId,
                     pd_rejectedAt := Some (now_ms env), pd_rejectionReason := reason,
                     pd_actionRequired := False\<rparr>))
             (seq (emit (NotificationCreate (pd_userId dep)
                     (case reason of
                        None \<Rightarrow> ''Deposit rejected''
                      | Some r \<Rightarrow> if r = [] then ''Deposit rejected'' else ''Deposit rejected: '' @ r)))
             (seq (emit (DepositRejected (pd_userId dep) (pd_id dep) (pd_currency dep) reason))
                  (emit (AdminDepositRejected (pd_id dep) reason)))))"

definition rejectPendingDeposit :: "'s wallet_env \<Rightarrow> string \<Rightarrow> string \<Rightarrow> string option \<Rightarrow> ('s, unit) wact" where
  "rejectPendingDeposit env i adminId reason =
     bnd (rset env (pending_lock i) (Raw ''1'') 30 True) (\<lambda>lock.
     seq (raise_if (\<not> lock) DepositLocked)
         (finally_do (reject_body env i adminId reason) (rdel env (pending_lock i))))"

definition rejectExpiredPendingDeposits :: "'s wallet_env \<Rightarrow> ('s, unit) wact" where
  "rejectExpiredPendingDeposits env =
     bnd (gets (\<lambda>w. filter (\<lambda>d. pd_status d = PdPending \<and> pd_expiresAt d < now_ms env) (pendingDeposits w))) (\<lambda>expired.
       each (\<lambda>d. rejectPendingDeposit env (pd_id d) ''system'' (Some ''expired'')) expired)"

definition listPendingDeposits :: "'s wallet \<Rightarrow> pending_deposit list" where
  "listPendingDeposits w = js_sort (\<lambda>a b. pd_createdAt a \<le> pd_createdAt b)
     (filter (\<lambda>d. pd_status d = PdPending \<and> pd_actionRequired d) (pendingDeposits w))"

record pending_withdrawal =
  pw_id :: string
  pw_userId :: string
  pw_amount :: int
  pw_currency :: string
  pw_status :: disbursement_status
  pw_createdAt :: nat

definition listPendingWithdrawals :: "'s wallet \<Rightarrow> pending_withdrawal list" where
  "listPendingWithdrawals w =
     (let disbs = js_sort (\<lambda>a b. d_createdAt a \<le> d_createdAt b)
                    (filter (\<lambda>d. d_status d = DPending) (disbursements w));
          accs = filter (\<lambda>a. acc_id a \<in> d_accountId ` set disbs) (accounts w)
      in map (\<lambda>d. \<lparr>pw_id = d_id d, pw_userId = d_accountId d, pw_amount = d_amount d,
              pw_currency = (case List.find (\<lambda>a. acc_id a = d_accountId d) accs of
                               None \<Rightarrow> [] | Some a \<Rightarrow> acc_currency a),
              pw_status = d_status d, pw_createdAt = d_createdAt d\<rparr>) disbs)"

definition pending_disbursement :: "string \<Rightarrow> ('s, disbursement option) wact" where
  "pending_disbursement i =
     gets (\<lambda>w. List.find (\<lambda>d. d_id d = i \<and> d_status d = DPending) (disbursements w))"

definition confirmPendingWithdrawal :: "'s wallet_env \<Rightarrow> string \<Rightarrow> ('s, unit) wact" where
  "confirmPendingWithdrawal env i =
     bnd (pending_disbursement i) (\<lambda>found.
     case found of
       None \<Rightarrow> ret ()
     | Some disb \<Rightarrow>
         bnd (account_by (\<lambda>a. acc_id a = d_accountId disb)) (\<lambda>account.
           requestDisbursement env (d_id disb) (acc_currency account)))"

definition rejectPendingWithdrawal :: "'s wallet_env \<Rightarrow> string \<Rightarrow> ('s, unit) wact" where
  "rejectPendingWithdrawal env i =
     bnd (pending_disbursement i) (\<lambda>found.
     case found of
       None \<Rightarrow> ret ()
     | Some disb \<Rightarrow>
         seq (refundDisbursement env disb)
             (upd (\<lambda>w. w\<lparr>disbursements := filter (\<lambda>d. d_id d \<noteq> d_id disb) (disbursements w)\<rparr>)))"

section \<open>Administration\<close>

datatype adjust_action = AddBalance | RemoveBalance | FreezeBalance

definition adminAdjustBalance ::
  "'s wallet_env \<Rightarrow> string \<Rightarrow> adjust_action \<Rightarrow> int \<Rightarrow> string \<Rightarrow> ('s, unit) wact" where
  "adminAdjustBalance env userId action amount currency =
     bnd (account_by (by_id_currency userId currency)) (\<lambda>user.
     bnd (account_by (by_name_currency ''house'' currency)) (\<lambda>house.
     bnd (randomUUID env) (\<lambda>refId.
       case action of
         AddBalance \<Rightarrow> record_movements env ''admin_add'' refId
           [\<lparr>mv_account = house, mv_amount = - amount\<rparr>, \<lparr>mv_account = user, mv_amount = amount\<rparr>] None None
       | RemoveBalance \<Rightarrow> record_movements env ''admin_remove'' refId
           [\<lparr>mv_account = user, mv_amount = - amount\<rparr>, \<lparr>mv_account = house, mv_amount = amount\<rparr>] None None
       | FreezeBalance \<Rightarrow> wallet_reserve env userId amount refId currency None)))"

fun groups_of_4 :: "string \<Rightarrow> string" where
  "groups_of_4 (a # b # c # d # r) = a # b # c # d # CHR '' '' # groups_of_4 r"
| "groups_of_4 r = r"

definition trim :: "string \<Rightarrow> string" where
  "trim s = rev (dropWhile js_space (rev (dropWhile js_space s)))"

definition maskIban :: "string \<Rightarrow> string" where
  "maskIban iban =
     (let cleaned = filter (\<lambda>c. \<not> js_space c) iban;
          start = take 4 cleaned;
          end_part = drop (length cleaned - 4) cleaned;
          middle = map (\<lambda>_. CHR ''*'') (take (length cleaned - 4 - 4) (drop 4 cleaned))
      in trim (groups_of_4 (start @ middle @ end_part)))"

text \<open>The row with the greatest \<open>updatedAt\<close>.\<close>

definition getDepositIban :: "('s, deposit_iban) wact" where
  "getDepositIban =
     bnd (gets (\<lambda>w. js_sort (\<lambda>a b. di_updatedAt b \<le> di_updatedAt a) (depositIbans w))) (\<lambda>rows.
       case rows of [] \<Rightarrow> raise IbanNotConfigured | d # _ \<Rightarrow> ret d)"

definition getIbanHistory :: "'s wallet \<Rightarrow> iban_history list" where
  "getIbanHistory w = js_sort (\<lambda>a b. ih_date b \<le> ih_date a) (ibanHistory w)"

record iban_update =
  iu_iban :: string
  iu_holder :: string
  iu_instructions :: string
  iu_notes :: "string option"

text \<open>\<open>repo.save(current)\<close> writes the first row of the table back.\<close>

definition updateDepositIban :: "'s wallet_env \<Rightarrow> iban_update \<Rightarrow> string \<Rightarrow> ('s, deposit_iban) wact" where
  "updateDepositIban env data userId =
     (let row = \<lparr>di_iban = iu_iban data, di_masked = maskIban (iu_iban data), di_holder = iu_holder data,
                 di_instructions = iu_instructions data, di_updatedBy = userId, di_updatedAt = now_ms env\<rparr>;
          hist = (\<lambda>old. \<lparr>ih_oldIban = old, ih_newIban = iu_iban data, ih_by = userId,
                 ih_notes = (case iu_notes data of None \<Rightarrow> [] | Some n \<Rightarrow> n), ih_date = now_ms env\<rparr>)
      in bnd (gets depositIbans) (\<lambda>rows.
         case rows of
           d # ds \<Rightarrow>
             seq (upd (\<lambda>w. w\<lparr>ibanHistory := ibanHistory w @ [hist (di_iban d)]\<rparr>))
            (seq (upd (\<lambda>w. w\<lparr>depositIbans := row # ds\<rparr>)) (ret row))
         | [] \<Rightarrow>
             seq (upd (\<lambda>w. w\<lparr>depositIbans := [row]\<rparr>))
            (seq (upd (\<lambda>w. w\<lparr>ibanHistory := ibanHistory w @ [hist []]\<rparr>)) (ret row))))"

section \<open>Bank reconciliation\<close>

record bank_entry =
  be_reference :: string
  be_amount :: int

fun reconcile_entries :: "'s wallet_env \<Rightarrow> bank_entry list \<Rightarrow> int \<Rightarrow> ('s, int) wact" where
  "reconcile_entries env [] totalMismatch = ret totalMismatch"
| "reconcile_entries env (e # es) totalMismatch =
     bnd (gets (\<lambda>w. List.find (\<lambda>d. pd_reference d = be_reference e \<and> pd_amount d = be_amount e
                          \<and> pd_status d = PdPending) (pendingDeposits w))) (\<lambda>found.
     case found of
       Some dep \<Rightarrow> seq (confirmPendingDeposit env (pd_id dep) ''system'')
                        (reconcile_entries env es totalMismatch)
     | None \<Rightarrow> reconcile_entries env es (totalMismatch + be_amount e))"

definition bank_reconcile :: "'s wallet_env \<Rightarrow> bank_entry list \<Rightarrow> ('s, unit) wact" where
  "bank_reconcile env es =
     bnd (reconcile_entries env es 0) (\<lambda>total.
       do_when (total \<noteq> 0) (emit (ReconcileMismatch (date_key (now_ms env)) total)))"

end
