(* ===== verification/Webhooks.thy ===== *)
theory Webhooks
  imports Wallet
begin

text \<open>
  Provider callbacks on their way to the wallet: \<open>backend/src/wallet/webhook.controller.ts\<close>
  (\<open>callback\<close>) and the webhook part of
  \<open>backend/src/wallet/payment-provider.service.ts\<close> (\<open>confirm3DS\<close>,
  \<open>handleWebhook\<close>). The one registered handler, \<open>3ds\<close>, is the wallet's
  \<open>confirm3DS\<close>. Signature verification is an argument.
\<close>

record payment_intent =
  pi_id :: string
  pi_status :: "string option"
  pi_idempotencyKey :: "string option"

record webhook_payload =
  wp_type :: "string option"
  wp_id :: "string option"
  wp_intent :: "payment_intent option"

definition provider_redisKey :: "string \<Rightarrow> string" where
  "provider_redisKey k = ''provider:webhook:'' @ k"

definition starts_with :: "string \<Rightarrow> string \<Rightarrow> bool" where
  "starts_with p s \<longleftrightarrow> take (length p) s = p"

definition intent_status :: "string option \<Rightarrow> provider_status" where
  "intent_status s =
     (if s = Some ''succeeded'' then Approved else if s = Some ''requires_action'' then Risky else Chargeback)"

text \<open>
  \<open>handleWebhook\<close>: \<open>handler\<close> is the function registered under the key, if any. A failing
  handler is queued for a retry when the queue is connected, otherwise its exception passes on.
\<close>

definition handleWebhook ::
  "'s wallet_env \<Rightarrow> (provider_callback \<Rightarrow> ('s, unit) wact) option \<Rightarrow> provider_callback \<Rightarrow> ('s, unit) wact" where
  "handleWebhook env handler event =
     (let key = provider_redisKey (pc_idempotencyKey event);
          body = JObj [(''eventId'', JStr (pc_eventId event)), (''idempotencyKey'', JStr (pc_idempotencyKey event)),
                       (''providerTxnId'', JStr (pc_providerTxnId event)),
                       (''status'', JStr (provider_status_text (pc_status event)))]
      in bnd (rset env key (Json body) (60 * 60) True) (\<lambda>stored.
         if \<not> stored then ret ()
         else case handler of
                None \<Rightarrow> raise MissingHandler
              | Some h \<Rightarrow> (\<lambda>w. case seq (h event) (rdel env key) w of
                            (Inr x, w') \<Rightarrow> (Inr x, w')
                          | (Inl e, w') \<Rightarrow>
                              if \<not> queueConnected env then (Inl e, w')
                              else (Inr (), w'\<lparr>retryJobs := retryJobs w' @ [pc_idempotencyKey event]\<rparr>))))"

definition provider_confirm3DS :: "'s wallet_env \<Rightarrow> webhook_payload \<Rightarrow> ('s, unit) wact" where
  "provider_confirm3DS env p =
     (case wp_type p of
        None \<Rightarrow> raise InvalidEvent
      | Some t \<Rightarrow>
          if \<not> starts_with ''payment_intent.'' t then raise InvalidEvent
          else case wp_intent p of
                 None \<Rightarrow> raise InvalidEvent
               | Some intent \<Rightarrow>
                   if pi_id intent = [] then raise InvalidEvent
                   else handleWebhook env (Some (confirm3DS env))
                     \<lparr>pc_eventId = (case wp_id p of None \<Rightarrow> pi_id intent | Some i \<Rightarrow> i),
                      pc_idempotencyKey = (case pi_idempotencyKey intent of None \<Rightarrow> pi_id intent | Some k \<Rightarrow> k),
                      pc_providerTxnId = pi_id intent, pc_status = intent_status (pi_status intent)\<rparr>)"

text \<open>\<open>callback\<close>: the header \<open>x-event-id\<close>, the signature and the body; every accepted event
  is acknowledged.\<close>

definition webhook_callback ::
  "'s wallet_env \<Rightarrow> (webhook_payload \<Rightarrow> string \<Rightarrow> bool) \<Rightarrow> string option \<Rightarrow> string option \<Rightarrow> webhook_payload
   \<Rightarrow> ('s, unit) wact" where
  "webhook_callback env verifySignature eventId signature body =
     (case eventId of
        None \<Rightarrow> raise MissingEventId
      | Some i \<Rightarrow>
          if i = [] then raise MissingEventId
          else case signature of
                 None \<Rightarrow> raise InvalidSignature
               | Some sg \<Rightarrow>
                   if sg = [] \<or> \<not> verifySignature body sg then raise InvalidSignature
                   else bnd (rset env (''wallet:webhook:'' @ i) (Raw ''1'') (60 * 60 * 24) True) (\<lambda>stored.
                          if \<not> stored then ret () else provider_confirm3DS env body))"

end
