(* ===== verification/WalletInv.thy ===== *)
theory WalletInv
  imports Webhooks
begin

text \<open>
  The wallet over whole runs: every operation of the service keeps the ledger in balance, whether it
  returns or throws. \<open>wallet_call\<close> lists the operations that write to the tables,
  \<open>wallet_reach\<close> the states they reach, each call in an environment of its own (clock, limits,
  answers of the provider).
\<close>

section \<open>What lies outside the tables\<close>

text \<open>\<open>meta P\<close>: \<open>P\<close> depends on the tables of accounts, journal, disbursements and deposits
  only.\<close>

definition meta :: "('s wallet \<Rightarrow> bool) \<Rightarrow> bool" where
  "meta P \<longleftrightarrow> (\<forall>w s. P (w\<lparr>store := s\<rparr>) = P w) \<and> (\<forall>w s. P (w\<lparr>outbox := s\<rparr>) = P w)
     \<and> (\<forall>w s. P (w\<lparr>uuids := s\<rparr>) = P w) \<and> (\<forall>w s. P (w\<lparr>payoutJobs := s\<rparr>) = P w)
     \<and> (\<forall>w s. P (w\<lparr>depositJobs := s\<rparr>) = P w) \<and> (\<forall>w s. P (w\<lparr>settlements := s\<rparr>) = P w)
     \<and> (\<forall>w s. P (w\<lparr>retryJobs := s\<rparr>) = P w)"

lemma metaD:
  assumes "meta P"
  shows "P (w\<lparr>store := s\<rparr>) = P w" "P (w\<lparr>outbox := o'\<rparr>) = P w" "P (w\<lparr>uuids := u\<rparr>) = P w"
    "P (w\<lparr>payoutJobs := j\<rparr>) = P w" "P (w\<lparr>depositJobs := d\<rparr>) = P w" "P (w\<lparr>settlements := t\<rparr>) = P w"
    "P (w\<lparr>retryJobs := d\<rparr>) = P w"
  using assms by (simp_all add: meta_def)

lemma keeps_redis:
  assumes "meta P"
  shows "keeps P (rget env k)" "keeps P (rset env k v ex nx)" "keeps P (rdel env k)"
    "keeps P (rincrby env k n)" "keeps P (rexpire env k ttl)"
  using assms
  by (auto simp: keeps_def rget_def rset_def rdel_def rincrby_def rexpire_def run_simps metaD
      split: prod.splits option.splits)

lemma keeps_outside:
  assumes "meta P"
  shows "keeps P (emit e)" "keeps P (randomUUID env)" "keeps P (account_by Q)" "keeps P (remove_job i)"
    "keeps P (isDuplicateWebhook env i)" "keeps P (disb_by_id i)" "keeps P (deposit_by_id i)"
    "keeps P (json_parse t)"
  by (auto simp: emit_def randomUUID_def account_by_def remove_job_def isDuplicateWebhook_def disb_by_id_def
      deposit_by_id_def json_parse_def metaD [OF assms] split: rtext.splits
      intro!: keeps_intros keeps_upd keeps_redis [OF assms])

lemmas keeps_meta = keeps_redis keeps_outside

lemma keeps_disbursement_requests:
  assumes "meta P"
  shows "keeps P (requestDisbursement env i currency)" "keeps P (enqueueDisbursement env i currency)"
  unfolding enqueueDisbursement_def requestDisbursement_def
  by (auto simp: metaD [OF assms] intro!: keeps_intros keeps_upd keeps_meta [OF assms])

lemma keeps_limits:
  assumes "meta P"
  shows "keeps P (checkVelocity env x dev ip)" "keeps P (velocity_window env k n ttl l ev)"
    "keeps P (enforceVelocity env x a n)" "keeps P (enforceDailyLimit env x a n cur)"
    "keeps P (cb_check env a dev)" "keeps P (cb_record env a dev)"
proof -
  show v: "keeps P (velocity_window env k n ttl l ev)" for k n ttl l ev
    unfolding velocity_window_def Let_def by (intro keeps_intros keeps_meta [OF assms])
  show "keeps P (checkVelocity env x dev ip)" "keeps P (enforceDailyLimit env x a n cur)"
    unfolding checkVelocity_def enforceDailyLimit_def Let_def
    by (intro keeps_intros keeps_meta [OF assms])+
  show "keeps P (enforceVelocity env x a n)"
    unfolding enforceVelocity_def by (intro keeps_intros v)
  show "keeps P (cb_check env a dev)" "keeps P (cb_record env a dev)"
    unfolding cb_check_def cb_record_def Let_def
    by (intro keeps_intros keeps_meta [OF assms] keeps_upd; simp add: metaD [OF assms])+
qed

lemma keeps_idempotent:
  assumes "meta P" "keeps P body"
  shows "keeps P (idempotent env key body)"
  unfolding idempotent_def Let_def
  by (intro keeps_intros keeps_meta [OF assms(1)] assms(2))

lemma keeps_payments:
  assumes "meta P"
  shows "keeps P (withdraw env a n dev ip cur key)" "keeps P (deposit env a n dev ip cur key)"
  unfolding withdraw_def deposit_def withdraw_body_def deposit_body_def start_challenge_def
  by (intro keeps_idempotent keeps_intros keeps_meta [OF assms] keeps_limits [OF assms] assms)+

section \<open>The invariant\<close>

text \<open>The ledger is in balance, and money is owed only to users, never to a system account.\<close>

definition wallet_inv :: "'s wallet \<Rightarrow> bool" where
  "wallet_inv w \<longleftrightarrow> ledger_ok w \<and> (\<forall>d\<in>set (disbursements w). is_user w (d_accountId d))
     \<and> (\<forall>d\<in>set (pendingDeposits w). is_user w (pd_userId d))"

lemma meta_wallet_inv: "meta wallet_inv"
  by (simp add: meta_def wallet_inv_def ledger_ok_def balanced_def totalJournal_def is_user_def)

lemma meta_is_user: "meta (\<lambda>w. is_user w i)"
  by (simp add: meta_def is_user_def)

lemma meta_conj: "meta P \<Longrightarrow> meta Q \<Longrightarrow> meta (\<lambda>w. P w \<and> Q w)"
  by (simp add: meta_def)

lemma steady_inv: "wallet_inv w \<Longrightarrow> steady w w' \<Longrightarrow> wallet_inv w'"
  using is_user_same [of w w'] by (auto simp: wallet_inv_def same_accounts_def)

lemma record_inv:
  assumes "wallet_inv w" "current es w"
  shows "wp (record_movements env refType refId es txn st) (\<lambda>_. wallet_inv) wallet_inv w"
  by (rule wp_mono [OF record_steady [OF steady_refl assms(2)]])
    (use assms(1) steady_inv in \<open>auto simp: wallet_inv_def\<close>)

lemma wallet_inv_ledger: "wallet_inv w \<Longrightarrow> ledger_ok w"
  by (simp add: wallet_inv_def)

text \<open>A user and a system account found by the code are two different current rows.\<close>

lemma current_found:
  assumes "wallet_inv w" "is_user w (acc_id user)"
    and "List.find P (accounts w) = Some user"
    and "List.find (by_name_currency n cur) (accounts w) = Some sys" "system_name n"
  shows "current [\<lparr>mv_account = user, mv_amount = x\<rparr>, \<lparr>mv_account = sys, mv_amount = y\<rparr>] w"
    "current [\<lparr>mv_account = sys, mv_amount = y\<rparr>, \<lparr>mv_account = user, mv_amount = x\<rparr>] w"
    "current [\<lparr>mv_account = sys, mv_amount = y\<rparr>] w"
proof -
  have "acc_id user \<noteq> acc_id sys"
    using rows [OF assms(4)] assms(2,5) by (auto simp: by_name_currency_def is_user_def)
  then show "current [\<lparr>mv_account = user, mv_amount = x\<rparr>, \<lparr>mv_account = sys, mv_amount = y\<rparr>] w"
    "current [\<lparr>mv_account = sys, mv_amount = y\<rparr>, \<lparr>mv_account = user, mv_amount = x\<rparr>] w"
    "current [\<lparr>mv_account = sys, mv_amount = y\<rparr>] w"
    using rows [OF assms(3)] rows [OF assms(4)] by (auto simp: current_def)
qed

lemma house_name: "system_name ''house''"
  by (simp add: system_name_def)

lemma find_id: "List.find (\<lambda>a. acc_id a = i) (accounts w) = Some a \<Longrightarrow> acc_id a = i"
  "List.find (by_id_currency i cur) (accounts w) = Some a \<Longrightarrow> acc_id a = i"
  by (auto dest: rows simp: by_id_currency_def)

lemma wp_inv: "keeps wallet_inv m \<Longrightarrow> wallet_inv w \<Longrightarrow> wp m (\<lambda>_. wallet_inv) wallet_inv w"
  by (rule wp_keeps)

lemmas inv_enqueue = keeps_disbursement_requests [OF meta_wallet_inv, THEN wp_inv]
lemmas inv_simps = metaD [OF meta_wallet_inv] metaD [OF meta_is_user]

lemma record_then:
  assumes "wallet_inv w" "current es w" "\<And>s. wallet_inv s \<Longrightarrow> steady w s \<Longrightarrow> wp m (\<lambda>_. wallet_inv) wallet_inv s"
  shows "wp (record_movements env refType refId es txn st) (\<lambda>_. wp m (\<lambda>_. wallet_inv) wallet_inv) wallet_inv w"
proof -
  have inv: "steady w s \<Longrightarrow> wallet_inv s" for s
    using steady_inv [OF assms(1)] by simp
  show ?thesis
    by (rule wp_mono [OF record_steady [OF steady_refl [OF wallet_inv_ledger [OF assms(1)]] assms(2)]])
      (use assms(3) inv in simp_all)
qed

lemma refundDisbursement_inv:
  assumes "wallet_inv w" "is_user w (d_accountId disb)"
  shows "wp (refundDisbursement env disb) (\<lambda>_. wallet_inv) wallet_inv w"
proof -
  have "wp (record_movements env ''withdraw_reject'' (d_id disb)
         [\<lparr>mv_account = house, mv_amount = - d_amount disb\<rparr>, \<lparr>mv_account = account, mv_amount = d_amount disb\<rparr>]
         None None) (\<lambda>_. wallet_inv) wallet_inv w"
    if "List.find (\<lambda>a. acc_id a = d_accountId disb) (accounts w) = Some account"
      "List.find (by_name_currency ''house'' (acc_currency account)) (accounts w) = Some house" for account house
    using current_found(2) [OF assms(1) _ that house_name] find_id(1) [OF that(1)] assms
    by (intro record_inv) simp_all
  then show ?thesis
    using assms(1) by (auto simp: refundDisbursement_def wp_simps split: option.splits)
qed

lemma insert_disbursement_inv:
  assumes "wallet_inv w" "is_user w i"
  shows "wp (insert_disbursement env i n) (\<lambda>_. wallet_inv) wallet_inv w"
  using assms by (auto simp: insert_disbursement_def wp_simps wallet_inv_def is_user_def ledger_ok_def
      balanced_def totalJournal_def)

lemma settle_challenge_inv:
  assumes "wallet_inv w" "is_user w (ch_accountId c)"
  shows "wp (settle_challenge env event c) (\<lambda>_. wallet_inv) wallet_inv w"
proof -
  let ?w = "w\<lparr>uuids := uuids w + 1\<rparr>"
  let ?pay = "\<lambda>n. bnd (insert_disbursement env (ch_accountId c) n) (\<lambda>i. enqueueDisbursement env i (ch_currency c))"
  have w: "wallet_inv ?w" "is_user ?w (ch_accountId c)"
    using assms by (simp_all add: inv_simps is_user_def)
  have cur: "current [\<lparr>mv_account = user, mv_amount = x\<rparr>, \<lparr>mv_account = house, mv_amount = y\<rparr>] ?w"
    "current [\<lparr>mv_account = house, mv_amount = y\<rparr>, \<lparr>mv_account = user, mv_amount = x\<rparr>] ?w"
    if "List.find (by_id_currency (ch_accountId c) (ch_currency c)) (accounts w) = Some user"
      "List.find (by_name_currency ''house'' (ch_currency c)) (accounts w) = Some house" for user house x y
    using current_user [OF wallet_inv_ledger [OF w(1)] w(2) _ _ house_name] that by simp_all
  have pay: "wp (?pay n) (\<lambda>_. wallet_inv) wallet_inv s" if "wallet_inv s" "steady ?w s" for s n
  proof -
    have "is_user s (ch_accountId c)" using is_user_same [of ?w s] that w(2) by simp
    then show ?thesis
      unfolding wp_bnd
      by (rule wp_mono [OF insert_disbursement_inv [OF that(1)]]) (simp_all add: inv_enqueue(2))
  qed
  have cb: "wp (cb_record env a d) (\<lambda>_. wallet_inv) wallet_inv ?w" for a d
    using keeps_limits(6) [OF meta_wallet_inv] w(1) by (rule wp_keeps)
  show ?thesis
  proof (cases "List.find (by_id_currency (ch_accountId c) (ch_currency c)) (accounts w)")
    case None
    then show ?thesis using assms(1) by (simp add: settle_challenge_def Let_def wp_bnd wp_account_by)
  next
    case (Some user)
    note u = this
    show ?thesis
    proof (cases "List.find (by_name_currency ''house'' (ch_currency c)) (accounts w)")
      case None
      then show ?thesis using assms(1) u by (simp add: settle_challenge_def Let_def wp_bnd wp_account_by)
    next
      case (Some house)
      have d: "wp (record_movements env ''deposit'' ri [\<lparr>mv_account = house, mv_amount = y\<rparr>,
            \<lparr>mv_account = user, mv_amount = x\<rparr>] t st) (\<lambda>_. wallet_inv) wallet_inv ?w" for ri x y t st
        using w(1) cur(2) [OF u Some] by (rule record_inv)
      have wd: "wp (record_movements env ''withdraw'' ri [\<lparr>mv_account = user, mv_amount = x\<rparr>,
            \<lparr>mv_account = house, mv_amount = y\<rparr>] t st) (\<lambda>_. wp (?pay n) (\<lambda>_. wallet_inv) wallet_inv)
            wallet_inv ?w" for ri x y t st n
        using w(1) cur(1) [OF u Some] pay by (rule record_then)
      show ?thesis
        using u Some w(1) d wd cb
        by (cases "ch_op c") (auto simp: settle_challenge_def Let_def wp_bnd wp_account_by wp_randomUUID
            wp_basic wp_do_when wp_seq split: option.splits)
    qed
  qed
qed

lemma confirm3DS_inv:
  assumes "wallet_inv w"
    and "\<And>t c. r_get (client env) (challengeKey (pc_providerTxnId event)) (store w1) = Some t
       \<Longrightarrow> decode_challenge t = Some c \<Longrightarrow> is_user w (ch_accountId c)"
    and "w1 = snd (isDuplicateWebhook env (pc_eventId event) w)"
  shows "wp (confirm3DS env event) (\<lambda>_. wallet_inv) wallet_inv w"
proof -
  obtain dup where run: "isDuplicateWebhook env (pc_eventId event) w = (Inr dup, w1)"
    by (cases "isDuplicateWebhook env (pc_eventId event) w")
      (auto simp: assms(3) isDuplicateWebhook_def rset_def run_simps bnd_def split: prod.splits)
  have w1: "wallet_inv w1" "is_user w1 i = is_user w i" for i
    using keepsD [OF keeps_outside(5) [OF meta_wallet_inv] assms(1) run]
      keepsD [OF keeps_outside(5), of "\<lambda>v. is_user v i = is_user w i" w env _ _ w1] run
    by (simp_all add: meta_def is_user_def)
  have "wp (settle_challenge env event c) (\<lambda>_. wallet_inv) wallet_inv (w1\<lparr>store := s\<rparr>)"
    if "r_get (client env) (challengeKey (pc_providerTxnId event)) (store w1) = Some t"
      "decode_challenge t = Some c" for t c s
    using settle_challenge_inv [of "w1\<lparr>store := s\<rparr>" c] w1 assms(2) [OF that] by (simp add: inv_simps is_user_def)
  then show ?thesis
    using w1(1) unfolding confirm3DS_def wp_bnd wp_def [of "isDuplicateWebhook env _"] run
    by (auto simp: wp_simps rget_def rdel_def inv_simps split: option.splits)
qed

lemma save_disbursement_inv:
  assumes "wallet_inv w" "is_user w (d_accountId d)"
  shows "wp (save_disbursement d) (\<lambda>_. wallet_inv) wallet_inv w"
  using assms by (auto simp: save_disbursement_def wp_simps wallet_inv_def is_user_def ledger_ok_def
      balanced_def totalJournal_def)

lemma payout_inv:
  assumes "wallet_inv w" "disb \<in> set (disbursements w)"
    and "List.find (by_name_currency ''house'' cur) (accounts w) = Some house"
  shows "wp (record_movements env ''payout'' (d_id disb) [\<lparr>mv_account = house, mv_amount = 0\<rparr>] t s)
     (\<lambda>_. wp (if b then save_disbursement (disb\<lparr>d_status := x, d_completedAt := y, d_providerRef := z\<rparr>)
             else enqueueDisbursement env (d_id disb) cur) (\<lambda>_. wallet_inv) wallet_inv)
     wallet_inv w"
proof (rule record_then [OF assms(1)])
  show "current [\<lparr>mv_account = house, mv_amount = 0\<rparr>] w"
    using rows [OF assms(3)] by (simp add: current_def)
  fix s assume s: "wallet_inv s" "steady w s"
  have "is_user s (d_accountId disb)"
    using assms(1,2) is_user_same [of w s] s(2) by (simp add: wallet_inv_def)
  then show "wp (if b then save_disbursement (disb\<lparr>d_status := x, d_completedAt := y, d_providerRef := z\<rparr>)
             else enqueueDisbursement env (d_id disb) cur) (\<lambda>_. wallet_inv) wallet_inv s"
    using save_disbursement_inv [OF s(1)] inv_enqueue(2) [OF s(1)] by simp
qed

lemma processDisbursement_inv:
  assumes "wallet_inv w"
  shows "wp (processDisbursement env eventId key txn st) (\<lambda>_. wallet_inv) wallet_inv w"
  unfolding processDisbursement_def wp_bnd [of "isDuplicateWebhook env eventId"]
  by (rule wp_mono [OF wp_keeps [OF keeps_outside(5) [OF meta_wallet_inv] assms]])
    (auto simp: wp_bnd wp_basic wp_account_by wp_seq split: option.splits
      intro: payout_inv [where b = True, simplified] payout_inv [where b = False, simplified] find_Some_nth(1))

lemma save_deposit_inv:
  assumes "wallet_inv w" "is_user w (pd_userId d)"
  shows "wp (save_deposit d) (\<lambda>_. wallet_inv) wallet_inv w"
  using assms by (auto simp: save_deposit_def wp_simps wallet_inv_def is_user_def ledger_ok_def
      balanced_def totalJournal_def)

lemma emits_inv: "wallet_inv w \<Longrightarrow> wallet_inv (w\<lparr>outbox := x\<rparr>)"
  by (simp add: inv_simps)

lemma deposit_user: "wallet_inv w \<Longrightarrow> List.find P (pendingDeposits w) = Some d \<Longrightarrow> is_user w (pd_userId d)"
  by (auto simp: wallet_inv_def dest: find_Some_nth)

lemma confirm_body_inv:
  assumes "wallet_inv w"
  shows "wp (confirm_body env i adminId) (\<lambda>_. wallet_inv) wallet_inv w"
proof -
  have "wp (record_movements env ''deposit'' (pd_id dep)
       [\<lparr>mv_account = house, mv_amount = - pd_amount dep\<rparr>, \<lparr>mv_account = user, mv_amount = pd_amount dep\<rparr>]
       None None)
     (\<lambda>_. wp (seq (save_deposit (dep\<lparr>pd_status := PdConfirmed, pd_confirmedBy := Some adminId,
             pd_confirmedAt := Some (now_ms env), pd_actionRequired := False\<rparr>))
           (seq (emit a) (seq (emit b) (emit c)))) (\<lambda>_. wallet_inv) wallet_inv)
     wallet_inv w"
    if d: "List.find (\<lambda>d. pd_id d = i) (pendingDeposits w) = Some dep"
      and f: "List.find (by_id_currency (pd_userId dep) (pd_currency dep)) (accounts w) = Some user"
       "List.find (by_name_currency ''house'' (pd_currency dep)) (accounts w) = Some house"
    for dep user house a b c
  proof (rule record_then [OF assms])
    have u: "is_user w (pd_userId dep)" using deposit_user [OF assms d] .
    show "current [\<lparr>mv_account = house, mv_amount = - pd_amount dep\<rparr>, \<lparr>mv_account = user, mv_amount = pd_amount dep\<rparr>] w"
      using current_user(2) [OF wallet_inv_ledger [OF assms] u f house_name] .
    fix s assume s: "wallet_inv s" "steady w s"
    then have "is_user s (pd_userId dep)" using is_user_same [of w s] u by simp
    then show "wp (seq (save_deposit (dep\<lparr>pd_status := PdConfirmed, pd_confirmedBy := Some adminId,
             pd_confirmedAt := Some (now_ms env), pd_actionRequired := False\<rparr>))
           (seq (emit a) (seq (emit b) (emit c)))) (\<lambda>_. wallet_inv) wallet_inv s"
      unfolding wp_seq
      by (intro wp_mono [OF save_deposit_inv [OF s(1)]]) (simp_all add: wp_simps emits_inv)
  qed
  then show ?thesis
    using assms unfolding confirm_body_def deposit_by_id_def wp_bnd wp_basic
    by (auto simp: wp_bnd wp_basic wp_account_by wp_seq [of "record_movements _ _ _ _ _ _"]
        split: option.splits)
qed

lemma reject_body_inv:
  assumes "wallet_inv w"
  shows "wp (reject_body env i adminId reason) (\<lambda>_. wallet_inv) wallet_inv w"
  using assms deposit_user [OF assms] save_deposit_inv [OF assms]
  by (auto simp: reject_body_def deposit_by_id_def wp_simps split: option.splits
      intro!: wp_mono [OF save_deposit_inv [OF assms]] emits_inv)

lemma keeps_pending_deposits:
  "keeps wallet_inv (confirmPendingDeposit env i adminId)"
  "keeps wallet_inv (rejectPendingDeposit env i adminId reason)"
  "keeps wallet_inv (rejectExpiredPendingDeposits env)"
proof -
  have c: "keeps wallet_inv (confirm_body env i adminId)" and r: "keeps wallet_inv (reject_body env j b reason)"
    for i j b adminId reason
    by (simp_all add: keeps_wp confirm_body_inv reject_body_inv)
  show "keeps wallet_inv (confirmPendingDeposit env i adminId)"
    unfolding confirmPendingDeposit_def by (intro keeps_intros keeps_meta [OF meta_wallet_inv] c)
  have rp: "keeps wallet_inv (rejectPendingDeposit env j b q)" for j b q
    unfolding rejectPendingDeposit_def by (intro keeps_intros keeps_meta [OF meta_wallet_inv] r)
  then show "keeps wallet_inv (rejectPendingDeposit env i adminId reason)" .
  show "keeps wallet_inv (rejectExpiredPendingDeposits env)"
    unfolding rejectExpiredPendingDeposits_def by (intro keeps_intros rp)
qed

lemma keeps_reconcile_entries: "keeps wallet_inv (reconcile_entries env es n)"
proof (induction es arbitrary: n)
  case Nil
  then show ?case by (simp add: keeps_intros)
next
  case (Cons e es)
  then show ?case
    unfolding reconcile_entries.simps by (intro keeps_intros keeps_pending_deposits)
qed

lemma keeps_bank_reconcile: "keeps wallet_inv (bank_reconcile env es)"
  unfolding bank_reconcile_def
  by (intro keeps_intros keeps_reconcile_entries keeps_outside [OF meta_wallet_inv])

lemma keeps_mark: "keeps wallet_inv (markActionRequiredIfPending i j)"
  by (auto simp: keeps_wp markActionRequiredIfPending_def deposit_by_id_def Let_def wp_simps wallet_inv_def
      is_user_def ledger_ok_def balanced_def totalJournal_def split: option.splits)

lemma cancelPendingDeposit_inv: "keeps wallet_inv (cancelPendingDeposit env userId depositId)"
  unfolding keeps_wp
proof (intro allI impI)
  fix w :: "'a wallet" assume w: "wallet_inv w"
  show "wp (cancelPendingDeposit env userId depositId) (\<lambda>_. wallet_inv) wallet_inv w"
    using w deposit_user [OF w]
    by (auto simp: cancelPendingDeposit_def remove_job_def wp_simps inv_simps split: option.splits
        intro!: wp_mono [OF save_deposit_inv [OF w]])
qed

text \<open>A bank transfer opens a pending deposit for the user who asked.\<close>

lemma initiateBankTransfer_inv:
  "keeps (\<lambda>w. wallet_inv w \<and> is_user w accountId)
     (initiateBankTransfer env accountId amount deviceId ip currency key)"
proof -
  define P :: "'s wallet \<Rightarrow> bool" where "P = (\<lambda>w'. wallet_inv w' \<and> is_user w' accountId)"
  have meta: "meta P" unfolding P_def by (intro meta_conj meta_wallet_inv meta_is_user)
  have "P (s\<lparr>pendingDeposits := pendingDeposits s @ [d]\<rparr>)" if "P s" "pd_userId d = accountId" for s d
    using that by (auto simp: P_def wallet_inv_def is_user_def ledger_ok_def balanced_def totalJournal_def)
  moreover have "keeps P (markActionRequiredIfPending i j)" for i j
  proof -
    have "keeps (\<lambda>w. is_user w accountId) (markActionRequiredIfPending i j)"
      by (auto simp: keeps_wp markActionRequiredIfPending_def deposit_by_id_def Let_def wp_simps
          is_user_def split: option.splits)
    then show ?thesis unfolding P_def by (intro keeps_conj keeps_mark)
  qed
  ultimately have "keeps P (bank_transfer_body env accountId amount deviceId ip currency)"
    for env :: "'s wallet_env"
    unfolding bank_transfer_body_def Let_def
    by (auto intro!: keeps_intros keeps_meta [OF meta] keeps_limits [OF meta] keeps_upd
        simp: metaD [OF meta] split: option.splits prod.splits)
  then have "keeps P (initiateBankTransfer env accountId amount deviceId ip currency key)"
    for env :: "'s wallet_env"
    unfolding initiateBankTransfer_def by (intro keeps_idempotent meta)
  then show "keeps (\<lambda>w. wallet_inv w \<and> is_user w accountId)
     (initiateBankTransfer env accountId amount deviceId ip currency key)"
    for env :: "'s wallet_env"
    by (simp add: P_def)
qed

lemma rejectPendingWithdrawal_inv: "keeps wallet_inv (rejectPendingWithdrawal env i)"
  unfolding keeps_wp
proof (intro allI impI)
  fix w :: "'a wallet" assume w: "wallet_inv w"
  have "wallet_inv (s\<lparr>disbursements := filter Q (disbursements s)\<rparr>)" if "wallet_inv s" for s :: "'a wallet" and Q
    using that by (auto simp: wallet_inv_def is_user_def ledger_ok_def balanced_def totalJournal_def)
  moreover have "is_user w (d_accountId d)" if "List.find P (disbursements w) = Some d" for P d
    using w find_Some_nth [OF that] by (simp add: wallet_inv_def)
  ultimately show "wp (rejectPendingWithdrawal env i) (\<lambda>_. wallet_inv) wallet_inv w"
    using w by (auto simp: rejectPendingWithdrawal_def pending_disbursement_def wp_simps split: option.splits
        intro!: wp_mono [OF refundDisbursement_inv [OF w]])
qed

lemma keeps_withdrawal_requests:
  "keeps wallet_inv (confirmPendingWithdrawal env i)" "keeps wallet_inv (retryPendingPayouts env)"
  unfolding confirmPendingWithdrawal_def retryPendingPayouts_def pending_disbursement_def
  by (intro keeps_intros keeps_outside [OF meta_wallet_inv] keeps_disbursement_requests [OF meta_wallet_inv])+

lemma steady_wp_inv:
  "wallet_inv w \<Longrightarrow> wp m (\<lambda>_. steady w) (steady w) w \<Longrightarrow> wp m (\<lambda>_. wallet_inv) wallet_inv w"
  by (elim wp_mono) (auto intro: steady_inv)

lemma steady_from:
  assumes "steady w s" "wp m (\<lambda>_. steady s) (steady s) s"
  shows "wp m (\<lambda>_. steady w) (steady w) s"
  using assms(2) by (rule wp_mono) (use assms(1) same_accounts_trans [of w s] in simp_all)

lemma adminAdjustBalance_inv:
  assumes "wallet_inv w" "is_user w userId"
  shows "wp (adminAdjustBalance env userId action amount currency) (\<lambda>_. wallet_inv) wallet_inv w"
proof -
  let ?w = "w\<lparr>uuids := uuids w + 1\<rparr>"
  have w: "wallet_inv ?w" "is_user ?w userId"
    using assms by (simp_all add: inv_simps is_user_def)
  have "wp (wallet_reserve env userId amount r currency None) (\<lambda>_. wallet_inv) wallet_inv ?w" for r
    using wallet_reserve_ok [OF wallet_inv_ledger [OF w(1)] w(2)] by (intro steady_wp_inv w(1))
  moreover have "wp (record_movements env rt r [\<lparr>mv_account = user, mv_amount = x\<rparr>, \<lparr>mv_account = house, mv_amount = y\<rparr>]
        None None) (\<lambda>_. wallet_inv) wallet_inv ?w"
    "wp (record_movements env rt r [\<lparr>mv_account = house, mv_amount = y\<rparr>, \<lparr>mv_account = user, mv_amount = x\<rparr>]
        None None) (\<lambda>_. wallet_inv) wallet_inv ?w"
    if "List.find (by_id_currency userId currency) (accounts w) = Some user"
      "List.find (by_name_currency ''house'' currency) (accounts w) = Some house" for user house rt r x y
    using current_user [OF wallet_inv_ledger [OF w(1)] w(2) _ _ house_name, of currency user currency house] that
    by (intro record_inv w(1); simp)+
  ultimately show ?thesis
    using assms(1) by (auto simp: adminAdjustBalance_def wp_bnd wp_account_by wp_randomUUID
        split: option.splits adjust_action.splits)
qed

lemma writeHandLedger_inv:
  assumes "wallet_inv w" "\<forall>e\<in>set entries. is_user w (se_playerId e)"
  shows "wp (writeHandLedger env handId st idx entries currency) (\<lambda>_. wallet_inv) wallet_inv w"
proof -
  let ?loop = "\<lambda>key. each (\<lambda>e. wallet_reserve env (se_playerId e) (- se_delta e) key currency (Some key))"
  have step: "wp (wallet_reserve env (se_playerId e) n key currency k) (\<lambda>_. steady w) (steady w) s"
    if s: "steady w s" and "e \<in> set entries" for s e n key k
  proof (rule steady_from [OF s])
    have "is_user s (se_playerId e)" "ledger_ok s"
      using that assms(2) is_user_same [of w s] by auto
    then show "wp (wallet_reserve env (se_playerId e) n key currency k) (\<lambda>_. steady s) (steady s) s"
      by (intro wallet_reserve_ok)
  qed
  have loop: "wp (?loop key es) (\<lambda>_. steady w) (steady w) s" if "steady w s" "set es \<subseteq> set entries" for es key s
  proof -
    have "wp (?loop key es) (\<lambda>_. (\<lambda>xs s. steady w s \<and> set xs \<subseteq> set entries) []) (steady w) s"
      by (rule wp_each) (use that in \<open>auto intro!: wp_mono [OF step]\<close>)
    then show ?thesis by (rule wp_mono) auto
  qed
  have commit: "wp (do_when b (wallet_commit env key n 0 currency k)) (\<lambda>_. steady w) (steady w) s"
    if "steady w s" for s key n k b
    using steady_from [OF that wallet_commit_ok] that by (simp add: wp_do_when)
  have all: "wp (seq (?loop key (filter (\<lambda>e. se_delta e < 0) entries))
      (do_when b (wallet_commit env key n 0 currency (Some key)))) (\<lambda>_. steady w) (steady w) w" for key b n
    unfolding wp_seq
    by (rule wp_then [where R = "steady w"], rule loop) (use assms(1) commit in \<open>auto simp: wallet_inv_def\<close>)
  have "wallet_inv (s\<lparr>accounts := accounts w, journals := journals w, settlements := settlements w,
       disbursements := disbursements w, pendingDeposits := pendingDeposits w\<rparr>)" for s
    using assms(1) by (simp add: wallet_inv_def is_user_def ledger_ok_def balanced_def totalJournal_def)
  moreover have "wallet_inv s" if "steady w s" for s
    using steady_inv [OF assms(1)] that by simp
  ultimately show ?thesis
    unfolding writeHandLedger_def Let_def wp_db_transaction
    by (intro wp_mono [OF all]) simp_all
qed

section \<open>Runs\<close>

datatype wallet_call =
    CReserve string int string string "string option"
  | CCommit string int int string "string option"
  | CRollback string int string string "string option"
  | CHandLedger string street nat "settlement_entry list" string
  | CConfirm3DS provider_callback
  | CProcessDisbursement string string string provider_status
  | CRetryPayouts
  | CWithdraw string int string string string "string option"
  | CDeposit string int string string string "string option"
  | CBankTransfer string int string string string "string option"
  | CCancelDeposit string string
  | CMarkDeposit string "string option"
  | CRejectExpired
  | CConfirmDeposit string string
  | CRejectDeposit string string "string option"
  | CConfirmWithdrawal string
  | CRejectWithdrawal string
  | CAdjustBalance string adjust_action int string
  | CBankReconcile "bank_entry list"

fun wallet_exec :: "'s wallet_env \<Rightarrow> wallet_call \<Rightarrow> 's wallet \<Rightarrow> 's wallet" where
  "wallet_exec env (CReserve a n r cur k) w = snd (wallet_reserve env a n r cur k w)"
| "wallet_exec env (CCommit r n rake cur k) w = snd (wallet_commit env r n rake cur k w)"
| "wallet_exec env (CRollback a n r cur k) w = snd (wallet_rollback env a n r cur k w)"
| "wallet_exec env (CHandLedger h st i es cur) w = snd (writeHandLedger env h st i es cur w)"
| "wallet_exec env (CConfirm3DS ev) w = snd (confirm3DS env ev w)"
| "wallet_exec env (CProcessDisbursement e k t st) w = snd (processDisbursement env e k t st w)"
| "wallet_exec env CRetryPayouts w = snd (retryPendingPayouts env w)"
| "wallet_exec env (CWithdraw a n d ip cur k) w = snd (withdraw env a n d ip cur k w)"
| "wallet_exec env (CDeposit a n d ip cur k) w = snd (deposit env a n d ip cur k w)"
| "wallet_exec env (CBankTransfer a n d ip cur k) w = snd (initiateBankTransfer env a n d ip cur k w)"
| "wallet_exec env (CCancelDeposit u i) w = snd (cancelPendingDeposit env u i w)"
| "wallet_exec env (CMarkDeposit i j) w = snd (markActionRequiredIfPending i j w)"
| "wallet_exec env CRejectExpired w = snd (rejectExpiredPendingDeposits env w)"
| "wallet_exec env (CConfirmDeposit i a) w = snd (confirmPendingDeposit env i a w)"
| "wallet_exec env (CRejectDeposit i a r) w = snd (rejectPendingDeposit env i a r w)"
| "wallet_exec env (CConfirmWithdrawal i) w = snd (confirmPendingWithdrawal env i w)"
| "wallet_exec env (CRejectWithdrawal i) w = snd (rejectPendingWithdrawal env i w)"
| "wallet_exec env (CAdjustBalance u a n cur) w = snd (adminAdjustBalance env u a n cur w)"
| "wallet_exec env (CBankReconcile es) w = snd (bank_reconcile env es w)"

text \<open>The accounts a call names are users' accounts, and so is the account of the challenge a
  provider callback completes.\<close>

fun admissible :: "'s wallet_env \<Rightarrow> wallet_call \<Rightarrow> 's wallet \<Rightarrow> bool" where
  "admissible env (CReserve a n r cur k) w = is_user w a"
| "admissible env (CRollback a n r cur k) w = is_user w a"
| "admissible env (CHandLedger h st i es cur) w = (\<forall>e\<in>set es. is_user w (se_playerId e))"
| "admissible env (CConfirm3DS ev) w =
     (case r_get (client env) (challengeKey (pc_providerTxnId ev))
             (store (snd (isDuplicateWebhook env (pc_eventId ev) w))) of
        None \<Rightarrow> True
      | Some t \<Rightarrow> (case decode_challenge t of None \<Rightarrow> True | Some c \<Rightarrow> is_user w (ch_accountId c)))"
| "admissible env (CBankTransfer a n d ip cur k) w = is_user w a"
| "admissible env (CAdjustBalance u a n cur) w = is_user w u"
| "admissible env _ w = True"

inductive wallet_reach :: "'s wallet \<Rightarrow> 's wallet \<Rightarrow> bool" for w0 where
  start: "wallet_reach w0 w0"
| call: "wallet_reach w0 w \<Longrightarrow> admissible env c w \<Longrightarrow> wallet_reach w0 (wallet_exec env c w)"

lemma wp_snd: "wp m (\<lambda>_. P) P w \<Longrightarrow> P (snd (m w))"
  by (cases "m w"; cases "fst (m w)") (simp_all add: wp_def)

lemmas call_inv = writeHandLedger_inv processDisbursement_inv adminAdjustBalance_inv
  keeps_payments [OF meta_wallet_inv, THEN wp_inv] keeps_pending_deposits [THEN wp_inv]
  keeps_mark [THEN wp_inv] cancelPendingDeposit_inv [THEN wp_inv] keeps_withdrawal_requests [THEN wp_inv]
  rejectPendingWithdrawal_inv [THEN wp_inv] keeps_bank_reconcile [THEN wp_inv]

lemma wallet_exec_inv:
  assumes "wallet_inv w" "admissible env c w"
  shows "wallet_inv (wallet_exec env c w)"
proof (cases c)
  case (CReserve a n r cur k)
  then show ?thesis
    using assms wallet_reserve_ok [OF wallet_inv_ledger [OF assms(1)]]
    by (auto intro!: wp_snd [where P = wallet_inv] steady_wp_inv)
next
  case (CCommit r n rake cur k)
  then show ?thesis
    using assms wallet_commit_ok [OF wallet_inv_ledger [OF assms(1)]] by (auto intro!: wp_snd [where P = wallet_inv] steady_wp_inv)
next
  case (CRollback a n r cur k)
  then show ?thesis
    using assms wallet_rollback_ok [OF wallet_inv_ledger [OF assms(1)]]
    by (auto intro!: wp_snd [where P = wallet_inv] steady_wp_inv)
next
  case (CConfirm3DS ev)
  then show ?thesis
    using assms by (auto intro!: wp_snd [where P = wallet_inv] confirm3DS_inv split: option.splits)
next
  case (CBankTransfer a n d ip cur k)
  then show ?thesis
    using assms initiateBankTransfer_inv [of a env n d ip cur k] by (auto simp: keeps_def)
qed (use assms in \<open>auto intro!: wp_snd [where P = wallet_inv] call_inv\<close>)

lemma wallet_reach_inv: "wallet_reach w0 w \<Longrightarrow> wallet_inv w0 \<Longrightarrow> wallet_inv w"
  by (induction rule: wallet_reach.induct) (auto intro: wallet_exec_inv)

end
