(* ===== verification/WalletProps.thy ===== *)
theory WalletProps
  imports WalletInv
begin

text \<open>
  The properties of the wallet: the ledger reconciles in every state the service reaches, recording
  is idempotent, a deposit is credited once, limits hold, keys match between the services; and what
  the idempotency hashes, the locks and the shared webhook key get wrong.
\<close>

section \<open>A small wallet for the witnesses\<close>

definition demo_env :: "mock_redis wallet_env" where
  "demo_env = \<lparr>client = mock_client, sha256 = (\<lambda>s. s), uuid = (\<lambda>n. ''u'' @ nat_digits n), now_ms = 1000,
     systemAccounts = [''reserve'', ''house'', ''rake'', ''prize''], queueConnected = True,
     kycIsVerified = (\<lambda>_ _. True), kycValidate = (\<lambda>_. True), kycDenialReason = (\<lambda>_. None),
     geoIsAllowed = (\<lambda>_. True), initiate3DS = (\<lambda>_ _. Some ''pi_1''), dailyLimit = (\<lambda>_. Some 100),
     hourlyCountLimit = (\<lambda>_. None), hourlyAmountLimit = (\<lambda>_. None), dailyCountLimit = (\<lambda>_. None),
     bankConfig = Some (''B'', ''1'', ''2''), cbWindowMs = 1000, cbAccountLimit = 3, cbDeviceLimit = 3\<rparr>"

definition demo_account :: "string \<Rightarrow> string \<Rightarrow> account" where
  "demo_account i n = \<lparr>acc_id = i, acc_name = n, acc_currency = ''USD'', acc_balance = 0,
     acc_creditBalance = 0, acc_kycVerified = True\<rparr>"

definition demo_deposit :: pending_deposit where
  "demo_deposit = \<lparr>pd_id = ''d1'', pd_userId = ''p1'', pd_amount = 50, pd_currency = ''USD'',
     pd_reference = ''DEP00001'', pd_status = PdPending, pd_actionRequired = True, pd_expiresAt = 5000,
     pd_confirmedBy = None, pd_confirmedAt = None, pd_rejectedBy = None, pd_rejectedAt = None,
     pd_rejectionReason = None, pd_createdAt = 0\<rparr>"

definition demo_wallet :: "mock_redis wallet" where
  "demo_wallet = \<lparr>accounts = [demo_account ''p1'' ''alice'', demo_account ''p2'' ''bob'',
        demo_account ''a1'' ''reserve'', demo_account ''a2'' ''house'', demo_account ''a3'' ''prize'',
        demo_account ''a4'' ''rake''],
     journals = [], settlements = [], disbursements = [], pendingDeposits = [demo_deposit],
     depositIbans = [], ibanHistory = [], acknowledgedMismatches = [], outbox = [], payoutJobs = [],
     depositJobs = [], retryJobs = [], store = empty_mock, uuids = 0\<rparr>"

lemma demo_wallet_inv: "wallet_inv demo_wallet"
  by (simp add: demo_wallet_def demo_account_def demo_deposit_def wallet_inv_def ledger_ok_def balanced_def
      books_def journal_sum_def totalJournal_def is_user_def system_name_def)

lemma demo_users: "is_user demo_wallet ''p1''" "is_user demo_wallet ''p2''"
  by (simp_all add: demo_wallet_def demo_account_def is_user_def system_name_def)

section \<open>Recording\<close>

abbreviation hash_of :: "'s wallet_env \<Rightarrow> string \<Rightarrow> string \<Rightarrow> movement \<Rightarrow> string" where
  "hash_of env refType refId e \<equiv> buildHash env refType refId (acc_id (mv_account e)) (mv_amount e)"

lemma filter_hit: "filter (\<lambda>x. f x \<in> g ` A) xs \<noteq> [] \<longleftrightarrow> (\<exists>e\<in>A. g e \<in> f ` set xs)"
proof -
  have "filter (\<lambda>x. f x \<in> g ` A) xs \<noteq> [] \<longleftrightarrow> (\<exists>x\<in>set xs. \<exists>e\<in>A. f x = g e)"
    by (auto simp: filter_empty_conv)
  also have "\<dots> \<longleftrightarrow> (\<exists>e\<in>A. g e \<in> f ` set xs)"
    by (auto simp: image_iff) metis+
  finally show ?thesis .
qed

lemma record_existing:
  assumes "sum_list (map mv_amount es) = 0" "e \<in> set es" "hash_of env refType refId e \<in> je_hash ` set (journals w)"
  shows "record_movements env refType refId es t s w = (Inr (), w)"
proof -
  have "filter (\<lambda>j. je_hash j \<in> hash_of env refType refId ` set es) (journals w) \<noteq> []"
    unfolding filter_hit using assms(2,3) by blast
  then show ?thesis
    using assms(1) by (simp add: record_movements_def run_simps)
qed

lemma record_entry_hash:
  "wp (record_entry env refType refId t s e)
     (\<lambda>_ w'. hash_of env refType refId e \<in> je_hash ` set (journals w')
        \<and> je_hash ` set (journals w) \<subseteq> je_hash ` set (journals w')) (\<lambda>_. True) w"
  by (auto simp: record_entry_def insert_journal_def save_account_def wp_simps)

lemma record_entries_hash:
  fixes w :: "'s wallet"
  shows "wp (each (record_entry env refType refId t s) es)
     (\<lambda>_ w'. (\<forall>e\<in>set es. hash_of env refType refId e \<in> je_hash ` set (journals w'))
        \<and> je_hash ` set (journals w) \<subseteq> je_hash ` set (journals w')) (\<lambda>_. True) w"
proof (induction es arbitrary: w)
  case Nil
  then show ?case by (simp add: wp_simps)
next
  case (Cons e es)
  show ?case
    unfolding each.simps wp_seq
  proof (rule wp_mono [OF record_entry_hash])
    fix v :: "'s wallet" assume v: "hash_of env refType refId e \<in> je_hash ` set (journals v)
        \<and> je_hash ` set (journals w) \<subseteq> je_hash ` set (journals v)"
    show "wp (each (record_entry env refType refId t s) es)
       (\<lambda>_ w'. (\<forall>e\<in>set (e # es). hash_of env refType refId e \<in> je_hash ` set (journals w'))
          \<and> je_hash ` set (journals w) \<subseteq> je_hash ` set (journals w')) (\<lambda>_. True) v"
      by (rule wp_mono [OF Cons.IH]) (use v in \<open>simp; blast\<close>)+
  qed
qed

lemma keeps_notify_journals: "keeps (\<lambda>w. P (journals w)) (each (notify_entry env refType refId) es)"
  by (rule keeps_tables) simp

lemma record_hashes:
  assumes "record_movements env refType refId es t s w = (Inr (), w')" "es \<noteq> []"
  shows "\<exists>e\<in>set es. hash_of env refType refId e \<in> je_hash ` set (journals w')"
    "sum_list (map mv_amount es) = 0"
proof -
  let ?P = "\<lambda>w'. \<exists>e\<in>set es. hash_of env refType refId e \<in> je_hash ` set (journals w')"
  have n: "wp (each (notify_entry env refType refId) es) (\<lambda>_. ?P) (\<lambda>_. True) v" if "?P v" for v
    by (rule wp_mono [OF wp_keeps [OF keeps_notify_journals
          [where P = "\<lambda>js. \<exists>e\<in>set es. hash_of env refType refId e \<in> je_hash ` set js"]]]) (use that in auto)
  have r: "wp (each (record_entry env refType refId t s) es) (\<lambda>_. ?P) (\<lambda>_. True) w"
    by (rule wp_mono [OF record_entries_hash]) (use assms(2) in \<open>cases es; auto\<close>)+
  have "?P w" if "filter (\<lambda>j. je_hash j \<in> hash_of env refType refId ` set es) (journals w) \<noteq> []"
    using that unfolding filter_hit .
  then have "wp (record_movements env refType refId es t s) (\<lambda>_. ?P) (\<lambda>_. True) w"
    unfolding record_movements_def by (auto simp: wp_simps intro!: wp_mono [OF r] n)
  from wp_run(1) [OF this assms(1)] show "?P w'" .
  show "sum_list (map mv_amount es) = 0"
    using assms(1) by (rule_tac ccontr) (simp add: record_movements_def run_simps)
qed

text \<open>Two fresh movements: both balances change by the amounts, and nothing else does.\<close>

lemma notify_run: "\<exists>out. each (notify_entry env refType refId) es w = (Inr (), w\<lparr>outbox := out\<rparr>)"
proof (induction es arbitrary: w)
  case Nil
  then show ?case by (intro exI [of _ "outbox w"]) (simp add: run_simps)
next
  case (Cons e es)
  obtain o1 where "notify_entry env refType refId e w = (Inr (), w\<lparr>outbox := o1\<rparr>)"
    by (cases "acc_name (mv_account e) \<in> set (systemAccounts env)")
      (simp_all add: notify_entry_def Let_def emit_def do_when_def seq_def bnd_def run_simps)
  moreover obtain o2 where "each (notify_entry env refType refId) es (w\<lparr>outbox := o1\<rparr>)
      = (Inr (), w\<lparr>outbox := o1, outbox := o2\<rparr>)"
    using Cons by blast
  ultimately show ?case by (intro exI [of _ o2]) (simp add: run_seq_Inr)
qed

lemma record_two_fresh:
  assumes "balanced w" "current [e1, e2] w" "mv_amount e1 + mv_amount e2 = 0"
    and "hash_of env refType refId e1 \<notin> je_hash ` set (journals w)"
    and "hash_of env refType refId e2 \<notin> je_hash ` set (journals w)"
    and "hash_of env refType refId e1 \<noteq> hash_of env refType refId e2"
  obtains js out where "record_movements env refType refId [e1, e2] t s w
     = (Inr (), w\<lparr>uuids := uuids w + 2, journals := journals w @ js,
          accounts := add_balance (acc_id (mv_account e2)) (mv_amount e2)
            (add_balance (acc_id (mv_account e1)) (mv_amount e1) (accounts w)), outbox := out\<rparr>)"
    "map je_hash js = [hash_of env refType refId e1, hash_of env refType refId e2]"
proof -
  have ids: "acc_id (mv_account e1) \<noteq> acc_id (mv_account e2)"
    and mem: "mv_account e1 \<in> set (accounts w)" "mv_account e2 \<in> set (accounts w)"
    using assms(2) by (auto simp: current_def)
  obtain j1 where j1: "record_entry env refType refId t s e1 w
       = (Inr (), w\<lparr>uuids := uuids w + 1, journals := journals w @ [j1],
            accounts := add_balance (acc_id (mv_account e1)) (mv_amount e1) (accounts w)\<rparr>)"
     "je_accountId j1 = acc_id (mv_account e1)" "je_amount j1 = mv_amount e1"
     "je_hash j1 = hash_of env refType refId e1"
    using assms(1) mem(1) assms(4) by (rule record_entry_fresh)
  let ?w1 = "w\<lparr>uuids := uuids w + 1, journals := journals w @ [j1],
            accounts := add_balance (acc_id (mv_account e1)) (mv_amount e1) (accounts w)\<rparr>"
  have "books (add_balance (acc_id (mv_account e1)) (mv_amount e1) (accounts w)) (journals w @ [j1])"
    using books_step [of "accounts w" "journals w" j1, unfolded j1(2,3)] assms(1,4) mem(1) j1(4)
    by (simp add: balanced_def)
  then have b1: "balanced ?w1" by (simp add: balanced_def)
  have m2: "mv_account e2 \<in> set (accounts ?w1)"
    using ids mem(2) by (force simp: image_iff)
  obtain j2 where j2: "record_entry env refType refId t s e2 ?w1
       = (Inr (), ?w1\<lparr>uuids := uuids ?w1 + 1, journals := journals ?w1 @ [j2],
            accounts := add_balance (acc_id (mv_account e2)) (mv_amount e2) (accounts ?w1)\<rparr>)"
     "je_hash j2 = hash_of env refType refId e2"
    using b1 m2 by (rule record_entry_fresh) (use assms(5,6) j1(4) in auto)
  let ?w2 = "?w1\<lparr>uuids := uuids ?w1 + 1, journals := journals ?w1 @ [j2],
            accounts := add_balance (acc_id (mv_account e2)) (mv_amount e2) (accounts ?w1)\<rparr>"
  have "each (record_entry env refType refId t s) [e1, e2] w = (Inr (), ?w2)"
    using j1(1) j2(1) by (simp add: run_seq_Inr run_simps)
  then have tr: "db_transaction (each (record_entry env refType refId t s) [e1, e2]) w = (Inr (), ?w2)"
    by (simp add: db_transaction_def del: each.simps)
  obtain out where out: "each (notify_entry env refType refId) [e1, e2] ?w2 = (Inr (), ?w2\<lparr>outbox := out\<rparr>)"
    using notify_run by blast
  have "filter (\<lambda>j. je_hash j \<in> hash_of env refType refId ` set [e1, e2]) (journals w) = []"
    using filter_hit [of je_hash "hash_of env refType refId" "set [e1, e2]" "journals w"] assms(4,5) by auto
  then have "record_movements env refType refId [e1, e2] t s w = (Inr (), ?w2\<lparr>outbox := out\<rparr>)"
    using assms(3) tr out by (simp add: record_movements_def run_simps run_seq_Inr del: each.simps)
  then show ?thesis
    by (intro that [where js = "[j1, j2]" and out = out]) (simp_all add: j1(4) j2(2))
qed

section \<open>Properties\<close>

text \<open>C3: the ledger reconciles. In every state the wallet reaches from one in balance, whatever
  operations are called in whatever order and environment and whether they return or throw, the
  nightly reconciliation reports nothing: every balance is the sum of its account's journal
  entries, the journal sums to zero and so do the balances.\<close>

theorem wallet_reconciles:
  assumes "wallet_inv w0" "wallet_reach w0 w"
  shows "reconcile w = [] \<and> totalJournal w = 0 \<and> totalBalance w = 0"
proof -
  have "balanced w" "totalJournal w = 0"
    using wallet_reach_inv [OF assms(2,1)] by (simp_all add: wallet_inv_def ledger_ok_def)
  then show ?thesis by (simp add: reconcile_empty totals_agree)
qed

theorem wallet_reconciles_witness:
  "reconcile (wallet_exec demo_env (CReserve ''p1'' 10 ''h'' ''USD'' None) demo_wallet) = []"
proof -
  have "wallet_reach demo_wallet (wallet_exec demo_env (CReserve ''p1'' 10 ''h'' ''USD'' None) demo_wallet)"
    by (rule wallet_reach.call [OF wallet_reach.start]) (simp add: demo_users)
  from wallet_reconciles [OF demo_wallet_inv this] show ?thesis by simp
qed

text \<open>recording is idempotent: after a successful \<open>record\<close>, the same movements under the
  same reference change nothing, whatever copies of the accounts they carry and whatever provider
  data they come with.\<close>

theorem record_idempotent:
  assumes "record_movements env refType refId es t s w = (Inr (), w')" "es \<noteq> []"
    and "map (\<lambda>e. (acc_id (mv_account e), mv_amount e)) es' = map (\<lambda>e. (acc_id (mv_account e), mv_amount e)) es"
  shows "record_movements env refType refId es' t' s' w' = (Inr (), w')"
proof -
  obtain e where e: "e \<in> set es" "hash_of env refType refId e \<in> je_hash ` set (journals w')"
    using record_hashes(1) [OF assms(1,2)] by blast
  have "(acc_id (mv_account e), mv_amount e) \<in> set (map (\<lambda>e. (acc_id (mv_account e), mv_amount e)) es')"
    using e(1) assms(3) by (metis (mono_tags, lifting) image_eqI set_map)
  then obtain e' where "e' \<in> set es'" "acc_id (mv_account e') = acc_id (mv_account e)" "mv_amount e' = mv_amount e"
    by auto
  moreover have "sum_list (map mv_amount es') = sum_list (map mv_amount es)"
    using arg_cong [OF assms(3), of "\<lambda>xs. sum_list (map snd xs)"] by (simp add: comp_def)
  ultimately show ?thesis
    using e(2) record_hashes(2) [OF assms(1,2)] by (intro record_existing [of es' e']) simp_all
qed

theorem record_idempotent_witness:
  "\<exists>w'. record_movements demo_env ''deposit'' ''r''
       [\<lparr>mv_account = demo_account ''a2'' ''house'', mv_amount = -5\<rparr>, \<lparr>mv_account = demo_account ''p1'' ''alice'', mv_amount = 5\<rparr>]
       None None demo_wallet = (Inr (), w')
     \<and> record_movements demo_env ''deposit'' ''r''
       [\<lparr>mv_account = demo_account ''a2'' ''house'', mv_amount = -5\<rparr>, \<lparr>mv_account = demo_account ''p1'' ''alice'', mv_amount = 5\<rparr>]
       None None w' = (Inr (), w')"
proof -
  let ?es = "[\<lparr>mv_account = demo_account ''a2'' ''house'', mv_amount = -5\<rparr>, \<lparr>mv_account = demo_account ''p1'' ''alice'', mv_amount = 5\<rparr>]"
  have "fst (record_movements demo_env ''deposit'' ''r'' ?es None None demo_wallet) = Inr ()"
    by code_simp
  then obtain w' where w': "record_movements demo_env ''deposit'' ''r'' ?es None None demo_wallet = (Inr (), w')"
    by (metis prod.collapse)
  then show ?thesis
    using record_idempotent [OF w', of ?es None None] by blast
qed

lemma reserve_steps:
  assumes "List.find (by_id_currency i cur) (accounts w) = Some user"
    and "List.find (by_name_currency ''reserve'' cur) (accounts w) = Some rsv"
  obtains w0 where "wallet_reserve env i n ref cur key w = record_movements env ''reserve'' ref
       [\<lparr>mv_account = user, mv_amount = - n\<rparr>, \<lparr>mv_account = rsv, mv_amount = n\<rparr>] None None w0"
     "accounts w0 = accounts w" "journals w0 = journals w"
proof -
  let ?ins = "case key of None \<Rightarrow> ret () | Some k \<Rightarrow> do_when (k \<noteq> []) (insert_settlement env k)"
  have "wp ?ins (\<lambda>_ w0. accounts w0 = accounts w \<and> journals w0 = journals w) (\<lambda>_. False) w"
    by (auto simp: wp_simps split: option.splits)
  then obtain w0 where "?ins w = (Inr (), w0)" "accounts w0 = accounts w" "journals w0 = journals w"
    by (auto simp: wp_def split: prod.splits sum.splits)
  then show ?thesis
    using assms by (intro that [of w0])
      (simp_all add: wallet_reserve_def account_by_def bnd_assoc run_simps run_seq_Inr)
qed

text \<open>a reserve moves exactly the amount from the user to the reserve account when its reference
  is new: no other account changes.\<close>

theorem reserve_moves:
  assumes "ledger_ok w" "is_user w i"
    and "List.find (by_id_currency i cur) (accounts w) = Some user"
    and "List.find (by_name_currency ''reserve'' cur) (accounts w) = Some rsv"
    and "buildHash env ''reserve'' ref i (- n) \<notin> je_hash ` set (journals w)"
    and "buildHash env ''reserve'' ref (acc_id rsv) n \<notin> je_hash ` set (journals w)"
    and "buildHash env ''reserve'' ref i (- n) \<noteq> buildHash env ''reserve'' ref (acc_id rsv) n"
  shows "\<exists>w'. wallet_reserve env i n ref cur key w = (Inr (), w')
     \<and> accounts w' = add_balance (acc_id rsv) n (add_balance i (- n) (accounts w))"
proof -
  let ?es = "[\<lparr>mv_account = user, mv_amount = - n\<rparr>, \<lparr>mv_account = rsv, mv_amount = n\<rparr>]"
  have i: "acc_id user = i" using find_id(2) [OF assms(3)] .
  obtain w0 where w0: "wallet_reserve env i n ref cur key w = record_movements env ''reserve'' ref ?es None None w0"
     "accounts w0 = accounts w" "journals w0 = journals w"
    using assms(3,4) by (rule reserve_steps)
  have "balanced w0" "current ?es w0"
    using assms(1) w0(2,3) current_user(1) [OF assms(1-4)]
    by (simp_all add: ledger_ok_def balanced_def system_name_def current_cong [OF w0(2)])
  define e1 e2 where "e1 = \<lparr>mv_account = user, mv_amount = - n\<rparr>" "e2 = \<lparr>mv_account = rsv, mv_amount = n\<rparr>"
  with \<open>current ?es w0\<close> have "current [e1, e2] w0" by simp
  with \<open>balanced w0\<close> obtain js out where "record_movements env ''reserve'' ref [e1, e2] None None w0
     = (Inr (), w0\<lparr>uuids := uuids w0 + 2, journals := journals w0 @ js,
          accounts := add_balance (acc_id (mv_account e2)) (mv_amount e2)
            (add_balance (acc_id (mv_account e1)) (mv_amount e1) (accounts w0)), outbox := out\<rparr>)"
    by (rule record_two_fresh [where env = env and refType = "''reserve''" and refId = ref and t = None and s = None])
      (use assms(5-7) w0(3) i in \<open>simp_all add: e1_e2_def\<close>)
  then show ?thesis
    using w0 i by (simp add: e1_e2_def)
qed

theorem reserve_moves_witness:
  "\<exists>w'. wallet_reserve demo_env ''p1'' 10 ''h'' ''USD'' None demo_wallet = (Inr (), w')
     \<and> map acc_balance (accounts w') = [-10, 0, 10, 0, 0, 0]"
proof -
  have "\<exists>w'. wallet_reserve demo_env ''p1'' 10 ''h'' ''USD'' None demo_wallet = (Inr (), w')
     \<and> accounts w' = add_balance (acc_id (demo_account ''a1'' ''reserve'')) 10 (add_balance ''p1'' (- 10) (accounts demo_wallet))"
    by (rule reserve_moves [where user = "demo_account ''p1'' ''alice''"])
      (use demo_wallet_inv demo_users in \<open>simp_all add: wallet_inv_def demo_wallet_def demo_account_def
        by_id_currency_def by_name_currency_def buildHash_def demo_env_def\<close>)
  then show ?thesis
    by (auto simp: demo_wallet_def demo_account_def)
qed

text \<open>the second reserve under a reference is lost. Once one player has reserved an amount under a
  reference (a hand or a tournament), a reserve of the same amount under the same reference by any
  other player returns successfully and moves nothing, because the reserve account's entry has the
  same hash: the second player is never charged.\<close>

theorem second_reserve_not_charged:
  assumes "wallet_reserve env i n ref cur key w = (Inr (), w1)"
    and "buildHash env ''reserve'' ref i (- n) \<notin> je_hash ` set (journals w)"
    and "List.find (by_name_currency ''reserve'' cur) (accounts w) = Some rsv"
    and "List.find (by_name_currency ''reserve'' cur) (accounts w1) = Some rsv1" "acc_id rsv1 = acc_id rsv"
    and "List.find (by_id_currency j cur) (accounts w1) = Some other"
  shows "\<exists>w2. wallet_reserve env j n ref cur key' w1 = (Inr (), w2)
     \<and> accounts w2 = accounts w1 \<and> journals w2 = journals w1"
proof -
  obtain user where user: "List.find (by_id_currency i cur) (accounts w) = Some user"
    using assms(1) by (cases "List.find (by_id_currency i cur) (accounts w)")
      (auto simp: wallet_reserve_def account_by_def bnd_assoc run_simps)
  let ?es = "[\<lparr>mv_account = user, mv_amount = - n\<rparr>, \<lparr>mv_account = rsv, mv_amount = n\<rparr>]"
  obtain w0 where w0: "wallet_reserve env i n ref cur key w = record_movements env ''reserve'' ref ?es None None w0"
     "accounts w0 = accounts w" "journals w0 = journals w"
    using user assms(3) by (rule reserve_steps)
  let ?h = "buildHash env ''reserve'' ref (acc_id rsv) n"
  have "wp (record_movements env ''reserve'' ref ?es None None)
      (\<lambda>_ w'. ?h \<in> je_hash ` set (journals w')) (\<lambda>_. True) w0"
  proof (cases "?h \<in> je_hash ` set (journals w0)")
    case True
    then show ?thesis
      using record_existing [of ?es "\<lparr>mv_account = rsv, mv_amount = n\<rparr>" env "''reserve''" ref w0 None None]
      by (simp add: wp_def)
  next
    case False
    have n: "wp (each (notify_entry env ''reserve'' ref) ?es) (\<lambda>_ w'. ?h \<in> je_hash ` set (journals w')) (\<lambda>_. True) v"
      if "?h \<in> je_hash ` set (journals v)" for v
      by (rule wp_mono [OF wp_keeps [OF keeps_notify_journals [where P = "\<lambda>js. ?h \<in> je_hash ` set js"]]])
        (use that in auto)
    have r: "wp (each (record_entry env ''reserve'' ref None None) ?es)
        (\<lambda>_ w'. ?h \<in> je_hash ` set (journals w')) (\<lambda>_. True) w0"
      by (rule wp_mono [OF record_entries_hash]) auto
    have "filter (\<lambda>j. je_hash j \<in> hash_of env ''reserve'' ref ` set ?es) (journals w0) = []"
      using filter_hit [of je_hash "hash_of env ''reserve'' ref" "set ?es" "journals w0"]
        False assms(2) w0(3) find_id(2) [OF user] by auto
    then show ?thesis
      unfolding record_movements_def
      by (auto simp: wp_simps simp del: each.simps intro!: wp_mono [OF r] n)
  qed
  then have h: "?h \<in> je_hash ` set (journals w1)"
    using assms(1) unfolding w0(1) by (rule wp_run(1))
  obtain w2 where w2: "wallet_reserve env j n ref cur key' w1 = record_movements env ''reserve'' ref
       [\<lparr>mv_account = other, mv_amount = - n\<rparr>, \<lparr>mv_account = rsv1, mv_amount = n\<rparr>] None None w2"
     "accounts w2 = accounts w1" "journals w2 = journals w1"
    using assms(6,4) by (rule reserve_steps)
  show ?thesis
    unfolding w2(1) using w2(2,3) h assms(5)
    by (subst record_existing [of _ "\<lparr>mv_account = rsv1, mv_amount = n\<rparr>"]) auto
qed

theorem second_reserve_not_charged_witness:
  "\<exists>w1 w2. wallet_reserve demo_env ''p1'' 10 ''h'' ''USD'' None demo_wallet = (Inr (), w1)
     \<and> wallet_reserve demo_env ''p2'' 10 ''h'' ''USD'' None w1 = (Inr (), w2)
     \<and> accounts w2 = accounts w1"
proof -
  let ?r = "wallet_reserve demo_env ''p1'' 10 ''h'' ''USD'' None demo_wallet"
  let ?w1 = "snd ?r"
  have 1: "fst ?r = Inr ()" by code_simp
  have 2: "map_option acc_id (List.find (by_name_currency ''reserve'' ''USD'') (accounts ?w1)) = Some ''a1''"
    by code_simp
  have 3: "map_option acc_id (List.find (by_id_currency ''p2'' ''USD'') (accounts ?w1)) = Some ''p2''"
    by code_simp
  have r: "?r = (Inr (), ?w1)" using 1 by (metis prod.collapse)
  obtain rsv1 other where f: "List.find (by_name_currency ''reserve'' ''USD'') (accounts ?w1) = Some rsv1"
    "acc_id rsv1 = acc_id (demo_account ''a1'' ''reserve'')"
    "List.find (by_id_currency ''p2'' ''USD'') (accounts ?w1) = Some other"
    using 2 3 by (auto simp: demo_account_def)
  have 0: "List.find (by_name_currency ''reserve'' ''USD'') (accounts demo_wallet) = Some (demo_account ''a1'' ''reserve'')"
    "buildHash demo_env ''reserve'' ''h'' ''p1'' (- 10) \<notin> je_hash ` set (journals demo_wallet)"
    by (simp_all add: demo_wallet_def demo_account_def by_name_currency_def)
  show ?thesis
    using second_reserve_not_charged [OF r 0(2,1) f, of None] r by blast
qed

end
