(* ===== verification/WalletLocks.thy ===== *)
theory WalletLocks
  imports WalletProps
begin

text \<open>
  The parts of the wallet that rest on Redis: the daily limit, the idempotency lock of deposits and
  withdrawals, the lock around a pending deposit and the marks that make webhooks run once. The
  lemmas are stated in the locale \<open>wallet_redis\<close>, whose only law is that the client of the
  environment is a Redis client; the properties hold for every such client and are tried on the
  in-memory one.
\<close>

locale wallet_redis =
  fixes env :: "'s wallet_env"
  assumes client_redis: "redis (client env)"
begin

lemmas redis_laws =
  redis.get_set [OF client_redis] redis.set_stored [OF client_redis] redis.get_del [OF client_redis]
  redis.get_expire [OF client_redis] redis.get_zset [OF client_redis]

lemma rget_run: "rget env k w = (Inr (r_get (client env) k (store w)), w)"
  by (simp add: rget_def run_simps)

lemma rset_run:
  "rset env k v ex nx w = (Inr (\<not> nx \<or> r_get (client env) k (store w) = None),
     w\<lparr>store := snd (r_set (client env) (now_ms env) k v (Some ex) nx (store w))\<rparr>)"
  by (simp add: rset_def setWithOptions_set case_prod_beta redis_laws)

lemma rincrby_run:
  assumes "counter_of (r_get (client env) k (store w)) = Some c"
  shows "rincrby env k n w = (Inr (c + n), w\<lparr>store := snd (r_incrby (client env) k n (store w))\<rparr>)"
  using redis.incrby_result [OF client_redis assms, of n]
  by (cases "r_incrby (client env) k n (store w)") (simp add: rincrby_def)

lemma rexpire_run:
  "rexpire env k ttl w = (Inr (fst (r_expire (client env) (now_ms env) k ttl (store w))),
     w\<lparr>store := snd (r_expire (client env) (now_ms env) k ttl (store w))\<rparr>)"
  by (simp add: rexpire_def case_prod_beta)

lemma wp_redis:
  "wp (rget env k) Q E w = Q (r_get (client env) k (store w)) w"
  "wp (rset env k v ex nx) Q' E w = Q' (\<not> nx \<or> r_get (client env) k (store w) = None)
     (w\<lparr>store := snd (r_set (client env) (now_ms env) k v (Some ex) nx (store w))\<rparr>)"
  "wp (rexpire env k ttl) Q'' E w = Q'' (fst (r_expire (client env) (now_ms env) k ttl (store w)))
     (w\<lparr>store := snd (r_expire (client env) (now_ms env) k ttl (store w))\<rparr>)"
  "wp (rdel env k) Q3 E w = Q3 () (w\<lparr>store := r_del (client env) k (store w)\<rparr>)"
  by (simp_all add: wp_def rget_run rset_run rexpire_run rdel_def run_simps)

lemma wp_rincrby:
  assumes "counter_of (r_get (client env) k (store w)) = Some c"
  shows "wp (rincrby env k n) Q E w = Q (c + n) (w\<lparr>store := snd (r_incrby (client env) k n (store w))\<rparr>)"
  by (simp add: wp_def rincrby_run [OF assms])

abbreviation counter :: "string \<Rightarrow> 's wallet \<Rightarrow> int option" where
  "counter k w \<equiv> counter_of (r_get (client env) k (store w))"

lemma counter_steps:
  assumes "counter k w = Some c"
  shows "counter k (w\<lparr>store := snd (r_incrby (client env) k n (store w))\<rparr>) = Some (c + n)"
    "counter k (w\<lparr>store := snd (r_expire (client env) now k ttl (store w))\<rparr>) = Some c"
    "counter k (w\<lparr>outbox := out\<rparr>) = Some c"
  using assms redis.counter_incrby [OF client_redis, of k "store w" c n] by (simp_all add: redis_laws)

text \<open>A call within the limit adds its amount to the counter, any other throws and leaves the
  counter as it was.\<close>

lemma daily_limit_step:
  assumes "counter (dailyKey env x a) w = Some c" "dailyLimit env x = Some limit"
  shows "wp (enforceDailyLimit env x a n cur)
     (\<lambda>_ w'. c + n \<le> limit \<and> counter (dailyKey env x a) w' = Some (c + n))
     (\<lambda>w'. c + n > limit \<and> counter (dailyKey env x a) w' = Some c) w"
proof -
  let ?k = "dailyKey env x a"
  let ?w1 = "w\<lparr>store := snd (r_incrby (client env) ?k n (store w))\<rparr>"
  have tail: "wp (do_when (c + n > limit)
        (bnd (rincrby env ?k (- n)) (\<lambda>_. seq (emit (AntiCheatFlag a x n (c + n) limit cur)) (raise DailyLimitExceeded))))
     (\<lambda>_ w'. c + n \<le> limit \<and> counter ?k w' = Some (c + n)) (\<lambda>w'. c + n > limit \<and> counter ?k w' = Some c) v"
    if v: "counter ?k v = Some (c + n)" for v
    using counter_steps(1) [OF v, where n = "- n"] v
    by (simp add: wp_simps wp_rincrby [OF v] emit_def)
  have 1: "counter ?k ?w1 = Some (c + n)"
    using counter_steps(1) [OF assms(1), where n = n] .
  have 2: "wp (do_when (c + n = n) (bnd (rexpire env ?k (secs_to_midnight (now_ms env))) (\<lambda>_. ret ())))
     (\<lambda>_ v. counter ?k v = Some (c + n)) (\<lambda>_. False) ?w1"
    using 1 counter_steps(2) [OF 1] by (simp add: wp_simps wp_redis)
  show ?thesis
    unfolding enforceDailyLimit_def Let_def assms(2) option.case wp_bnd wp_rincrby [OF assms(1)] wp_seq
    by (rule wp_mono [OF 2]) (use tail in \<open>simp_all add: wp_bnd wp_seq\<close>)
qed

end

section \<open>The daily limit\<close>

text \<open>A day of requests: the total of the amounts the limit lets through.\<close>

fun daily_run :: "'s wallet_env \<Rightarrow> wallet_op \<Rightarrow> string \<Rightarrow> string \<Rightarrow> int list \<Rightarrow> 's wallet \<Rightarrow> int" where
  "daily_run env x a cur [] w = 0"
| "daily_run env x a cur (n # ns) w =
     (case enforceDailyLimit env x a n cur w of
        (Inl _, w') \<Rightarrow> daily_run env x a cur ns w'
      | (Inr _, w') \<Rightarrow> n + daily_run env x a cur ns w')"

context wallet_redis
begin

lemma daily_run_bounded:
  assumes "counter (dailyKey env x a) w = Some c" "dailyLimit env x = Some limit" "c \<le> limit"
  shows "c + daily_run env x a cur ns w \<le> limit"
  using assms(1,3)
proof (induction ns arbitrary: w c)
  case (Cons n ns)
  note step = daily_limit_step [OF Cons.prems(1) assms(2), of n cur]
  show ?case
  proof (cases "enforceDailyLimit env x a n cur w")
    case (Pair r w')
    show ?thesis
    proof (cases r)
      case (Inl e)
      then show ?thesis
        using wp_run(2) [OF step] Pair Cons.IH [of w' c] Cons.prems(2) by simp
    next
      case (Inr u)
      then show ?thesis
        using wp_run(1) [OF step] Pair Cons.IH [of w' "c + n"] by (simp add: add.assoc)
    qed
  qed
qed simp

end

section \<open>Pending deposits\<close>

lemma keeps_record_frame:
  "keeps (\<lambda>w. store w = s \<and> pendingDeposits w = ds) (record_movements env refType refId es txn st)"
proof -
  let ?P = "\<lambda>w. store w = s \<and> pendingDeposits w = ds"
  have e: "keeps ?P (record_entry env refType refId txn st e)" for e
    unfolding record_entry_def randomUUID_def insert_journal_def save_account_def
    by (intro keeps_intros keeps_upd; simp)
  have t: "keeps ?P (db_transaction m)" if "keeps ?P m" for m :: "('a, unit) wact"
    using that by (auto simp: keeps_def db_transaction_def split: prod.splits sum.splits)
  have n: "keeps ?P (notify_entry env refType refId e)" for e
    unfolding notify_entry_def emit_def Let_def by (intro keeps_intros keeps_upd; simp)
  show ?thesis
    unfolding record_movements_def by (intro keeps_intros e t n)
qed

lemma find_update:
  "List.find (\<lambda>d. pd_id d = i) ds = Some d \<Longrightarrow> pd_id d' = i \<Longrightarrow>
   List.find (\<lambda>d. pd_id d = i) (map (\<lambda>x. if pd_id x = i then d' else x) ds) = Some d'"
  by (induction ds) (auto split: if_splits)

lemma find_pd_id: "List.find (\<lambda>d. pd_id d = i) ds = Some d \<Longrightarrow> pd_id d = i"
  by (auto simp: find_Some_iff)

text \<open>A deposit is settled once it has left the state pending.\<close>

definition settled_deposit :: "string \<Rightarrow> 's wallet \<Rightarrow> bool" where
  "settled_deposit i w \<longleftrightarrow> (\<exists>d. List.find (\<lambda>d. pd_id d = i) (pendingDeposits w) = Some d \<and> pd_status d \<noteq> PdPending)"

lemma settled_store [simp]:
  "settled_deposit i (w\<lparr>store := s\<rparr>) = settled_deposit i w"
  "settled_deposit i (w\<lparr>outbox := x\<rparr>) = settled_deposit i w"
  "settled_deposit i (w\<lparr>depositJobs := j\<rparr>) = settled_deposit i w"
  by (simp_all add: settled_deposit_def)

lemma confirm_body_settles:
  assumes "List.find (\<lambda>d. pd_id d = i) (pendingDeposits w) \<noteq> None"
  shows "wp (confirm_body env i adm) (\<lambda>_ w'. settled_deposit i w' \<and> store w' = store w) (\<lambda>_. True) w"
proof -
  obtain dep where dep: "List.find (\<lambda>d. pd_id d = i) (pendingDeposits w) = Some dep" using assms by blast
  note id = find_pd_id [OF dep]
  have rec: "wp (record_movements env t r es x y)
       (\<lambda>_ w'. store w' = store w \<and> pendingDeposits w' = pendingDeposits w) (\<lambda>_. True) w" for t r es x y
    by (rule wp_mono [OF wp_keeps [OF keeps_record_frame]]) simp_all
  have tail: "settled_deposit i (v\<lparr>pendingDeposits := map (\<lambda>x. if pd_id x = pd_id dep then
          dep\<lparr>pd_status := PdConfirmed, pd_confirmedBy := b, pd_confirmedAt := t, pd_actionRequired := False\<rparr> else x)
          (pendingDeposits w)\<rparr>)" if "pendingDeposits v = pendingDeposits w" for v b t
    using find_update [OF dep, of "dep\<lparr>pd_status := PdConfirmed, pd_confirmedBy := b, pd_confirmedAt := t, pd_actionRequired := False\<rparr>"] that
    by (simp add: settled_deposit_def id)
  show ?thesis
    using dep
    by (auto simp: confirm_body_def deposit_by_id_def wp_simps settled_deposit_def [of i w] save_deposit_def
        split: option.splits intro!: wp_mono [OF rec] tail)
qed

context wallet_redis
begin

lemma lock_key_free: "r_get (client env) k (r_del (client env) k s) = None"
  by (simp add: redis_laws)

lemma confirm_settles:
  assumes "confirmPendingDeposit env i adm w = (Inr (), w')"
    and "List.find (\<lambda>d. pd_id d = i) (pendingDeposits w) \<noteq> None"
  shows "settled_deposit i w' \<and> r_get (client env) (pending_lock i) (store w') = None"
proof -
  have "wp (confirmPendingDeposit env i adm)
     (\<lambda>_ w'. settled_deposit i w' \<and> r_get (client env) (pending_lock i) (store w') = None) (\<lambda>_. True) w"
    unfolding confirmPendingDeposit_def remove_job_def
    by (auto simp: wp_simps wp_redis lock_key_free intro!: wp_mono [OF confirm_body_settles])
      (use assms(2) in auto)
  from wp_run(1) [OF this assms(1)] show ?thesis .
qed

lemma lock_run:
  assumes "r_get (client env) k (store w) = None"
  shows "bnd (rset env k v ex True) (\<lambda>lock. seq (raise_if (\<not> lock) e) m) w
     = m (w\<lparr>store := snd (r_set (client env) (now_ms env) k v (Some ex) True (store w))\<rparr>)"
  using assms by (simp add: bnd_def rset_run run_simps)

lemma settled_bodies:
  assumes "settled_deposit i w"
  shows "confirm_body env i adm w = (Inr (), w)" "reject_body env i adm reason w = (Inr (), w)"
  using assms by (auto simp: confirm_body_def reject_body_def deposit_by_id_def settled_deposit_def run_simps)

lemma settled_confirm:
  assumes "settled_deposit i w" "r_get (client env) (pending_lock i) (store w) = None"
  shows "\<exists>s js. confirmPendingDeposit env i adm w = (Inr (), w\<lparr>depositJobs := js, store := s\<rparr>)"
    "\<exists>s. rejectPendingDeposit env i adm reason w = (Inr (), w\<lparr>store := s\<rparr>)"
  using assms
  by (auto simp: confirmPendingDeposit_def rejectPendingDeposit_def lock_run settled_bodies finally_do_def
      remove_job_def rdel_def seq_assoc run_simps)

end

interpretation demo_redis: wallet_redis demo_env
  by (rule wallet_redis.intro) (simp add: demo_env_def mock.redis_axioms)

section \<open>The idempotency lock and the webhook marks\<close>

lemma provider_event:
  assumes "provider_confirm3DS env p w = (Inr (), w')" "wp_id p = Some i"
  shows "\<exists>event. pc_eventId event = i \<and> handleWebhook env (Some (confirm3DS env)) event w = (Inr (), w')"
  using assms
  by (auto simp: provider_confirm3DS_def run_simps split: option.splits if_splits)
    (rule exI, rule conjI [rotated], assumption, simp)+

context wallet_redis
begin

lemma locked_request:
  assumes "k \<noteq> []" "r_get (client env) (''wallet:idemp:'' @ k) (store w) = Some LOCK"
  shows "\<exists>w'. idempotent env (Some k) body w = (Inl DuplicateInProgress, w')
     \<and> r_get (client env) (''wallet:idemp:'' @ k) (store w') = None"
  using assms
  by (simp add: idempotent_def Let_def on_error_def bnd_def rget_run rset_run cached_response_def redis_laws rdel_def
      seq_def run_simps)

lemma marked_webhook:
  assumes "r_get (client env) (''wallet:webhook:'' @ pc_eventId event) (store w) \<noteq> None"
  shows "\<exists>s. confirm3DS env event w = (Inr (), w\<lparr>store := s\<rparr>)
     \<and> (\<forall>k. k \<noteq> ''wallet:webhook:'' @ pc_eventId event \<longrightarrow> r_get (client env) k s = r_get (client env) k (store w))"
  using assms
  by (auto simp: confirm3DS_def isDuplicateWebhook_def bnd_assoc bnd_def rset_run redis_laws run_simps)

lemma handled_webhook:
  assumes "r_get (client env) (''wallet:webhook:'' @ pc_eventId event) (store w) \<noteq> None"
  shows "\<exists>s. handleWebhook env (Some (confirm3DS env)) event w = (Inr (), w\<lparr>store := s\<rparr>)
     \<and> (\<forall>i. r_get (client env) (challengeKey i) s = r_get (client env) (challengeKey i) (store w))"
proof -
  define key where "key = provider_redisKey (pc_idempotencyKey event)"
  define body where "body = Json (JObj [(''eventId'', JStr (pc_eventId event)), (''idempotencyKey'', JStr (pc_idempotencyKey event)),
      (''providerTxnId'', JStr (pc_providerTxnId event)), (''status'', JStr (provider_status_text (pc_status event)))])"
  define s1 where "s1 = snd (r_set (client env) (now_ms env) key body (Some 3600) True (store w))"
  have ne: "challengeKey i \<noteq> key" "challengeKey i \<noteq> ''wallet:webhook:'' @ e"
    "''wallet:webhook:'' @ e \<noteq> key" for i e
    by (simp_all add: key_def challengeKey_def provider_redisKey_def)
  show ?thesis
  proof (cases "r_get (client env) key (store w)")
    case (Some t)
    then show ?thesis
      by (intro exI [of _ s1])
        (use ne(1) in \<open>simp add: handleWebhook_def Let_def bnd_def rset_run run_simps s1_def key_def body_def redis_laws\<close>)
  next
    case None
    have "r_get (client env) (''wallet:webhook:'' @ pc_eventId event) (store (w\<lparr>store := s1\<rparr>)) \<noteq> None"
      using assms ne(3) by (simp add: s1_def redis_laws)
    then obtain s2 where s2: "confirm3DS env event (w\<lparr>store := s1\<rparr>) = (Inr (), w\<lparr>store := s2\<rparr>)"
      "\<And>k. k \<noteq> ''wallet:webhook:'' @ pc_eventId event \<Longrightarrow> r_get (client env) k s2 = r_get (client env) k s1"
      using marked_webhook [of event "w\<lparr>store := s1\<rparr>"] by auto
    have "seq (confirm3DS env event) (rdel env key) (w\<lparr>store := s1\<rparr>)
        = (Inr (), w\<lparr>store := r_del (client env) key s2\<rparr>)"
      using s2(1) by (simp add: run_seq_Inr rdel_def run_simps)
    then have "handleWebhook env (Some (confirm3DS env)) event w = (Inr (), w\<lparr>store := r_del (client env) key s2\<rparr>)"
      using None by (simp add: handleWebhook_def Let_def bnd_def rset_run s1_def key_def body_def)
    moreover have "r_get (client env) (challengeKey i) (r_del (client env) key s2)
        = r_get (client env) (challengeKey i) (store w)" for i
      using ne s2(2) by (simp add: redis_laws s1_def)
    ultimately show ?thesis by blast
  qed
qed

lemma callback_swallowed:
  assumes "i \<noteq> []" "sg \<noteq> []" "verifySignature body sg" "wp_id body = Some i"
    and "webhook_callback env verifySignature (Some i) (Some sg) body w = (Inr (), w')"
  shows "(\<exists>s. w' = w\<lparr>store := s\<rparr>)
     \<and> (\<forall>c. r_get (client env) (challengeKey c) (store w') = r_get (client env) (challengeKey c) (store w))"
proof -
  let ?k = "''wallet:webhook:'' @ i"
  define s1 where "s1 = snd (r_set (client env) (now_ms env) ?k (Raw ''1'') (Some (60 * 60 * 24)) True (store w))"
  have s1: "r_get (client env) (challengeKey c) s1 = r_get (client env) (challengeKey c) (store w)"
    "r_get (client env) ?k s1 \<noteq> None" for c
    by (simp_all add: s1_def redis_laws challengeKey_def)
  have run: "webhook_callback env verifySignature (Some i) (Some sg) body w
      = (if r_get (client env) ?k (store w) = None then provider_confirm3DS env body (w\<lparr>store := s1\<rparr>)
         else (Inr (), w\<lparr>store := s1\<rparr>))"
    using assms(1-3) by (simp add: webhook_callback_def bnd_def rset_run run_simps s1_def)
  show ?thesis
  proof (cases "r_get (client env) ?k (store w) = None")
    case False
    then show ?thesis using assms(5) run s1(1) by auto
  next
    case True
    then have "provider_confirm3DS env body (w\<lparr>store := s1\<rparr>) = (Inr (), w')"
      using assms(5) run by simp
    then obtain event where "pc_eventId event = i"
      "handleWebhook env (Some (confirm3DS env)) event (w\<lparr>store := s1\<rparr>) = (Inr (), w')"
      using provider_event assms(4) by blast
    then show ?thesis
      using handled_webhook [of event "w\<lparr>store := s1\<rparr>"] s1 by auto
  qed
qed

end

text \<open>Evaluation of the service on the in-memory client.\<close>

lemmas eval_monad = bnd_def seq_def ret_def raise_def gets_def upd_def raise_if_def do_when_def orFail_def
  on_error_def finally_do_def each.simps Let_def

lemmas eval_redis = rget_def rset_def rdel_def rincrby_def rexpire_def setWithOptions_def mock_client_def
  mock_get_def mock_set_def mock_del_def mock_incrby_def mock_expire_def mock_zmembers_def mock_zadd_def
  mock_zremrangebyscore_def empty_mock_def parseInt10_zero

lemmas eval_ledger = account_by_def by_id_currency_def by_name_currency_def record_movements_def record_entry_def
  notify_entry_def randomUUID_def emit_def insert_journal_def save_account_def db_transaction_def buildHash_def

lemmas eval_demo = demo_env_def demo_wallet_def demo_account_def demo_deposit_def

lemmas eval_payment = idempotent_def cached_response_def json_parse_def start_challenge_def encode_challenge_def
  challengeKey_def checkVelocity_def enforceVelocity_def enforceDailyLimit_def dailyKey_def op_text_def
  cb_check_def cb_accKey_def cb_devKey_def

lemma demo_daily_run:
  "daily_run demo_env WithdrawOp ''p1'' ''USD'' [60, 50, 40, 1] demo_wallet = 100"
  by (simp add: enforceDailyLimit_def dailyKey_def eval_monad eval_redis eval_demo emit_def op_text_def update_conv' split del: if_split)

section \<open>Properties\<close>



text \<open>C32: a bank deposit is settled once. After a successful confirmation of a deposit the lock is
  free again, and neither another confirmation nor a rejection, by whichever administrator, changes an
  account, the journal or the deposits.\<close>

theorem deposit_confirmed_once:
  assumes "redis (client env)" "confirmPendingDeposit env i adm w = (Inr (), w')"
    and "List.find (\<lambda>d. pd_id d = i) (pendingDeposits w) \<noteq> None"
  shows "r_get (client env) (pending_lock i) (store w') = None
     \<and> (\<exists>w''. confirmPendingDeposit env i adm2 w' = (Inr (), w'') \<and> accounts w'' = accounts w'
          \<and> journals w'' = journals w' \<and> pendingDeposits w'' = pendingDeposits w')
     \<and> (\<exists>w''. rejectPendingDeposit env i adm2 reason w' = (Inr (), w'') \<and> accounts w'' = accounts w'
          \<and> journals w'' = journals w' \<and> pendingDeposits w'' = pendingDeposits w')"
proof -
  note lift = wallet_redis.intro [OF assms(1)]
  note settled = wallet_redis.confirm_settles [OF lift assms(2,3)]
  show ?thesis
    using settled wallet_redis.settled_confirm [OF lift, of i w'] by fastforce
qed

theorem deposit_confirmed_once_witness:
  "\<exists>w' w''. confirmPendingDeposit demo_env ''d1'' ''root'' demo_wallet = (Inr (), w')
     \<and> confirmPendingDeposit demo_env ''d1'' ''root2'' w' = (Inr (), w'') \<and> accounts w'' = accounts w'
     \<and> map acc_balance (accounts w') = [50, 0, 0, -50, 0, 0]"
proof -
  let ?r = "confirmPendingDeposit demo_env ''d1'' ''root'' demo_wallet"
  have "fst ?r = Inr () \<and> map acc_balance (accounts (snd ?r)) = [50, 0, 0, -50, 0, 0]"
    by (simp add: confirmPendingDeposit_def confirm_body_def deposit_by_id_def save_deposit_def remove_job_def
        pending_lock_def eval_monad eval_redis eval_ledger eval_demo)
  then have r: "?r = (Inr (), snd ?r)" and b: "map acc_balance (accounts (snd ?r)) = [50, 0, 0, -50, 0, 0]"
    by (metis prod.collapse, blast)
  have "List.find (\<lambda>d. pd_id d = ''d1'') (pendingDeposits demo_wallet) \<noteq> None"
    by (simp add: demo_wallet_def demo_deposit_def)
  then obtain w'' where "confirmPendingDeposit demo_env ''d1'' ''root2'' (snd ?r) = (Inr (), w'')"
    "accounts w'' = accounts (snd ?r)"
    using deposit_confirmed_once [OF demo_redis.client_redis r, of "''root2''"] by blast
  then show ?thesis
    using r b by (intro exI [of _ "snd ?r"] exI [of _ w''] conjI)
qed

text \<open>a repeated request unlocks the first. While the request that holds the idempotency key is
  still running, a second one with the same key is refused, but its error path deletes the key: the
  lock of the first is gone, and a third request with the key is no longer held back.\<close>

theorem duplicate_deletes_lock:
  assumes "redis (client env)" "k \<noteq> []"
    and "r_get (client env) (''wallet:idemp:'' @ k) (store w) = Some LOCK"
  shows "\<exists>w'. withdraw env a n dev ip cur (Some k) w = (Inl DuplicateInProgress, w')
     \<and> r_get (client env) (''wallet:idemp:'' @ k) (store w') = None"
  using wallet_redis.locked_request [OF wallet_redis.intro [OF assms(1)] assms(2,3)]
  unfolding withdraw_def by fastforce

definition locked_wallet :: "mock_redis wallet" where
  "locked_wallet = demo_wallet\<lparr>store := snd (mock_set 0 ''wallet:idemp:k'' LOCK (Some 600) True empty_mock)\<rparr>"

theorem duplicate_deletes_lock_witness:
  "\<exists>w'. withdraw demo_env ''p1'' 5 ''dev'' ''ip'' ''USD'' (Some ''k'') locked_wallet = (Inl DuplicateInProgress, w')
     \<and> fst (withdraw demo_env ''p1'' 5 ''dev'' ''ip'' ''USD'' (Some ''k'') w') = Inr (JObj [(''id'', JStr ''pi_1'')])"
proof -
  let ?r = "withdraw demo_env ''p1'' 5 ''dev'' ''ip'' ''USD'' (Some ''k'') locked_wallet"
  have "r_get (client demo_env) (''wallet:idemp:'' @ ''k'') (store locked_wallet) = Some LOCK"
    by (simp add: locked_wallet_def eval_redis demo_env_def)
  from duplicate_deletes_lock [OF demo_redis.client_redis _ this]
  obtain w' where w': "?r = (Inl DuplicateInProgress, w')" by blast
  moreover have "fst (withdraw demo_env ''p1'' 5 ''dev'' ''ip'' ''USD'' (Some ''k'') (snd ?r))
      = Inr (JObj [(''id'', JStr ''pi_1'')])"
    by (simp add: locked_wallet_def LOCK_def withdraw_def withdraw_body_def eval_payment eval_monad eval_redis eval_ledger eval_demo)
  ultimately show ?thesis by auto
qed

text \<open>a webhook marks its own event as seen. The controller and the wallet keep their marks
  under the same key, so an event whose header carries the identifier of its body is found to be a
  duplicate of itself: it is acknowledged, no table changes and the payment challenge stays open.\<close>

theorem webhook_swallowed:
  assumes "redis (client env)" "i \<noteq> []" "sg \<noteq> []" "verifySignature body sg" "wp_id body = Some i"
    and "webhook_callback env verifySignature (Some i) (Some sg) body w = (Inr (), w')"
  shows "(\<exists>s. w' = w\<lparr>store := s\<rparr>)
     \<and> (\<forall>c. r_get (client env) (challengeKey c) (store w') = r_get (client env) (challengeKey c) (store w))"
  using wallet_redis.callback_swallowed [OF wallet_redis.intro [OF assms(1)] assms(2-6)] .

definition paid_event :: webhook_payload where
  "paid_event = \<lparr>wp_type = Some ''payment_intent.succeeded'', wp_id = Some ''evt_1'',
     wp_intent = Some \<lparr>pi_id = ''pi_1'', pi_status = Some ''succeeded'', pi_idempotencyKey = None\<rparr>\<rparr>"

definition challenged_wallet :: "mock_redis wallet" where
  "challenged_wallet = demo_wallet\<lparr>store := snd (mock_set 0 (challengeKey ''pi_1'')
     (encode_challenge \<lparr>ch_op = DepositOp, ch_accountId = ''p1'', ch_amount = 5, ch_currency = ''USD'',
        ch_deviceId = Some ''dev''\<rparr>) (Some 600) False empty_mock)\<rparr>"

theorem webhook_swallowed_witness:
  "\<exists>w'. webhook_callback demo_env (\<lambda>_ _. True) (Some ''evt_1'') (Some ''sig'') paid_event challenged_wallet = (Inr (), w')
     \<and> accounts w' = accounts challenged_wallet
     \<and> mock_get (challengeKey ''pi_1'') (store w') = mock_get (challengeKey ''pi_1'') (store challenged_wallet)
     \<and> mock_get (challengeKey ''pi_1'') (store challenged_wallet) \<noteq> None"
proof -
  let ?r = "webhook_callback demo_env (\<lambda>_ _. True) (Some ''evt_1'') (Some ''sig'') paid_event challenged_wallet"
  have "fst ?r = Inr ()"
    by (simp add: challenged_wallet_def webhook_callback_def provider_confirm3DS_def handleWebhook_def confirm3DS_def
        isDuplicateWebhook_def provider_redisKey_def starts_with_def paid_event_def intent_status_def
        challengeKey_def encode_challenge_def op_text_def eval_monad eval_redis demo_env_def demo_wallet_def
        provider_status_text_def)
  then have r: "?r = (Inr (), snd ?r)" by (metis prod.collapse)
  have "(\<exists>s. snd ?r = challenged_wallet\<lparr>store := s\<rparr>) \<and> (\<forall>c. r_get (client demo_env) (challengeKey c) (store (snd ?r))
      = r_get (client demo_env) (challengeKey c) (store challenged_wallet))"
    by (rule webhook_swallowed [OF demo_redis.client_redis _ _ _ _ r]) (simp_all add: paid_event_def)
  moreover have "r_get (client demo_env) = mock_get" by (simp add: demo_env_def mock_client_def)
  moreover have "mock_get (challengeKey ''pi_1'') (store challenged_wallet) \<noteq> None"
    by (simp add: challenged_wallet_def mock_get_def mock_set_def empty_mock_def)
  ultimately have "accounts (snd ?r) = accounts challenged_wallet
     \<and> mock_get (challengeKey ''pi_1'') (store (snd ?r)) = mock_get (challengeKey ''pi_1'') (store challenged_wallet)
     \<and> mock_get (challengeKey ''pi_1'') (store challenged_wallet) \<noteq> None"
    by auto
  with r show ?thesis by blast
qed

text \<open>concurrent movements lose an update. \<open>record\<close> writes back the copies of the accounts its
  caller read before; when two players reserve under different hands and both copies of the
  reserve account are read before either is written, both calls succeed, the second balance
  overwrites the first and the nightly reconciliation finds the reserve account short.\<close>

theorem lost_update:
  "(let rsv = demo_account ''a1'' ''reserve'';
        first = record_movements demo_env ''reserve'' ''h1''
          [\<lparr>mv_account = demo_account ''p1'' ''alice'', mv_amount = -5\<rparr>, \<lparr>mv_account = rsv, mv_amount = 5\<rparr>] None None;
        second = record_movements demo_env ''reserve'' ''h2''
          [\<lparr>mv_account = demo_account ''p2'' ''bob'', mv_amount = -7\<rparr>, \<lparr>mv_account = rsv, mv_amount = 7\<rparr>] None None;
        r = seq first second demo_wallet
    in fst r = Inr () \<and> reconcile (snd r) = [\<lparr>rr_account = ''reserve'', rr_balance = 7, rr_journal = 12\<rparr>])"
  by (simp add: eval_monad eval_ledger eval_demo reconcile_def journal_sum_def)

end
