(* ===== verification/Engine.thy ===== *)
theory Engine
  imports HandRun WalletLocks
begin

text \<open>
  \<open>backend/src/game/engine/index.ts\<close>, the engine of one table, with the objects it owns:
  \<open>backend/src/game/hand-log.ts\<close> (\<open>hand_log\<close>), \<open>backend/src/game/settlement.ts\<close>
  (\<open>recordDeltas\<close>) and \<open>backend/src/game/state-sanitize.ts\<close> (\<open>sanitize\<close>).

  \<open>engine\<close> is a \<open>GameEngine\<close> object; \<open>table_world\<close> adds what it writes to: the wallet,
  the repository of hands and the published events. \<open>applyAction\<close> runs the synchronous part
  \<open>engine_step\<close> and then, when the hand is over, the asynchronous rest of \<open>settle\<close>, whose
  exceptions nobody awaits. The log files and the proof file are not modelled.
\<close>

section \<open>Hand log\<close>

record log_entry =
  le_index :: nat
  le_action :: game_action
  le_pre :: game_state
  le_post :: game_state

record hand_log =
  hl_entries :: "log_entry list"
  hl_commitment :: "string option"
  hl_proof :: "hand_proof option"

definition log_recordCommitment :: "string \<Rightarrow> hand_log \<Rightarrow> hand_log" where
  "log_recordCommitment c l = l\<lparr>hl_commitment := Some c\<rparr>"

definition new_HandLog :: "string option \<Rightarrow> hand_log" where
  "new_HandLog commitment =
     (let l = \<lparr>hl_entries = [], hl_commitment = None, hl_proof = None\<rparr>
      in case commitment of None \<Rightarrow> l | Some c \<Rightarrow> if c = [] then l else log_recordCommitment c l)"

definition log_record :: "game_action \<Rightarrow> game_state \<Rightarrow> game_state \<Rightarrow> hand_log \<Rightarrow> hand_log" where
  "log_record action pre post l =
     l\<lparr>hl_entries := hl_entries l @
         [\<lparr>le_index = length (hl_entries l), le_action = action, le_pre = pre, le_post = post\<rparr>]\<rparr>"

definition log_recordProof :: "hand_proof \<Rightarrow> hand_log \<Rightarrow> hand_log" where
  "log_recordProof proof l = l\<lparr>hl_proof := Some proof\<rparr>"

definition log_getCommitmentAndProof :: "hand_log \<Rightarrow> string option \<times> hand_proof option" where
  "log_getCommitmentAndProof l = (hl_commitment l, hl_proof l)"

definition log_reconstruct :: "nat \<Rightarrow> hand_log \<Rightarrow> game_state option" where
  "log_reconstruct i l =
     (if i < length (hl_entries l) then Some (le_post (hl_entries l ! i)) else None)"

section \<open>Deltas\<close>

definition initial_of :: "(string \<times> int) list \<Rightarrow> string \<Rightarrow> int" where
  "initial_of initial i = (case map_of initial i of None \<Rightarrow> 0 | Some s \<Rightarrow> s)"

text \<open>\<open>recordDeltas\<close>: the entries, and the journal they were appended to.\<close>

definition recordDeltas ::
  "game_state \<Rightarrow> (string \<times> int) list \<Rightarrow> settlement_entry list \<Rightarrow> settlement_entry list \<times> settlement_entry list" where
  "recordDeltas st initial journal =
     (let entries = map (\<lambda>p. \<lparr>se_playerId = pid p, se_delta = stack p - initial_of initial (pid p)\<rparr>) (players st)
      in (entries, journal @ entries))"

section \<open>What players see\<close>

record public_player =
  pp_id :: string
  pp_stack :: int
  pp_folded :: bool
  pp_bet :: int
  pp_allIn :: bool
  pp_holeCards :: "nat list option"

record public_state =
  ps_phase :: hand_phase
  ps_street :: street
  ps_pot :: int
  ps_sidePots :: "side_pot list"
  ps_currentBet :: int
  ps_communityCards :: "nat list"
  ps_players :: "public_player list"

definition public_of :: "game_state \<Rightarrow> (player \<Rightarrow> nat list option) \<Rightarrow> public_state" where
  "public_of st shown =
     \<lparr>ps_phase = phase st, ps_street = street st, ps_pot = pot st, ps_sidePots = sidePots st,
      ps_currentBet = currentBet st, ps_communityCards = communityCards st,
      ps_players = map (\<lambda>p. \<lparr>pp_id = pid p, pp_stack = stack p, pp_folded = folded p, pp_bet = bet p,
         pp_allIn = allIn p, pp_holeCards = shown p\<rparr>) (players st)\<rparr>"

text \<open>The version and the server time \<open>sanitize\<close> adds are left out.\<close>

definition sanitize :: "game_state \<Rightarrow> string option \<Rightarrow> public_state" where
  "sanitize st playerId =
     public_of st (\<lambda>p. if playerId = Some (pid p)
        then (case holeCards p of Some h \<Rightarrow> if length h = 2 then Some h else None | None \<Rightarrow> None)
        else None)"

definition getPublicState_of :: "game_state \<Rightarrow> public_state" where
  "getPublicState_of st = public_of st (\<lambda>_. None)"

section \<open>The engine\<close>

record engine =
  e_log :: hand_log
  e_settlement :: "settlement_entry list"
  e_initialStacks :: "(string \<times> int) list"
  e_machine :: machine
  e_handId :: string
  e_rng :: hand_rng
  e_startingStack :: int
  e_tableId :: "string option"
  e_stake :: string
  e_currency :: string

definition new_engine ::
  "string \<Rightarrow> hand_rng \<Rightarrow> string list \<Rightarrow> int \<Rightarrow> string option \<Rightarrow> string \<Rightarrow> string \<Rightarrow> engine" where
  "new_engine handId rng playerIds startingStack tableId stake currency =
     (let m = new_machine playerIds startingStack
      in \<lparr>e_log = new_HandLog (Some (rng_commitment rng)), e_settlement = [],
          e_initialStacks = foldl (\<lambda>mp p. AList.update (pid p) (stack p) mp) [] (players (mstate m)),
          e_machine = m, e_handId = handId, e_rng = rng, e_startingStack = startingStack,
          e_tableId = tableId, e_stake = stake, e_currency = currency\<rparr>)"

abbreviation estate :: "engine \<Rightarrow> game_state" where
  "estate e \<equiv> mstate (e_machine e)"

definition force_showdown :: "machine \<Rightarrow> machine" where
  "force_showdown m =
     (if length (activePlayers (mstate m)) \<le> 1 \<and> phase (mstate m) = BETTING_ROUND
      then m\<lparr>mstate := (mstate m)\<lparr>phase := SHOWDOWN\<rparr>\<rparr> else m)"

text \<open>The synchronous beginning of \<open>settle\<close>: whether it goes on, and the pots settled once more.\<close>

definition settle_start :: "machine \<Rightarrow> bool \<times> machine" where
  "settle_start m =
     (if filter (\<lambda>p. \<not> folded p) (players (mstate m)) = [] then (False, m)
      else (True, m\<lparr>mstate := settlePots (mstate m)\<rparr>))"

definition step_machine :: "shuffler \<Rightarrow> game_action \<Rightarrow> machine \<Rightarrow> game_error + (bool \<times> machine)" where
  "step_machine shuf action m =
     rbind (machine_apply shuf action m) (\<lambda>m1.
     let m2 = force_showdown m1
     in if phase (mstate m2) = SHOWDOWN
        then rbind (machine_apply shuf Next m2) (\<lambda>m3. Inr (settle_start m3))
        else Inr (False, m2))"

definition engine_step :: "shuffler \<Rightarrow> game_action \<Rightarrow> engine \<Rightarrow> game_error + (engine \<times> bool)" where
  "engine_step shuf action e =
     rbind (step_machine shuf action (e_machine e)) (\<lambda>(settling, m).
       Inr (e\<lparr>e_machine := m, e_log := log_record action (estate e) (mstate m) (e_log e)\<rparr>, settling))"

definition getPublicState :: "engine \<Rightarrow> public_state" where
  "getPublicState e = getPublicState_of (estate e)"

fun replay_log :: "shuffler \<Rightarrow> log_entry list \<Rightarrow> engine \<Rightarrow> game_error + engine" where
  "replay_log shuf [] e = Inr e"
| "replay_log shuf (l # ls) e =
     rbind (engine_step shuf (le_action l) e) (\<lambda>(e', _). replay_log shuf ls e')"

text \<open>\<open>replayHand\<close>: a new engine with a generator of its own (\<open>fresh\<close>), fed with the logged
  actions. It has no wallet, repository or events, so what \<open>settle\<close> does there is not observed.\<close>

definition replayHand :: "(bytes \<Rightarrow> bytes) \<Rightarrow> string \<Rightarrow> hand_rng \<Rightarrow> engine \<Rightarrow> game_error + game_state" where
  "replayHand sha_array freshId fresh e =
     rbind (replay_log (rng_shuffle sha_array fresh) (hl_entries (e_log e))
              (new_engine freshId fresh (map pid (players (estate e))) (e_startingStack e) None (e_stake e) ''USD''))
       (\<lambda>r. Inr (estate r))"

section \<open>The world of a table\<close>

record hand_row =
  hr_id :: string
  hr_log :: "log_entry list"
  hr_commitment :: string
  hr_seed :: "string option"
  hr_nonce :: "string option"
  hr_settled :: bool
  hr_tableId :: "string option"
  hr_stake :: string

datatype engine_event =
    HandStart string "string list" "string option" string
  | HandSettle string "string option" "string list" "int list" string
  | LeaderboardHandSettled string "string option" "string list" "int list"
  | HandEnd string "string list" "string option" string

record 's table_world =
  eng :: engine
  bank :: "'s wallet"
  hands :: "hand_row list"
  published :: "engine_event list"

record 's engine_env =
  ee_wallet :: "'s wallet_env option"
  ee_settlementSvc :: bool
  ee_handRepo :: bool
  ee_events :: bool
  ee_sha_array :: "bytes \<Rightarrow> bytes"

type_synonym ('s, 'a) tact = "('s table_world, wallet_error, 'a) act"

definition on_bank :: "('s, 'a) wact \<Rightarrow> ('s, 'a) tact" where
  "on_bank m t = (case m (bank t) of (r, b) \<Rightarrow> (r, t\<lparr>bank := b\<rparr>))"

definition publish :: "'s engine_env \<Rightarrow> engine_event \<Rightarrow> ('s, unit) tact" where
  "publish env ev = do_when (ee_events env) (upd (\<lambda>t. t\<lparr>published := published t @ [ev]\<rparr>))"

definition save_hand :: "hand_row \<Rightarrow> hand_row list \<Rightarrow> hand_row list" where
  "save_hand r rows =
     (if hr_id r \<in> hr_id ` set rows then map (\<lambda>x. if hr_id x = hr_id r then r else x) rows else rows @ [r])"

definition hand_shell :: "engine \<Rightarrow> hand_row" where
  "hand_shell e =
     \<lparr>hr_id = e_handId e, hr_log = hl_entries (e_log e), hr_commitment = rng_commitment (e_rng e), hr_seed = None,
      hr_nonce = None, hr_settled = False, hr_tableId = e_tableId e, hr_stake = e_stake e\<rparr>"

definition reserveStacks :: "'s wallet_env \<Rightarrow> engine \<Rightarrow> ('s, unit) wact" where
  "reserveStacks env e =
     each (\<lambda>p. wallet_reserve env (pid p) (stack p) (e_handId e) (e_currency e) None) (players (estate e))"

text \<open>\<open>create\<close>, on the world whose engine is the one just constructed.\<close>

definition engine_create :: "'s engine_env \<Rightarrow> ('s, unit) tact" where
  "engine_create env =
     seq (do_when (ee_handRepo env) (upd (\<lambda>t. t\<lparr>hands := save_hand (hand_shell (eng t)) (hands t)\<rparr>)))
    (bnd (gets eng) (\<lambda>e.
     seq (case ee_wallet env of None \<Rightarrow> ret () | Some we \<Rightarrow> on_bank (reserveStacks we e))
         (publish env (HandStart (e_handId e) (map pid (players (estate e))) (e_tableId e) (e_stake e)))))"

section \<open>Settlement\<close>

text \<open>The refunds of \<open>settle\<close>: the next index and the losses added up.\<close>

fun settle_refunds ::
  "'s wallet_env \<Rightarrow> bool \<Rightarrow> engine \<Rightarrow> street \<Rightarrow> nat \<Rightarrow> int \<Rightarrow> settlement_entry list \<Rightarrow> ('s, nat \<times> int) wact" where
  "settle_refunds env svc e st idx totalLoss [] = ret (idx, totalLoss)"
| "settle_refunds env svc e st idx totalLoss (x # xs) =
     (let initial = initial_of (e_initialStacks e) (se_playerId x);
          loss = (if se_delta x < 0 then - se_delta x else 0);
          refund = initial - loss
      in if refund > 0
         then let key = e_handId e @ ''#'' @ street_name st @ ''#'' @ nat_digits idx
              in seq (do_when svc (settlement_reserve env (e_handId e) (street_name st) (nat_digits idx)))
                (seq (wallet_rollback env (se_playerId x) refund (e_handId e) (e_currency e) (Some key))
                     (settle_refunds env svc e st (idx + 1) (totalLoss + loss) xs))
         else settle_refunds env svc e st idx (totalLoss + loss) xs)"

definition settle_wallet ::
  "'s wallet_env \<Rightarrow> bool \<Rightarrow> engine \<Rightarrow> street \<Rightarrow> settlement_entry list \<Rightarrow> ('s, unit) wact" where
  "settle_wallet env svc e st entries =
     seq (writeHandLedger env (e_handId e) st 0 entries (e_currency e))
    (bnd (settle_refunds env svc e st 0 0 entries) (\<lambda>(idx, totalLoss).
     do_when (totalLoss > 0)
       (seq (do_when svc (settlement_reserve env (e_handId e) (street_name st) (nat_digits idx)))
            (wallet_commit env (e_handId e) totalLoss 0 (e_currency e)
               (Some (e_handId e @ ''#'' @ street_name st @ ''#'' @ nat_digits idx))))))"

definition settled_row :: "engine \<Rightarrow> hand_proof \<Rightarrow> hand_row" where
  "settled_row e proof =
     \<lparr>hr_id = e_handId e, hr_log = hl_entries (e_log e), hr_commitment = hp_commitment proof,
      hr_seed = Some (hp_seed proof), hr_nonce = Some (hp_nonce proof), hr_settled = True,
      hr_tableId = e_tableId e, hr_stake = e_stake e\<rparr>"

definition settle_rest :: "'s engine_env \<Rightarrow> ('s, unit) tact" where
  "settle_rest env =
     bnd (gets (\<lambda>t. ee_handRepo env
           \<and> (case List.find (\<lambda>r. hr_id r = e_handId (eng t)) (hands t) of None \<Rightarrow> False | Some r \<Rightarrow> hr_settled r))) (\<lambda>done.
     if done then ret ()
     else bnd (gets (\<lambda>t. recordDeltas (estate (eng t)) (e_initialStacks (eng t)) (e_settlement (eng t)))) (\<lambda>(entries, journal).
          seq (upd (\<lambda>t. t\<lparr>eng := (eng t)\<lparr>e_settlement := journal\<rparr>\<rparr>))
         (bnd (gets eng) (\<lambda>e.
          let ids = map se_playerId entries; deltas = map se_delta entries;
              winners = map se_playerId (filter (\<lambda>x. se_delta x > 0) entries);
              proof = rng_reveal (ee_sha_array env) (e_rng e)
          in seq (case ee_wallet env of None \<Rightarrow> ret ()
                  | Some we \<Rightarrow> on_bank (settle_wallet we (ee_settlementSvc env) e (street (estate e)) entries))
            (seq (upd (\<lambda>t. t\<lparr>eng := (eng t)\<lparr>e_log := log_recordProof proof (e_log (eng t))\<rparr>\<rparr>))
            (seq (do_when (ee_handRepo env) (upd (\<lambda>t. t\<lparr>hands := save_hand (settled_row (eng t) proof) (hands t)\<rparr>)))
            (seq (publish env (HandSettle (e_handId e) (e_tableId e) ids deltas (e_stake e)))
            (seq (publish env (LeaderboardHandSettled (e_handId e) (e_tableId e) ids deltas))
                 (publish env (HandEnd (e_handId e) winners (e_tableId e) (e_stake e)))))))))))"

definition applyAction ::
  "'s engine_env \<Rightarrow> game_action \<Rightarrow> 's table_world \<Rightarrow> (game_error + game_state) \<times> 's table_world" where
  "applyAction env action t =
     (case engine_step (rng_shuffle (ee_sha_array env) (e_rng (eng t))) action (eng t) of
        Inl err \<Rightarrow> (Inl err, t)
      | Inr (e, settling) \<Rightarrow>
          let t1 = t\<lparr>eng := e\<rparr>
          in (Inr (estate e), if settling then snd (settle_rest env t1) else t1))"

end
