(* ===== verification/EngineProps.thy ===== *)
theory EngineProps
  imports Engine
begin

text \<open>
  The engine over whole hands: its runs are runs of the state machine with the showdown played out,
  so the properties of theory \<open>HandRun\<close> carry over; the log is a complete record that replays to
  the same state; the deltas it settles never pay out more than was brought to the table; the
  states it shows hide other players' cards; and what its settlement does to the wallet.
\<close>

section \<open>Runs\<close>

fun engine_run :: "shuffler \<Rightarrow> game_action list \<Rightarrow> engine \<Rightarrow> game_error + engine" where
  "engine_run shuf [] e = Inr e"
| "engine_run shuf (a # as) e = rbind (engine_step shuf a e) (\<lambda>(e', _). engine_run shuf as e')"

text \<open>Actions applied to a table one after the other, all of them accepted.\<close>

fun play :: "'s engine_env \<Rightarrow> game_action list \<Rightarrow> 's table_world \<Rightarrow> game_error + 's table_world" where
  "play env [] t = Inr t"
| "play env (a # as) t = (case applyAction env a t of (Inl err, _) \<Rightarrow> Inl err | (Inr _, t') \<Rightarrow> play env as t')"

text \<open>What the asynchronous settlement leaves alone.\<close>

definition same_game :: "engine \<Rightarrow> engine \<Rightarrow> bool" where
  "same_game e e' \<longleftrightarrow> e_machine e' = e_machine e \<and> hl_entries (e_log e') = hl_entries (e_log e)
     \<and> e_initialStacks e' = e_initialStacks e \<and> e_rng e' = e_rng e \<and> e_startingStack e' = e_startingStack e"

lemma same_game_refl [simp]: "same_game e e"
  by (simp add: same_game_def)

lemma same_game_trans: "same_game e e' \<Longrightarrow> same_game e' e'' \<Longrightarrow> same_game e e''"
  by (simp add: same_game_def)

lemma keeps_on_bank: "(\<And>t b. P (t\<lparr>bank := b\<rparr>) = P t) \<Longrightarrow> keeps P (on_bank m)"
  by (simp add: keeps_def on_bank_def split: prod.splits)

lemma keeps_publish: "(\<And>t b. P (t\<lparr>published := b\<rparr>) = P t) \<Longrightarrow> keeps P (publish env ev)"
  unfolding publish_def by (intro keeps_intros keeps_upd) simp

lemma settle_rest_same: "keeps (\<lambda>t. same_game e (eng t)) (settle_rest env)"
  unfolding settle_rest_def Let_def split_def
  by (intro keeps_intros keeps_on_bank keeps_publish keeps_upd; simp add: same_game_def log_recordProof_def)

lemma engine_step_same:
  assumes "engine_step shuf a e1 = Inr (e1', s)" "same_game e1 e2"
  shows "\<exists>e2'. engine_step shuf a e2 = Inr (e2', s) \<and> same_game e1' e2'"
  using assms by (fastforce simp: engine_step_def same_game_def rbind_eq_Inr_iff log_record_def)

lemma engine_run_same:
  "engine_run shuf as e1 = Inr e1' \<Longrightarrow> same_game e1 e2 \<Longrightarrow> \<exists>e2'. engine_run shuf as e2 = Inr e2' \<and> same_game e1' e2'"
proof (induction as arbitrary: e1 e2)
  case (Cons a as)
  then obtain e s where e: "engine_step shuf a e1 = Inr (e, s)" "engine_run shuf as e = Inr e1'"
    by (auto simp: rbind_eq_Inr_iff)
  obtain e' where "engine_step shuf a e2 = Inr (e', s)" "same_game e e'"
    using engine_step_same [OF e(1) Cons.prems(2)] by blast
  then show ?case using Cons.IH [OF e(2)] by simp
qed simp

lemma engine_step_rng: "engine_step shuf a e = Inr (e', s) \<Longrightarrow> e_rng e' = e_rng e \<and> e_initialStacks e' = e_initialStacks e
    \<and> e_startingStack e' = e_startingStack e"
  by (auto simp: engine_step_def rbind_eq_Inr_iff)

text \<open>Runs of the table are runs of the engine.\<close>

lemma play_engine:
  assumes "play env as t = Inr t'" "e_rng (eng t) = rng"
  shows "\<exists>e. engine_run (rng_shuffle (ee_sha_array env) rng) as (eng t) = Inr e \<and> same_game e (eng t')"
  using assms
proof (induction as arbitrary: t)
  case (Cons a as)
  let ?shuf = "rng_shuffle (ee_sha_array env) rng :: shuffler"
  obtain r t1 where r: "applyAction env a t = (Inr r, t1)" "play env as t1 = Inr t'"
    using Cons.prems(1) by (auto split: prod.splits sum.splits)
  then obtain e s where e: "engine_step ?shuf a (eng t) = Inr (e, s)"
    "t1 = (if s then snd (settle_rest env (t\<lparr>eng := e\<rparr>)) else t\<lparr>eng := e\<rparr>)"
    using Cons.prems(2) by (auto simp: applyAction_def Let_def split: sum.splits)
  have same: "same_game e (eng t1)"
    using settle_rest_same [of e env] e(2) by (auto simp: keeps_def)
  then have "e_rng (eng t1) = rng"
    using engine_step_rng [OF e(1)] Cons.prems(2) by (simp add: same_game_def)
  then obtain e2 where e2: "engine_run ?shuf as (eng t1) = Inr e2" "same_game e2 (eng t')"
    using Cons.IH [OF r(2)] by blast
  have "same_game (eng t1) e" using same by (simp add: same_game_def)
  then obtain e3 where "engine_run ?shuf as e = Inr e3" "same_game e2 e3"
    using engine_run_same [OF e2(1)] by blast
  moreover have "same_game e3 (eng t')"
    using e2(2) \<open>same_game e2 e3\<close> by (simp add: same_game_def)
  ultimately show ?case using e(1) by (intro exI [of _ e3]) simp
qed simp

section \<open>The machine underneath\<close>

lemma settlePots_nothing: "sidePots st = [] \<Longrightarrow> pot st = 0 \<Longrightarrow> settlePots st = st"
  for st :: game_state
  by (simp add: settlePots_def Let_def pots_to_settle_def settle_pot_0 default_pot_def)

lemma showdown_step:
  assumes "phase (mstate m) = SHOWDOWN" "machine_inv m"
  shows "\<exists>m'. machine_apply shuf Next m = Inr m' \<and> settle_start m' = (True, m')"
proof -
  let ?st = "settlePots (mstate m)\<lparr>phase := SETTLE\<rparr>"
  have act: "active_seats (players (mstate m)) \<noteq> []"
    using assms active_seats_players [of "mstate m"] by (auto simp: machine_inv_def state_inv_def live_inv_def)
  then have "sidePots ?st = []" "pot ?st = 0"
    by (simp_all add: settlePots_def Let_def)
  then have "settlePots ?st = ?st" by (rule settlePots_nothing)
  moreover have "filter (\<lambda>p. \<not> folded p) (players ?st) \<noteq> []"
    using act active_seats_players [of ?st] active_seats_players [of "mstate m"]
    by (auto simp: activePlayers_def)
  ultimately show ?thesis
    using assms(1) by (simp add: machine_apply_def apply_showdown_def settle_start_def)
qed

lemma force_showdown_idle: "machine_inv m \<Longrightarrow> force_showdown m = m"
  by (auto simp: force_showdown_def machine_inv_def state_inv_def live_inv_def)

text \<open>One action of the machine, with the showdown played out: what the engine is meant to do.\<close>

definition played_out :: "shuffler \<Rightarrow> game_action \<Rightarrow> machine \<Rightarrow> game_error + (machine \<times> bool)" where
  "played_out shuf a m =
     rbind (machine_apply shuf a m) (\<lambda>m1.
       if phase (mstate m1) = SHOWDOWN then rbind (machine_apply shuf Next m1) (\<lambda>m2. Inr (m2, True))
       else Inr (m1, False))"

context card_shuffler
begin

lemma engine_step_machine:
  assumes "machine_inv (e_machine e)"
  shows "rbind (engine_step shuf a e) (\<lambda>(e', s). Inr (e_machine e', s)) = played_out shuf a (e_machine e)"
proof (cases "machine_apply shuf a (e_machine e)")
  case (Inl err)
  then show ?thesis by (simp add: engine_step_def step_machine_def played_out_def)
next
  case (Inr m1)
  have inv: "machine_inv m1" using machine_apply_inv(1) [OF Inr assms] .
  show ?thesis
  proof (cases "phase (mstate m1) = SHOWDOWN")
    case True
    obtain m2 where "machine_apply shuf Next m1 = Inr m2" "settle_start m2 = (True, m2)"
      using showdown_step [OF True inv] by blast
    then show ?thesis
      using Inr True by (simp add: engine_step_def step_machine_def played_out_def force_showdown_idle [OF inv])
  next
    case False
    then show ?thesis
      using Inr by (simp add: engine_step_def step_machine_def played_out_def force_showdown_idle [OF inv])
  qed
qed

lemma engine_step_runs:
  assumes "engine_step shuf a e = Inr (e', s)" "machine_inv (e_machine e)"
  shows "\<exists>bs. apply_all shuf (a # bs) (e_machine e) = Inr (e_machine e') \<and> set bs \<subseteq> {Next}"
    "s \<Longrightarrow> phase (estate e') = SETTLE"
proof -
  have "played_out shuf a (e_machine e) = Inr (e_machine e', s)"
    using engine_step_machine [OF assms(2), of a] assms(1) by simp
  then obtain m1 where m1: "machine_apply shuf a (e_machine e) = Inr m1"
    "(if phase (mstate m1) = SHOWDOWN then machine_apply shuf Next m1 = Inr (e_machine e') \<and> s
      else e_machine e' = m1 \<and> \<not> s)"
    by (auto simp: played_out_def rbind_eq_Inr_iff split: if_splits)
  then show "\<exists>bs. apply_all shuf (a # bs) (e_machine e) = Inr (e_machine e') \<and> set bs \<subseteq> {Next}"
    by (intro exI [of _ "if phase (mstate m1) = SHOWDOWN then [Next] else []"]) auto
  show "phase (estate e') = SETTLE" if s
  proof -
    have "e_machine e' = m1\<lparr>mstate := settlePots (mstate m1)\<lparr>phase := SETTLE\<rparr>\<rparr>"
      using m1(2) that by (auto simp: machine_apply_def apply_showdown_def rbind_eq_Inr_iff split: if_splits)
    then show ?thesis by simp
  qed
qed

lemma apply_all_append: "apply_all shuf (as @ bs) m = rbind (apply_all shuf as m) (apply_all shuf bs)"
  by (induction as arbitrary: m) (auto simp: rbind_def split: sum.splits)

lemma engine_run_runs:
  assumes "engine_run shuf as e = Inr e'" "machine_inv (e_machine e)"
  shows "\<exists>bs. apply_all shuf bs (e_machine e) = Inr (e_machine e') \<and> set bs \<subseteq> set as \<union> {Next}"
  using assms
proof (induction as arbitrary: e)
  case Nil
  then show ?case by (intro exI [of _ "[]"]) simp
next
  case (Cons a as)
  then obtain e1 s where e1: "engine_step shuf a e = Inr (e1, s)" "engine_run shuf as e1 = Inr e'"
    by (auto simp: rbind_eq_Inr_iff)
  obtain bs where bs: "apply_all shuf (a # bs) (e_machine e) = Inr (e_machine e1)" "set bs \<subseteq> {Next}"
    using engine_step_runs(1) [OF e1(1) Cons.prems(2)] by blast
  have "machine_inv (e_machine e1)"
    using machine_reach_inv [OF _ Cons.prems(2)] bs(1) machine_reach_iff by blast
  then obtain cs where "apply_all shuf cs (e_machine e1) = Inr (e_machine e')" "set cs \<subseteq> set as \<union> {Next}"
    using Cons.IH [OF e1(2)] by blast
  then show ?case
    using bs apply_all_append [of "a # bs" cs "e_machine e"]
    by (intro exI [of _ "(a # bs) @ cs"]) auto
qed

end

section \<open>New tables\<close>

abbreviation at_table :: "'s table_world \<Rightarrow> hand_rng \<Rightarrow> string list \<Rightarrow> int \<Rightarrow> bool" where
  "at_table t rng ids s \<equiv> \<exists>h tb stk cur. eng t = new_engine h rng ids s tb stk cur"

lemma new_engine_machine [simp]:
  "e_machine (new_engine h rng ids s tb stk cur) = new_machine ids s"
  "e_rng (new_engine h rng ids s tb stk cur) = rng"
  "hl_entries (e_log (new_engine h rng ids s tb stk cur)) = []"
  "e_startingStack (new_engine h rng ids s tb stk cur) = s"
  by (simp_all add: new_engine_def new_HandLog_def log_recordCommitment_def Let_def)

lemma update_all:
  "(\<forall>p\<in>set ps. g p = s) \<Longrightarrow> i \<in> f ` set ps \<or> map_of mp i = Some s
   \<Longrightarrow> map_of (foldl (\<lambda>mp p. AList.update (f p) (g p) mp) mp ps) i = Some s"
proof (induction ps arbitrary: mp)
  case (Cons p ps)
  then show ?case by (auto simp: update_conv')
qed auto

lemma new_engine_initial:
  "i \<in> set ids \<Longrightarrow> initial_of (e_initialStacks (new_engine h rng ids s tb stk cur)) i = s"
  using update_all [of "map (new_player s) ids" stack s i pid "[]"]
  by (simp add: new_engine_def initial_of_def Let_def new_machine_def new_player_def image_image)

lemma play_runs:
  assumes "play env as t = Inr t'" "at_table t rng ids s" "2 \<le> length ids" "0 \<le> s"
  shows "\<exists>bs. apply_all (rng_shuffle (ee_sha_array env) rng) bs (new_machine ids s) = Inr (e_machine (eng t'))
     \<and> set bs \<subseteq> set as \<union> {Next}"
proof -
  have t: "e_machine (eng t) = new_machine ids s" "e_rng (eng t) = rng" using assms(2) by auto
  obtain e where e: "engine_run (rng_shuffle (ee_sha_array env) rng) as (eng t) = Inr e" "same_game e (eng t')"
    using play_engine [OF assms(1) t(2)] by blast
  show ?thesis
    using hand_rng.engine_run_runs [OF e(1)] new_machine_inv [OF assms(3,4)] t(1) e(2)
    by (simp add: same_game_def)
qed

lemma play_machine_inv:
  assumes "play env as t = Inr t'" "at_table t rng ids s" "2 \<le> length ids" "0 \<le> s"
  shows "machine_inv (e_machine (eng t'))" "map pid (players (estate (eng t'))) = ids"
proof -
  obtain bs where bs: "apply_all (rng_shuffle (ee_sha_array env) rng) bs (new_machine ids s) = Inr (e_machine (eng t'))"
    using play_runs [OF assms] by blast
  show "machine_inv (e_machine (eng t'))"
    using hand_rng.run_inv [OF bs assms(3,4)] .
  show "map pid (players (estate (eng t'))) = ids"
    using hand_rng.run_pids [OF bs] by (simp add: new_machine_def new_player_def comp_def)
qed

section \<open>The log\<close>

text \<open>Entries that lead from one state to another without a gap.\<close>

fun chained :: "game_state \<Rightarrow> log_entry list \<Rightarrow> game_state \<Rightarrow> bool" where
  "chained st [] st' \<longleftrightarrow> st = st'"
| "chained st (l # ls) st' \<longleftrightarrow> le_pre l = st \<and> chained (le_post l) ls st'"

lemma engine_step_log:
  assumes "engine_step shuf a e = Inr (e', s)"
  shows "hl_entries (e_log e') = hl_entries (e_log e)
     @ [\<lparr>le_index = length (hl_entries (e_log e)), le_action = a, le_pre = estate e, le_post = estate e'\<rparr>]"
  using assms by (auto simp: engine_step_def rbind_eq_Inr_iff log_record_def)

lemma engine_run_log:
  assumes "engine_run shuf as e = Inr e'"
  shows "\<exists>ls. hl_entries (e_log e') = hl_entries (e_log e) @ ls \<and> chained (estate e) ls (estate e')
     \<and> map le_action ls = as
     \<and> map le_index ls = [length (hl_entries (e_log e)) ..< length (hl_entries (e_log e)) + length as]"
  using assms
proof (induction as arbitrary: e)
  case (Cons a as)
  then obtain e1 s where e1: "engine_step shuf a e = Inr (e1, s)" "engine_run shuf as e1 = Inr e'"
    by (auto simp: rbind_eq_Inr_iff)
  let ?l = "\<lparr>le_index = length (hl_entries (e_log e)), le_action = a, le_pre = estate e, le_post = estate e1\<rparr>"
  note log = engine_step_log [OF e1(1)]
  obtain ls where "hl_entries (e_log e') = hl_entries (e_log e1) @ ls" "chained (estate e1) ls (estate e')"
    "map le_action ls = as"
    "map le_index ls = [length (hl_entries (e_log e1)) ..< length (hl_entries (e_log e1)) + length as]"
    using Cons.IH [OF e1(2)] by blast
  then show ?case
    using log by (intro exI [of _ "?l # ls"]) (simp add: upt_conv_Cons del: upt_Suc)
qed simp

lemma play_log:
  assumes "play env as t = Inr t'" "at_table t rng ids s"
  shows "chained (mstate (new_machine ids s)) (hl_entries (e_log (eng t'))) (estate (eng t'))"
    "map le_action (hl_entries (e_log (eng t'))) = as" "map le_index (hl_entries (e_log (eng t'))) = [0..<length as]"
proof -
  have t: "e_machine (eng t) = new_machine ids s" "e_rng (eng t) = rng" "hl_entries (e_log (eng t)) = []"
    using assms(2) by auto
  obtain e where e: "engine_run (rng_shuffle (ee_sha_array env) rng) as (eng t) = Inr e" "same_game e (eng t')"
    using play_engine [OF assms(1) t(2)] by blast
  then show "chained (mstate (new_machine ids s)) (hl_entries (e_log (eng t'))) (estate (eng t'))"
    "map le_action (hl_entries (e_log (eng t'))) = as" "map le_index (hl_entries (e_log (eng t'))) = [0..<length as]"
    using engine_run_log [OF e(1)] t by (auto simp: same_game_def)
qed

lemma chained_last: "chained st ls st' \<Longrightarrow> ls \<noteq> [] \<Longrightarrow> le_post (last ls) = st'"
  by (induction ls arbitrary: st) (auto split: if_splits)

lemma replay_is_run: "replay_log shuf ls e = engine_run shuf (map le_action ls) e"
  by (induction ls arbitrary: e) (auto simp: rbind_def split: sum.splits)

lemma engine_run_machine:
  "engine_run shuf as e = Inr e' \<Longrightarrow> e_machine e1 = e_machine e \<Longrightarrow>
   \<exists>e1'. engine_run shuf as e1 = Inr e1' \<and> e_machine e1' = e_machine e'"
proof (induction as arbitrary: e e1)
  case (Cons a as)
  then obtain e2 s where e2: "engine_step shuf a e = Inr (e2, s)" "engine_run shuf as e2 = Inr e'"
    by (auto simp: rbind_eq_Inr_iff)
  then obtain e3 where "engine_step shuf a e1 = Inr (e3, s)" "e_machine e3 = e_machine e2"
    using Cons.prems(2) by (fastforce simp: engine_step_def rbind_eq_Inr_iff)
  then show ?case using Cons.IH [OF e2(2)] by auto
qed simp

lemma engine_run_consts:
  "engine_run shuf as e = Inr e' \<Longrightarrow>
   e_rng e' = e_rng e \<and> e_initialStacks e' = e_initialStacks e \<and> e_startingStack e' = e_startingStack e"
  by (induction as arbitrary: e) (auto simp: rbind_eq_Inr_iff dest: engine_step_rng)

lemma play_consts:
  assumes "play env as t = Inr t'"
  shows "e_initialStacks (eng t') = e_initialStacks (eng t)" "e_startingStack (eng t') = e_startingStack (eng t)"
  using play_engine [OF assms refl] by (auto simp: same_game_def dest: engine_run_consts)

section \<open>Properties\<close>

text \<open>A small table for the witnesses, without a wallet.\<close>

definition demo_rng :: hand_rng where
  "demo_rng = \<lparr>rng_seed = replicate 32 0, rng_nonce = [], rng_commitment = ''c''\<rparr>"

definition demo_engine_env :: "mock_redis engine_env" where
  "demo_engine_env = \<lparr>ee_wallet = None, ee_settlementSvc = False, ee_handRepo = False, ee_events = True,
     ee_sha_array = (\<lambda>_. replicate 32 0)\<rparr>"

definition demo_world :: "mock_redis table_world" where
  "demo_world = \<lparr>eng = new_engine ''h'' demo_rng [''p1'', ''p2''] 100 None ''1-2'' ''USD'', bank = demo_wallet,
     hands = [], published = []\<rparr>"

lemma demo_at_table: "at_table demo_world demo_rng [''p1'', ''p2''] 100"
  by (auto simp: demo_world_def)

lemma demo_play: "\<exists>t. play demo_engine_env [PostBlind ''p1'' 1] demo_world = Inr t"
  by (simp add: demo_world_def applyAction_def engine_step_def step_machine_def force_showdown_def
      new_machine_def new_player_def machine_apply_def apply_blinds_def findPlayer_def or_fail_def placeBet_def
      upt_rec activePlayers_def Let_def)

text \<open>C6: the engine refines the state machine. At a table of at least two players, after any
  accepted actions, one more action does to the machine exactly what the machine's own \<open>apply\<close>
  does, with the showdown played out when it is reached: same result, same error, and the
  settlement is started in exactly that case. The engine's own forced showdown and its second
  settlement of the pots never make a difference.\<close>

theorem engine_refines_machine:
  assumes "play env as t = Inr t'" "at_table t rng ids s" "2 \<le> length ids" "0 \<le> s"
  shows "rbind (engine_step (rng_shuffle (ee_sha_array env) rng) a (eng t')) (\<lambda>(e, settling). Inr (e_machine e, settling))
     = played_out (rng_shuffle (ee_sha_array env) rng) a (e_machine (eng t'))"
  by (rule hand_rng.engine_step_machine) (rule play_machine_inv(1) [OF assms])

theorem engine_refines_machine_witness:
  "\<exists>t. play demo_engine_env [PostBlind ''p1'' 1] demo_world = Inr t
     \<and> rbind (engine_step (rng_shuffle (ee_sha_array demo_engine_env) demo_rng) Next (eng t)) (\<lambda>(e, settling). Inr (e_machine e, settling))
       = played_out (rng_shuffle (ee_sha_array demo_engine_env) demo_rng) Next (e_machine (eng t))"
proof -
  obtain t where t: "play demo_engine_env [PostBlind ''p1'' 1] demo_world = Inr t" using demo_play by blast
  then show ?thesis using engine_refines_machine [OF t demo_at_table] by auto
qed

text \<open>C22: the log replays. Feeding the logged actions to a new engine whose generator has the same
  seed leads to exactly the state of the table. (\<open>replayHand\<close> itself draws a new seed: the
  hypothesis is what it would have to do.)\<close>

theorem replay_reproduces:
  assumes "play env as t = Inr t'" "at_table t rng ids s" "2 \<le> length ids" "0 \<le> s"
    and "rng_seed fresh = rng_seed rng"
  shows "replayHand (ee_sha_array env) freshId fresh (eng t') = Inr (estate (eng t'))"
proof -
  have shuf: "(rng_shuffle (ee_sha_array env) fresh :: shuffler) = rng_shuffle (ee_sha_array env) rng"
    using assms(5) by (simp add: rng_shuffle_def fun_eq_iff)
  have t: "e_machine (eng t) = new_machine ids s" "e_rng (eng t) = rng" "e_startingStack (eng t) = s"
    using assms(2) by auto
  obtain e where e: "engine_run (rng_shuffle (ee_sha_array env) rng) as (eng t) = Inr e" "same_game e (eng t')"
    using play_engine [OF assms(1) t(2)] by blast
  let ?new = "new_engine freshId fresh (map pid (players (estate (eng t')))) (e_startingStack (eng t')) None (e_stake (eng t')) ''USD''"
  have "e_machine ?new = e_machine (eng t)"
    using play_machine_inv(2) [OF assms(1-4)] play_consts(2) [OF assms(1)] t by simp
  then obtain r where "engine_run (rng_shuffle (ee_sha_array env) rng) as ?new = Inr r" "e_machine r = e_machine e"
    using engine_run_machine [OF e(1)] by blast
  then show ?thesis
    using e(2) unfolding replayHand_def replay_is_run play_log(2) [OF assms(1,2)] shuf
    by (simp add: same_game_def)
qed

theorem replay_reproduces_witness:
  "\<exists>t. play demo_engine_env [PostBlind ''p1'' 1] demo_world = Inr t
     \<and> replayHand (ee_sha_array demo_engine_env) ''x'' (demo_rng\<lparr>rng_nonce := [1]\<rparr>) (eng t) = Inr (estate (eng t))"
proof -
  obtain t where t: "play demo_engine_env [PostBlind ''p1'' 1] demo_world = Inr t" using demo_play by blast
  then show ?thesis using replay_reproduces [OF t demo_at_table] by auto
qed

text \<open>C21: the hand log is complete. After any accepted actions the log holds exactly these actions,
  numbered from 0; its states form an unbroken chain from the new table to the present state, and
  reconstructing the last entry gives the present state.\<close>

theorem log_complete:
  assumes "play env as t = Inr t'" "at_table t rng ids s"
  shows "map le_action (hl_entries (e_log (eng t'))) = as
     \<and> map le_index (hl_entries (e_log (eng t'))) = [0..<length as]
     \<and> chained (mstate (new_machine ids s)) (hl_entries (e_log (eng t'))) (estate (eng t'))
     \<and> (as \<noteq> [] \<longrightarrow> log_reconstruct (length as - 1) (e_log (eng t')) = Some (estate (eng t')))"
proof -
  note log = play_log [OF assms]
  let ?ls = "hl_entries (e_log (eng t'))"
  have len: "length ?ls = length as" using arg_cong [OF log(2), of length] by simp
  have "log_reconstruct (length as - 1) (e_log (eng t')) = Some (estate (eng t'))" if "as \<noteq> []"
  proof -
    have "?ls \<noteq> []" using that len by auto
    then show ?thesis
      using chained_last [OF log(1)] that len by (simp add: log_reconstruct_def last_conv_nth)
  qed
  then show ?thesis using log by simp
qed

theorem log_complete_witness:
  "\<exists>t. play demo_engine_env [PostBlind ''p1'' 1] demo_world = Inr t
     \<and> log_reconstruct 0 (e_log (eng t)) = Some (estate (eng t))"
proof -
  obtain t where t: "play demo_engine_env [PostBlind ''p1'' 1] demo_world = Inr t" using demo_play by blast
  then show ?thesis using log_complete [OF t demo_at_table] by auto
qed

text \<open>a settlement never pays out more than was lost. In every state of a table the deltas that
  \<open>recordDeltas\<close> would record add up to at most minus the pot; they do exactly that as long as
  nobody folds; and whenever the engine settles the pot is empty, so winnings never exceed losses.\<close>

theorem deltas_bounded:
  assumes "play env as t = Inr t'" "at_table t rng ids s" "2 \<le> length ids" "0 \<le> s"
    and "fst (recordDeltas (estate (eng t')) (e_initialStacks (eng t')) journal) = entries"
  shows "sum_list (map se_delta entries) \<le> - pot (estate (eng t'))
     \<and> ((\<forall>i. Fold i \<notin> set as) \<longrightarrow> sum_list (map se_delta entries) = - pot (estate (eng t')))
     \<and> (phase (estate (eng t')) = SETTLE \<longrightarrow> pot (estate (eng t')) = 0)"
proof -
  obtain bs where bs: "apply_all (rng_shuffle (ee_sha_array env) rng) bs (new_machine ids s) = Inr (e_machine (eng t'))"
    "set bs \<subseteq> set as \<union> {Next}"
    using play_runs [OF assms(1-4)] by blast
  note inv = play_machine_inv [OF assms(1-4)]
  note chips = hand_rng.run_chips [OF bs(1) new_machine_inv [OF assms(3,4)]]
  obtain h tb stk cur where e: "eng t = new_engine h rng ids s tb stk cur" using assms(2) by blast
  have init: "\<forall>p\<in>set (players (estate (eng t'))). initial_of (e_initialStacks (eng t')) (pid p) = s"
  proof
    fix p assume "p \<in> set (players (estate (eng t')))"
    then have "pid p \<in> set ids" using inv(2) by (metis image_eqI set_map)
    then show "initial_of (e_initialStacks (eng t')) (pid p) = s"
      using play_consts(1) [OF assms(1)] new_engine_initial [of "pid p" ids h rng s tb stk cur] by (simp add: e)
  qed
  have len: "length (players (estate (eng t'))) = length ids"
    using arg_cong [OF inv(2), of length] by simp
  have "sum_list (map se_delta entries) = sum_list (map (\<lambda>p. stack p - s) (players (estate (eng t'))))"
    using init unfolding assms(5) [symmetric] by (simp add: recordDeltas_def Let_def comp_def cong: map_cong)
  also have "\<dots> = total_chips (estate (eng t')) - pot (estate (eng t')) - int (length ids) * s"
    using len by (simp add: sum_list_subtractf sum_list_triv total_chips_def)
  finally have sum: "sum_list (map se_delta entries)
      = total_chips (estate (eng t')) - pot (estate (eng t')) - int (length ids) * s" .
  have "total_chips (estate (eng t')) = int (length ids) * s" if "\<forall>i. Fold i \<notin> set as"
    using chips(2) [OF new_machine_full] that bs(2) by (auto simp: new_machine_chips)
  moreover have "total_chips (estate (eng t')) \<le> int (length ids) * s"
    using chips(1) by (simp add: new_machine_chips)
  moreover have "pot (estate (eng t')) = 0" if "phase (estate (eng t')) = SETTLE"
    using inv(1) that by (simp add: machine_inv_def state_inv_def money_inv_def)
  ultimately show ?thesis using sum by simp
qed

theorem deltas_bounded_witness:
  "\<exists>t. play demo_engine_env [PostBlind ''p1'' 1] demo_world = Inr t
     \<and> sum_list (map se_delta (fst (recordDeltas (estate (eng t)) (e_initialStacks (eng t)) [])))
       = - pot (estate (eng t))"
proof -
  obtain t where t: "play demo_engine_env [PostBlind ''p1'' 1] demo_world = Inr t" using demo_play by blast
  then show ?thesis using deltas_bounded [OF t demo_at_table _ _ refl] by auto
qed

text \<open>Two states a viewer may not tell apart: they agree on everything but the deck and the cards of
  the other players.\<close>

definition same_view :: "string option \<Rightarrow> game_state \<Rightarrow> game_state \<Rightarrow> bool" where
  "same_view who st st' \<longleftrightarrow> phase st = phase st' \<and> street st = street st' \<and> pot st = pot st'
     \<and> sidePots st = sidePots st' \<and> currentBet st = currentBet st' \<and> communityCards st = communityCards st'
     \<and> list_all2 (\<lambda>p q. p\<lparr>holeCards := None\<rparr> = q\<lparr>holeCards := None\<rparr>
          \<and> (who = Some (pid p) \<longrightarrow> holeCards p = holeCards q)) (players st) (players st')"

lemma map_list_all2: "list_all2 (\<lambda>x y. f x = g y) xs ys \<Longrightarrow> map f xs = map g ys"
  by (induction rule: list_all2_induct) auto

lemma player_public:
  "p\<lparr>holeCards := None\<rparr> = q\<lparr>holeCards := None\<rparr> \<Longrightarrow>
   pid p = pid q \<and> stack p = stack q \<and> folded p = folded q \<and> bet p = bet q \<and> allIn p = allIn q" for p q :: player
  by (cases p; cases q) simp

text \<open>cards stay private. The state sent to a player depends on nothing that player may not
  know: it is the same for any two states that differ only in the deck and in other players' cards,
  and the only cards in it are the viewer's own. The state of the table sent to everybody shows no
  cards at all.\<close>

theorem cards_private:
  assumes "same_view who st st'"
  shows "sanitize st who = sanitize st' who \<and> getPublicState_of st = getPublicState_of st'
     \<and> (\<forall>p\<in>set (ps_players (sanitize st who)). pp_holeCards p \<noteq> None \<longrightarrow> who = Some (pp_id p))
     \<and> (\<forall>p\<in>set (ps_players (getPublicState_of st)). pp_holeCards p = None)"
proof -
  have ps: "list_all2 (\<lambda>p q. p\<lparr>holeCards := None\<rparr> = q\<lparr>holeCards := None\<rparr>
      \<and> (who = Some (pid p) \<longrightarrow> holeCards p = holeCards q)) (players st) (players st')"
    using assms by (simp add: same_view_def)
  have view: "map (\<lambda>p. \<lparr>pp_id = pid p, pp_stack = stack p, pp_folded = folded p, pp_bet = bet p,
         pp_allIn = allIn p, pp_holeCards = f (pid p) (if who = Some (pid p) then holeCards p else None)\<rparr>) (players st)
     = map (\<lambda>p. \<lparr>pp_id = pid p, pp_stack = stack p, pp_folded = folded p, pp_bet = bet p,
         pp_allIn = allIn p, pp_holeCards = f (pid p) (if who = Some (pid p) then holeCards p else None)\<rparr>) (players st')" for f
    by (rule map_list_all2, rule list_all2_mono [OF ps]) (auto dest: player_public)
  have shown: "(if who = Some (pid p) then case holeCards p of None \<Rightarrow> None | Some h \<Rightarrow> if length h = 2 then Some h else None
        else None)
     = (case if who = Some (pid p) then holeCards p else None of None \<Rightarrow> None | Some h \<Rightarrow> if length h = 2 then Some h else None)"
    for p :: player by simp
  have "sanitize st who = sanitize st' who"
    using assms view [of "\<lambda>_ c. case c of None \<Rightarrow> None | Some h \<Rightarrow> if length h = 2 then Some h else None"]
    unfolding sanitize_def public_of_def shown same_view_def by simp
  moreover have "getPublicState_of st = getPublicState_of st'"
    using assms view [of "\<lambda>_ _. None"] unfolding getPublicState_of_def public_of_def same_view_def by simp
  ultimately show ?thesis
    by (auto simp: sanitize_def getPublicState_of_def public_of_def split: if_splits)
qed

definition dealt_state :: "nat list \<Rightarrow> nat list \<Rightarrow> game_state" where
  "dealt_state other d =
     \<lparr>players = [(new_player 10 ''a'')\<lparr>holeCards := Some [1, 2]\<rparr>, (new_player 10 ''b'')\<lparr>holeCards := Some other\<rparr>],
      pot = 3, sidePots = [], communityCards = [7], phase = BETTING_ROUND, street = Flop, currentBet = 0, deck = d\<rparr>"

theorem cards_private_witness:
  "sanitize (dealt_state [3, 4] [5, 6]) (Some ''a'') = sanitize (dealt_state [5, 6] [3, 4]) (Some ''a'')
   \<and> map pp_holeCards (ps_players (sanitize (dealt_state [3, 4] [5, 6]) (Some ''a''))) = [Some [1, 2], None]"
  using cards_private [of "Some ''a''" "dealt_state [3, 4] [5, 6]" "dealt_state [5, 6] [3, 4]"]
  by (simp add: same_view_def dealt_state_def new_player_def sanitize_def public_of_def)

text \<open>Keys of the settlement journal: what \<open>settle\<close> writes, \<open>rollback\<close> takes apart.\<close>

lemma hash_not_digit: "CHR ''#'' \<notin> set (nat_digits n)"
  using nat_digits_props(2) [of n] by (auto simp: js_digit_def Let_def)

lemma number_text_digits: "number_text (nat_digits n) = nat_digits n"
  using nat_digits_props [of n] by (simp add: number_text_def list_all_iff)

lemma cancel_own_key:
  assumes "CHR ''#'' \<notin> set h" "h \<noteq> []"
  shows "cancel_by_key (h @ CHR ''#'' # street_name st @ CHR ''#'' # nat_digits i)
     = settlement_cancel h (street_name st) (nat_digits i)"
proof -
  have "CHR ''#'' \<notin> set (street_name st)" "street_name st \<noteq> []"
    by (cases st; simp add: street_name_def)+
  then show ?thesis
    using assms nat_digits_props(1)
    by (simp add: cancel_by_key_def split_on_sep split_on_whole hash_not_digit number_text_digits do_when_def)
qed

lemma cancel_h_key: "cancel_by_key (CHR ''h'' # CHR ''#'' # street_name st @ CHR ''#'' # nat_digits i)
     = settlement_cancel ''h'' (street_name st) (nat_digits i)"
  using cancel_own_key [of "''h''"] by simp

text \<open>what settling a hand does to the wallet. Two players sit down with 5 each; the second
  wins 2 from the first. The stacks are reserved when the hand is created, but the second reserve is
  skipped because it has the hash of the first; at the end the loss is taken twice (once by the hand
  ledger and once out of the refund), and the winner gets back the 5 that were never taken: the
  loser pays 4, the winner gains 5 and the reserve account is overdrawn by 5, although the
  ledger still balances.\<close>

theorem hand_settlement_example:
  "(let e = new_engine ''h'' demo_rng [''p1'', ''p2''] 5 None ''1-2'' ''USD'';
        r = seq (reserveStacks demo_env e)
              (settle_wallet demo_env False e River
                 [\<lparr>se_playerId = ''p1'', se_delta = -2\<rparr>, \<lparr>se_playerId = ''p2'', se_delta = 2\<rparr>]) demo_wallet
    in fst r = Inr ()
       \<and> map (\<lambda>a. (acc_name a, acc_balance a)) (accounts (snd r))
         = [(''alice'', -4), (''bob'', 5), (''reserve'', -5), (''house'', 0), (''prize'', 4), (''rake'', 0)])"
  by (simp add: eval_monad eval_ledger eval_demo new_engine_def new_machine_def new_player_def reserveStacks_def
      settle_wallet_def writeHandLedger_def wallet_reserve_def wallet_rollback_def wallet_commit_def cancel_key_def
      cancel_h_key settlement_cancel_def insert_settlement_def mark_committed_def initial_of_def)

end
