(* ===== verification/RoomWorker.thy ===== *)
theory RoomWorker
  imports EngineProps
begin

text \<open>
  \<open>backend/src/game/room.worker.ts\<close>: the worker thread of a table. It owns an engine without
  wallet, repository or events and answers messages one at a time; \<open>worker_message\<close> is the
  message handler. Feature flags are read from Redis, whose client and store are those of the
  wallet's environment; the settlement journal is its table. An exception in the handler leaves the
  request without an answer (\<open>Inl\<close>). Counters and log output are left out.
\<close>

section \<open>Data\<close>

datatype worker_post =
    PState public_state
  | PDealingDisabled
  | PReply nat public_state
  | PStates nat "(nat \<times> game_state) list"
  | POk nat
  | PHandId nat string

datatype worker_request =
    WApply nat game_action
  | WGetState nat
  | WReplay nat
  | WResume nat "nat option"
  | WSnapshot nat
  | WPing nat
  | WGetHandId nat

record 's worker =
  wk_table :: "'s table_world"
  wk_posts :: "worker_post list"
  wk_diffs :: "(nat \<times> public_state) list"

record 's worker_env =
  we_wallet :: "'s wallet_env"
  we_sha_array :: "bytes \<Rightarrow> bytes"
  we_tableId :: string
  we_redis :: bool
  we_fresh :: "nat \<Rightarrow> hand_rng"

definition worker_engine_env :: "'s worker_env \<Rightarrow> 's engine_env" where
  "worker_engine_env env = \<lparr>ee_wallet = None, ee_settlementSvc = False, ee_handRepo = False, ee_events = False,
     ee_sha_array = we_sha_array env\<rparr>"

section \<open>Feature flags\<close>

definition flag_enabled :: "rtext option \<Rightarrow> bool" where
  "flag_enabled v \<longleftrightarrow> v = None \<or> v = Some (Raw ''1'') \<or> v = Some (Raw ''true'')"

definition room_flag :: "'s worker_env \<Rightarrow> string \<Rightarrow> 's table_world \<Rightarrow> bool" where
  "room_flag env name t \<longleftrightarrow> \<not> we_redis env
     \<or> (let get = (\<lambda>k. r_get (client (we_wallet env)) k (store (bank t)))
        in flag_enabled (get (''feature-flag:'' @ name))
           \<and> flag_enabled (get (''feature-flag:room:'' @ we_tableId env @ '':'' @ name)))"

definition isSettlementEnabled :: "'s worker_env \<Rightarrow> 's table_world \<Rightarrow> bool" where
  "isSettlementEnabled env t = room_flag env ''settlement'' t"

definition isDealingEnabled :: "'s worker_env \<Rightarrow> 's table_world \<Rightarrow> bool" where
  "isDealingEnabled env t = room_flag env ''dealing'' t"

section \<open>Playing\<close>

abbreviation tphase :: "'s table_world \<Rightarrow> hand_phase" where
  "tphase t \<equiv> phase (estate (eng t))"

definition resetToWaitBlinds :: "'s table_world \<Rightarrow> 's table_world" where
  "resetToWaitBlinds t =
     (let e = eng t; st = estate e
      in t\<lparr>eng := e\<lparr>e_machine := (e_machine e)\<lparr>mstate := st\<lparr>phase := WAIT_BLINDS, deck := [], communityCards := [],
            players := map (\<lambda>p. p\<lparr>holeCards := None\<rparr>) (players st)\<rparr>\<rparr>\<rparr>\<rparr>)"

lemma settle_rest_frame:
  assumes "ee_wallet env = None"
  shows "keeps (\<lambda>t. same_game e (eng t) \<and> e_handId (eng t) = h \<and> bank t = b) (settle_rest env)"
  unfolding settle_rest_def Let_def split_def assms option.case
  by (intro keeps_intros keeps_publish keeps_upd; simp add: same_game_def log_recordProof_def)

lemma applyAction_machine:
  assumes "applyAction env a t = (Inr r, t')"
  shows "\<exists>s. step_machine (rng_shuffle (ee_sha_array env) (e_rng (eng t))) a (e_machine (eng t)) = Inr (s, e_machine (eng t'))"
    "r = estate (eng t')"
proof -
  let ?shuf = "rng_shuffle (ee_sha_array env) (e_rng (eng t)) :: shuffler"
  obtain e s where e: "engine_step ?shuf a (eng t) = Inr (e, s)" "r = estate e"
    "t' = (if s then snd (settle_rest env (t\<lparr>eng := e\<rparr>)) else t\<lparr>eng := e\<rparr>)"
    using assms by (auto simp: applyAction_def Let_def split: sum.splits)
  have "same_game e (eng t')"
    using settle_rest_same [of e env] e(3) by (auto simp: keeps_def)
  then show "\<exists>s. step_machine ?shuf a (e_machine (eng t)) = Inr (s, e_machine (eng t'))" "r = estate (eng t')"
    using e(1,2) by (auto simp: engine_step_def rbind_eq_Inr_iff same_game_def)
qed

lemma settle_start_phase: "phase (mstate (snd (settle_start m))) = phase (mstate m)"
  by (simp add: settle_start_def settlePots_frame)

text \<open>A deal is followed by a betting round or by the settlement, never by another deal.\<close>

lemma deal_advances:
  assumes "applyAction env Next t = (Inr r, t')" "tphase t = DEAL"
  shows "tphase t' \<noteq> DEAL"
proof -
  obtain s where s: "step_machine (rng_shuffle (ee_sha_array env) (e_rng (eng t))) Next (e_machine (eng t))
      = Inr (s, e_machine (eng t'))"
    using applyAction_machine(1) [OF assms(1)] by blast
  then obtain m1 where m0: "machine_apply (rng_shuffle (ee_sha_array env) (e_rng (eng t))) Next (e_machine (eng t)) = Inr m1"
    and m2: "(if phase (mstate (force_showdown m1)) = SHOWDOWN
      then rbind (machine_apply (rng_shuffle (ee_sha_array env) (e_rng (eng t))) Next (force_showdown m1))
             (\<lambda>m3. Inr (settle_start m3)) else Inr (False, force_showdown m1)) = Inr (s, e_machine (eng t'))"
    by (auto simp: step_machine_def rbind_eq_Inr_iff Let_def)
  have "phase (mstate m1) = BETTING_ROUND"
    using m0 assms(2) by (auto simp: machine_apply_def apply_deal_def rbind_eq_Inr_iff)
  note m1 = this m2
  show ?thesis
  proof (cases "phase (mstate (force_showdown m1)) = SHOWDOWN")
    case True
    then obtain m3 where "m3 = (force_showdown m1)\<lparr>mstate := settlePots (mstate (force_showdown m1))\<lparr>phase := SETTLE\<rparr>\<rparr>"
      "settle_start m3 = (s, e_machine (eng t'))"
      using m1(2) by (auto simp: rbind_eq_Inr_iff machine_apply_def apply_showdown_def)
    then have "tphase t' = SETTLE"
      using settle_start_phase [of m3] by simp
    then show ?thesis by simp
  next
    case False
    then have "force_showdown m1 = m1"
      by (auto simp: force_showdown_def split: if_splits)
    then show ?thesis
      using m1 False by auto
  qed
qed

text \<open>The loop that deals until the players have to act: the table, and whether dealing was halted.\<close>

function auto_deal :: "'s worker_env \<Rightarrow> 's table_world \<Rightarrow> game_error + ('s table_world \<times> bool)" where
  "auto_deal env t =
     (if tphase t \<noteq> DEAL then Inr (t, False)
      else if \<not> isDealingEnabled env t then Inr (resetToWaitBlinds t, True)
      else case applyAction (worker_engine_env env) Next t of
             (Inl err, _) \<Rightarrow> Inl err
           | (Inr _, t') \<Rightarrow> auto_deal env t')"
  by auto
termination
  by (relation "measure (\<lambda>(env, t). if tphase t = DEAL then 1 else 0)") (auto dest: deal_advances [OF sym])

declare auto_deal.simps [simp del]

lemma auto_deal_stop: "tphase t \<noteq> DEAL \<Longrightarrow> auto_deal env t = Inr (t, False)"
  by (simp add: auto_deal.simps [of env t])

definition worker_play :: "'s worker_env \<Rightarrow> game_action \<Rightarrow> 's table_world \<Rightarrow> game_error + ('s table_world \<times> bool)" where
  "worker_play env action t =
     (case applyAction (worker_engine_env env) action t of
        (Inl err, _) \<Rightarrow> Inl err
      | (Inr _, t1) \<Rightarrow>
          if tphase t = WAIT_BLINDS \<and> tphase t1 = DEAL \<and> \<not> isDealingEnabled env t1
          then Inr (resetToWaitBlinds t1, True)
          else auto_deal env t1)"

section \<open>Messages\<close>

text \<open>The index of the last entry of the log.\<close>

definition last_index :: "engine \<Rightarrow> nat \<Rightarrow> nat" where
  "last_index e d = (if hl_entries (e_log e) = [] then d else le_index (last (hl_entries (e_log e))))"

definition settlement_do :: "('s, unit) wact \<Rightarrow> 's table_world \<Rightarrow> 's table_world" where
  "settlement_do m t = t\<lparr>bank := snd (m (bank t))\<rparr>"

definition broadcast :: "nat \<Rightarrow> public_state \<Rightarrow> 's worker_env \<Rightarrow> 's worker \<Rightarrow> 's worker" where
  "broadcast idx st env w =
     w\<lparr>wk_posts := wk_posts w @ [PState st],
       wk_diffs := (if we_redis env then wk_diffs w @ [(idx, st)] else wk_diffs w)\<rparr>"

text \<open>The last part of \<open>apply\<close>: a settled hand goes on to the next one, then the settlement is
  committed under the street and index the table has then.\<close>

definition worker_finish :: "'s worker_env \<Rightarrow> nat \<Rightarrow> nat \<Rightarrow> public_state \<Rightarrow> 's worker \<Rightarrow> game_error + 's worker" where
  "worker_finish env sq idx st w =
     rbind (if ps_phase st = SETTLE
            then (case applyAction (worker_engine_env env) Next (wk_table w) of
                    (Inl err, _) \<Rightarrow> Inl err
                  | (Inr _, t) \<Rightarrow>
                      let idx' = last_index (eng t) idx; st' = getPublicState (eng t)
                      in Inr (idx', st', broadcast idx' st' env (w\<lparr>wk_table := t\<rparr>)))
            else Inr (idx, st, w))
       (\<lambda>(idx', st', w').
          let t = wk_table w';
              t' = (if isSettlementEnabled env (wk_table w)
                    then settlement_do (settlement_commit (e_handId (eng t)) (street_name (ps_street st')) (nat_digits idx')) t
                    else t)
          in Inr (w'\<lparr>wk_table := t', wk_posts := wk_posts w' @ [PReply sq st']\<rparr>))"

definition worker_apply :: "'s worker_env \<Rightarrow> nat \<Rightarrow> game_action \<Rightarrow> 's worker \<Rightarrow> game_error + 's worker" where
  "worker_apply env sq action w =
     rbind (worker_play env action (wk_table w)) (\<lambda>(t, halted).
     let idx = last_index (eng t) 0; st = getPublicState (eng t);
         t1 = (if isSettlementEnabled env t
               then settlement_do (settlement_reserve (we_wallet env) (e_handId (eng t)) (street_name (ps_street st)) (nat_digits idx)) t
               else t);
         w1 = broadcast idx st env (w\<lparr>wk_table := t1\<rparr>);
         w2 = (if halted then w1\<lparr>wk_posts := wk_posts w1 @ [PDealingDisabled]\<rparr> else w1)
     in worker_finish env sq idx st w2)"

definition logged_states :: "engine \<Rightarrow> (nat \<times> game_state) list" where
  "logged_states e = map (\<lambda>l. (le_index l, le_post l)) (hl_entries (e_log e))"

fun worker_message :: "'s worker_env \<Rightarrow> worker_request \<Rightarrow> 's worker \<Rightarrow> game_error + 's worker" where
  "worker_message env (WApply sq action) w = worker_apply env sq action w"
| "worker_message env (WGetState sq) w =
     Inr (w\<lparr>wk_posts := wk_posts w @ [PReply sq (getPublicState (eng (wk_table w)))]\<rparr>)"
| "worker_message env (WReplay sq) w =
     rbind (replayHand (we_sha_array env) (uuid (we_wallet env) sq) (we_fresh env sq) (eng (wk_table w))) (\<lambda>_.
       let st = getPublicState (eng (wk_table w))
       in Inr (w\<lparr>wk_posts := wk_posts w @ [PState st, PReply sq st]\<rparr>))"
| "worker_message env (WResume sq from) w =
     Inr (w\<lparr>wk_posts := wk_posts w @ [PStates sq
        (filter (\<lambda>(i, _). i \<ge> (case from of None \<Rightarrow> 0 | Some f \<Rightarrow> f)) (logged_states (eng (wk_table w))))]\<rparr>)"
| "worker_message env (WSnapshot sq) w =
     Inr (w\<lparr>wk_posts := wk_posts w @ [PStates sq (logged_states (eng (wk_table w)))]\<rparr>)"
| "worker_message env (WPing sq) w = Inr (w\<lparr>wk_posts := wk_posts w @ [POk sq]\<rparr>)"
| "worker_message env (WGetHandId sq) w =
     Inr (w\<lparr>wk_posts := wk_posts w @ [PHandId sq (e_handId (eng (wk_table w)))]\<rparr>)"

section \<open>Phases\<close>

lemma broadcast_table [simp]: "wk_table (broadcast idx st env w) = wk_table w"
  by (simp add: broadcast_def)

lemma public_phase [simp]:
  "ps_phase (getPublicState e) = phase (estate e)" "ps_street (getPublicState e) = street (estate e)"
  by (simp_all add: getPublicState_def getPublicState_of_def public_of_def)

lemma settlement_do_eng [simp]: "eng (settlement_do m t) = eng t"
  by (simp add: settlement_do_def)

lemma step_not_showdown:
  assumes "step_machine shuf a m = Inr (s, m')"
  shows "phase (mstate m') \<noteq> SHOWDOWN"
proof -
  obtain m1 where m1: "(if phase (mstate (force_showdown m1)) = SHOWDOWN
      then rbind (machine_apply shuf Next (force_showdown m1)) (\<lambda>m3. Inr (settle_start m3))
      else Inr (False, force_showdown m1)) = Inr (s, m')"
    using assms by (auto simp: step_machine_def rbind_eq_Inr_iff Let_def)
  show ?thesis
  proof (cases "phase (mstate (force_showdown m1)) = SHOWDOWN")
    case True
    let ?m3 = "(force_showdown m1)\<lparr>mstate := settlePots (mstate (force_showdown m1))\<lparr>phase := SETTLE\<rparr>\<rparr>"
    have "settle_start ?m3 = (s, m')"
      using m1 True by (simp add: machine_apply_def apply_showdown_def)
    then show ?thesis using settle_start_phase [of ?m3] by simp
  next
    case False
    then show ?thesis using m1 by auto
  qed
qed

lemma step_after_settle:
  assumes "phase (mstate m) = SETTLE"
  shows "\<exists>m'. step_machine shuf Next m = Inr (False, m') \<and> phase (mstate m') = NEXT_HAND \<and> street (mstate m') = Preflop"
  using assms by (simp add: step_machine_def machine_apply_def apply_settle_def force_showdown_def)

lemma applyAction_after_settle:
  assumes "tphase t = SETTLE"
  shows "\<exists>r t'. applyAction env Next t = (Inr r, t') \<and> tphase t' = NEXT_HAND \<and> street (estate (eng t')) = Preflop
     \<and> bank t' = bank t \<and> e_handId (eng t') = e_handId (eng t)
     \<and> hl_entries (e_log (eng t')) = hl_entries (e_log (eng t))
         @ [\<lparr>le_index = length (hl_entries (e_log (eng t))), le_action = Next, le_pre = estate (eng t), le_post = estate (eng t')\<rparr>]"
  using step_after_settle [OF assms, of "rng_shuffle (ee_sha_array env) (e_rng (eng t))"]
  by (auto simp: applyAction_def engine_step_def log_record_def Let_def)

lemma auto_deal_phase:
  "auto_deal env t = Inr (t', h) \<Longrightarrow> tphase t \<noteq> SHOWDOWN \<Longrightarrow> tphase t' \<notin> {DEAL, SHOWDOWN}"
proof (induction env t rule: auto_deal.induct)
  case (1 env t)
  show ?case
  proof (cases "tphase t = DEAL \<and> isDealingEnabled env t")
    case False
    then show ?thesis
      using "1.prems" by (auto simp: auto_deal.simps [of env t] resetToWaitBlinds_def Let_def split: if_splits)
  next
    case True
    then obtain r t1 where r: "applyAction (worker_engine_env env) Next t = (Inr r, t1)" "auto_deal env t1 = Inr (t', h)"
      using "1.prems"(1) by (auto simp: auto_deal.simps [of env t] split: prod.splits sum.splits)
    have "tphase t1 \<noteq> SHOWDOWN"
      using applyAction_machine(1) [OF r(1)] step_not_showdown by blast
    then show ?thesis using "1.IH" True r by auto
  qed
qed

lemma worker_play_phase:
  assumes "worker_play env a t = Inr (t', h)"
  shows "tphase t' \<notin> {DEAL, SHOWDOWN}"
proof -
  obtain r t1 where r: "applyAction (worker_engine_env env) a t = (Inr r, t1)"
    using assms by (auto simp: worker_play_def split: prod.splits sum.splits)
  have "tphase t1 \<noteq> SHOWDOWN"
    using applyAction_machine(1) [OF r] step_not_showdown by blast
  then show ?thesis
    using assms r auto_deal_phase [of env t1 t' h]
    by (auto simp: worker_play_def resetToWaitBlinds_def Let_def split: if_splits)
qed

section \<open>Properties\<close>

definition demo_worker_env :: "mock_redis worker_env" where
  "demo_worker_env = \<lparr>we_wallet = demo_env, we_sha_array = (\<lambda>_. replicate 32 0), we_tableId = ''t'', we_redis = True,
     we_fresh = (\<lambda>_. demo_rng)\<rparr>"

text \<open>Once the action is accepted, the rest of the message cannot fail.\<close>

lemma worker_apply_total:
  assumes "worker_play env a (wk_table w) = Inr (t, h)"
  shows "\<exists>w'. worker_apply env sq a w = Inr w'"
proof -
  have "\<exists>w'. worker_finish env sq i (getPublicState (eng t)) v = Inr w'" if "eng (wk_table v) = eng t" for v i
  proof (cases "tphase t = SETTLE")
    case True
    then have "tphase (wk_table v) = SETTLE" using that by simp
    then show ?thesis
      using applyAction_after_settle [of "wk_table v" "worker_engine_env env"] True
      by (auto simp: worker_finish_def Let_def)
  qed (simp add: worker_finish_def Let_def)
  then show ?thesis
    using assms by (simp add: worker_apply_def Let_def)
qed

text \<open>C28: after every action the players are to move. Whatever action a worker accepts, it deals and
  settles on its own until a player has to act: the table is waiting for blinds, in a betting round
  or between two hands, never in the middle of a deal, a showdown or a settlement.\<close>

theorem worker_hands_over:
  assumes "worker_apply env sq a w = Inr w'"
  shows "tphase (wk_table w') \<in> {WAIT_BLINDS, BETTING_ROUND, NEXT_HAND}"
proof -
  obtain t h w2 where p: "worker_play env a (wk_table w) = Inr (t, h)"
    and f: "worker_finish env sq (last_index (eng t) 0) (getPublicState (eng t)) w2 = Inr w'"
    and t: "eng (wk_table w2) = eng t"
    using assms by (auto simp: worker_apply_def rbind_eq_Inr_iff Let_def split: if_splits)
  have ph: "tphase t \<notin> {DEAL, SHOWDOWN}" using worker_play_phase [OF p] .
  show ?thesis
  proof (cases "tphase t = SETTLE")
    case True
    then have s: "tphase (wk_table w2) = SETTLE" using t by simp
    obtain r t' where t': "applyAction (worker_engine_env env) Next (wk_table w2) = (Inr r, t')" "tphase t' = NEXT_HAND"
      using applyAction_after_settle [OF s] by blast
    have "eng (wk_table w') = eng t'"
      using f True t' by (auto simp: worker_finish_def Let_def)
    then show ?thesis using t'(2) by simp
  next
    case False
    then have "tphase (wk_table w') = tphase t"
      using f t by (auto simp: worker_finish_def Let_def)
    then show ?thesis using ph False by (cases "tphase t") auto
  qed
qed

definition demo_worker :: "mock_redis worker" where
  "demo_worker = \<lparr>wk_table = demo_world, wk_posts = [], wk_diffs = []\<rparr>"

lemma demo_blind: "\<exists>t. worker_play demo_worker_env (PostBlind ''p1'' 1) demo_world = Inr (t, False)"
  by (simp add: worker_play_def demo_world_def applyAction_def engine_step_def step_machine_def force_showdown_def
      new_machine_def new_player_def machine_apply_def apply_blinds_def findPlayer_def or_fail_def placeBet_def
      upt_rec activePlayers_def Let_def auto_deal_stop)

theorem worker_hands_over_witness:
  "\<exists>w'. worker_apply demo_worker_env 1 (PostBlind ''p1'' 1) demo_worker = Inr w'
     \<and> tphase (wk_table w') \<in> {WAIT_BLINDS, BETTING_ROUND, NEXT_HAND}"
proof -
  obtain t where "worker_play demo_worker_env (PostBlind ''p1'' 1) demo_world = Inr (t, False)"
    using demo_blind by blast
  then obtain w' where w': "worker_apply demo_worker_env 1 (PostBlind ''p1'' 1) demo_worker = Inr w'"
    using worker_apply_total [of demo_worker_env "PostBlind ''p1'' 1" demo_worker t False] by (auto simp: demo_worker_def)
  then show ?thesis using worker_hands_over [OF w'] by blast
qed

lemma buildKey_inject:
  assumes "CHR ''#'' \<notin> set s" "CHR ''#'' \<notin> set s'"
  shows "buildKey h s d = buildKey h s' d' \<longleftrightarrow> s = s' \<and> d = d'"
proof
  assume "buildKey h s d = buildKey h s' d'"
  then have eq: "s @ CHR ''#'' # d = s' @ CHR ''#'' # d'" by (simp add: buildKey_def)
  then have "s = s'" using split_on_sep [OF assms(1), of d] split_on_sep [OF assms(2), of d'] by simp
  then show "s = s' \<and> d = d'" using eq by simp
qed simp

lemma nat_digits_inject: "nat_digits a = nat_digits b \<longleftrightarrow> a = b"
  using nat_digits_props(3) by metis

lemma street_no_hash: "CHR ''#'' \<notin> set (street_name st)"
  by (cases st) (simp_all add: street_name_def)

text \<open>the settlement of a finished hand is never committed. When an action ends the hand, the
  worker reserves the settlement under the street and log index of the showdown, moves on to the next
  hand, and only then commits, under the street \<open>preflop\<close> and the next index: the row it
  reserved stays reserved.\<close>

theorem settlement_left_reserved:
  assumes "worker_apply env sq a w = Inr w'" "worker_play env a (wk_table w) = Inr (t, halted)"
    and "tphase t = SETTLE" "isSettlementEnabled env t"
    and "hl_entries (e_log (eng t)) \<noteq> []"
    and "map le_index (hl_entries (e_log (eng t))) = [0..<length (hl_entries (e_log (eng t)))]"
    and "key = buildKey (e_handId (eng t)) (street_name (street (estate (eng t)))) (nat_digits (last_index (eng t) 0))"
    and "key \<notin> sj_idempotencyKey ` set (settlements (bank t))"
  shows "\<exists>row\<in>set (settlements (bank (wk_table w'))). sj_idempotencyKey row = key \<and> sj_status row = Reserved"
proof -
  let ?n = "length (hl_entries (e_log (eng t)))"
  let ?t1 = "settlement_do (settlement_reserve (we_wallet env) (e_handId (eng t))
      (street_name (street (estate (eng t)))) (nat_digits (last_index (eng t) 0))) t"
  obtain i where i: "settlements (bank ?t1) = settlements (bank t) @ [\<lparr>sj_id = i, sj_idempotencyKey = key, sj_status = Reserved\<rparr>]"
    using assms(7,8) by (auto simp: settlement_do_def settlement_reserve_def insert_settlement_def randomUUID_def
        bnd_assoc seq_def run_simps)
  have s1: "store (bank ?t1) = store (bank t)"
    by (simp add: settlement_do_def settlement_reserve_def insert_settlement_def randomUUID_def bnd_assoc seq_def run_simps)
  have "tphase ?t1 = SETTLE" using assms(3) by simp
  then obtain r t' where t': "applyAction (worker_engine_env env) Next ?t1 = (Inr r, t')" "street (estate (eng t')) = Preflop"
    "bank t' = bank ?t1" "e_handId (eng t') = e_handId (eng t)"
    "hl_entries (e_log (eng t')) = hl_entries (e_log (eng t))
         @ [\<lparr>le_index = ?n, le_action = Next, le_pre = estate (eng t), le_post = estate (eng t')\<rparr>]"
    using applyAction_after_settle [of ?t1 "worker_engine_env env"] by auto
  have last: "last_index (eng t') j = ?n" "last_index (eng t) 0 = ?n - 1" for j
    using t'(5) assms(5,6) by (simp_all add: last_index_def last_conv_nth flip: nth_map)
  have "last_index (eng t) 0 \<noteq> ?n" using last(2) assms(5) by (cases "hl_entries (e_log (eng t))") simp_all
  then have ne: "buildKey (e_handId (eng t)) (street_name Preflop) (nat_digits ?n) \<noteq> key"
    by (simp add: assms(7) buildKey_inject street_no_hash nat_digits_inject)
  have en: "isSettlementEnabled env ?t1"
    using assms(4) s1 by (simp add: isSettlementEnabled_def room_flag_def)
  have "bank (wk_table w') = snd (settlement_commit (e_handId (eng t)) (street_name Preflop) (nat_digits ?n) (bank ?t1))"
    using assms(1-4) en t'(1-4) last
    by (cases halted) (auto simp: worker_apply_def worker_finish_def Let_def settlement_do_def [of _ t'])
  then have "settlements (bank (wk_table w')) = map (\<lambda>r. if sj_idempotencyKey r = buildKey (e_handId (eng t)) (street_name Preflop) (nat_digits ?n)
      \<and> sj_status r = Reserved then r\<lparr>sj_status := Committed\<rparr> else r) (settlements (bank ?t1))"
    by (simp add: settlement_commit_def run_simps)
  then show ?thesis
    using i ne by (intro bexI [of _ "\<lparr>sj_id = i, sj_idempotencyKey = key, sj_status = Reserved\<rparr>"]) auto
qed

text \<open>A table in its first betting round: the second player folds.\<close>

definition folding_state :: game_state where
  "folding_state = \<lparr>players = [(new_player 9 ''p1'')\<lparr>bet := 1, holeCards := Some [0, 13]\<rparr>,
       (new_player 8 ''p2'')\<lparr>bet := 2, holeCards := Some [5, 9]\<rparr>],
     pot = 3, sidePots = [], communityCards = [], phase = BETTING_ROUND, street = Preflop, currentBet = 2, deck = []\<rparr>"

definition folding_worker :: "mock_redis worker" where
  "folding_worker = \<lparr>wk_table = demo_world\<lparr>eng := (eng demo_world)\<lparr>e_machine := \<lparr>mstate = folding_state, blindsPosted = []\<rparr>\<rparr>\<rparr>,
     wk_posts = [], wk_diffs = []\<rparr>"

lemma active_settlePots:
  "filter (\<lambda>p. \<not> folded p) (players (settlePots st)) = [] \<longleftrightarrow> filter (\<lambda>p. \<not> folded p) (players st) = []"
  for st :: game_state
proof -
  have e: "filter (\<lambda>p. \<not> folded p) ps = [] \<longleftrightarrow> False \<notin> set (map folded ps)" for ps :: "player list"
    by (auto simp: filter_empty_conv)
  show ?thesis unfolding e settlePots_frame(2) ..
qed

lemma folding_step:
  "\<exists>st. step_machine shuf (Fold ''p2'') \<lparr>mstate = folding_state, blindsPosted = []\<rparr> = Inr (True, \<lparr>mstate = st, blindsPosted = []\<rparr>)
     \<and> phase st = SETTLE \<and> street st = Preflop"
  by (simp add: step_machine_def machine_apply_def apply_betting_def betting_action_def folding_state_def findPlayer_def
      or_fail_def new_player_def upt_rec close_if_alone_def activePlayers_def finishBettingRound_def bettors_of_def
      force_showdown_def apply_showdown_def settle_start_def active_settlePots settlePots_frame Let_def)

lemma folding_fields:
  "e_machine (eng (wk_table folding_worker)) = \<lparr>mstate = folding_state, blindsPosted = []\<rparr>"
  "e_rng (eng (wk_table folding_worker)) = demo_rng" "bank (wk_table folding_worker) = demo_wallet"
  "hl_entries (e_log (eng (wk_table folding_worker))) = []" "e_handId (eng (wk_table folding_worker)) = ''h''"
  by (simp add: folding_worker_def, simp add: folding_worker_def demo_world_def,
      simp add: folding_worker_def demo_world_def, simp add: folding_worker_def demo_world_def,
      simp add: folding_worker_def demo_world_def new_engine_def Let_def)

lemma folding_play:
  "\<exists>t. worker_play demo_worker_env (Fold ''p2'') (wk_table folding_worker) = Inr (t, False) \<and> tphase t = SETTLE
      \<and> bank t = demo_wallet
      \<and> map le_index (hl_entries (e_log (eng t))) = [0] \<and> street (estate (eng t)) = Preflop \<and> e_handId (eng t) = ''h''"
proof -
  obtain st where st: "step_machine (rng_shuffle (\<lambda>_. replicate 32 0) demo_rng) (Fold ''p2'') \<lparr>mstate = folding_state, blindsPosted = []\<rparr>
      = Inr (True, \<lparr>mstate = st, blindsPosted = []\<rparr>)" "phase st = SETTLE" "street st = Preflop"
    using folding_step by blast
  let ?env = "worker_engine_env demo_worker_env" and ?t = "wk_table folding_worker"
  define e where "e = (eng ?t)\<lparr>e_machine := \<lparr>mstate = st, blindsPosted = []\<rparr>,
      e_log := log_record (Fold ''p2'') (estate (eng ?t)) st (e_log (eng ?t))\<rparr>"
  define t where "t = snd (settle_rest ?env (?t\<lparr>eng := e\<rparr>))"
  note m = folding_fields
  have sha: "ee_sha_array ?env = (\<lambda>_. replicate 32 0)" "ee_wallet ?env = None"
    by (simp_all add: worker_engine_env_def demo_worker_env_def)
  have "keeps (\<lambda>v. same_game e (eng v) \<and> e_handId (eng v) = ''h'' \<and> bank v = demo_wallet) (settle_rest ?env)"
    by (rule settle_rest_frame [OF sha(2)])
  then have f: "same_game e (eng t)" "e_handId (eng t) = ''h''" "bank t = demo_wallet"
    using m(3,5) unfolding keeps_def t_def by (auto simp: e_def)
  have a: "applyAction ?env (Fold ''p2'') ?t = (Inr st, t)"
    unfolding applyAction_def engine_step_def sha m(1,2) st(1) by (simp add: t_def e_def m Let_def)
  have em: "e_machine e = \<lparr>mstate = st, blindsPosted = []\<rparr>" "map le_index (hl_entries (e_log e)) = [0]"
    by (simp_all add: e_def log_record_def m(4))
  have ph: "tphase t = SETTLE" "street (estate (eng t)) = Preflop" "map le_index (hl_entries (e_log (eng t))) = [0]"
    using f(1) st(2,3) em by (simp_all add: same_game_def)
  have bet: "tphase ?t = BETTING_ROUND" by (simp add: m(1) folding_state_def)
  have "worker_play demo_worker_env (Fold ''p2'') ?t = Inr (t, False)"
    unfolding worker_play_def a using ph(1) bet by (simp add: auto_deal_stop)
  then show ?thesis using f ph by (intro exI [of _ t] conjI)
qed

lemma digits_0: "nat_digits 0 = ''0''"
  by code_simp

theorem settlement_left_reserved_witness:
  "\<exists>w'. worker_apply demo_worker_env 1 (Fold ''p2'') folding_worker = Inr w'
     \<and> (\<exists>row\<in>set (settlements (bank (wk_table w'))). sj_idempotencyKey row = ''h#preflop#0'' \<and> sj_status row = Reserved)"
proof -
  let ?a = "worker_apply demo_worker_env 1 (Fold ''p2'') folding_worker"
  let ?p = "worker_play demo_worker_env (Fold ''p2'') (wk_table folding_worker)"
  obtain t where t: "?p = Inr (t, False)" "tphase t = SETTLE" "bank t = demo_wallet"
    "map le_index (hl_entries (e_log (eng t))) = [0]" "street (estate (eng t)) = Preflop" "e_handId (eng t) = ''h''"
    using folding_play by (elim exE conjE) (rule that)
  have en: "isSettlementEnabled demo_worker_env t"
    by (simp add: isSettlementEnabled_def room_flag_def t(3) demo_worker_env_def demo_env_def mock_client_def mock_get_def
        demo_wallet_def empty_mock_def flag_enabled_def)
  obtain w' where w': "?a = Inr w'" using worker_apply_total [OF t(1)] by blast
  have n: "length (hl_entries (e_log (eng t))) = 1" "last_index (eng t) 0 = 0"
    using arg_cong [OF t(4), of length] t(4) by (auto simp: last_index_def)
  have "\<exists>row\<in>set (settlements (bank (wk_table w'))). sj_idempotencyKey row = ''h#preflop#0'' \<and> sj_status row = Reserved"
    by (rule settlement_left_reserved [OF w' t(1,2) en])
      (use t n in \<open>auto simp: buildKey_def street_name_def digits_0 demo_wallet_def\<close>)
  with w' show ?thesis by blast
qed

end
