(* ===== verification/Balancing.thy ===== *)
theory Balancing
  imports Prelude Doubles "HOL-Library.AList"
begin

text \<open>
  The pure algorithms of the tournaments: \<open>balanceTables\<close> and \<open>resolveBubbleElimination\<close> of
  \<open>backend/src/tournament/tournament.service.ts\<close>, the prizes and bounties of
  \<open>backend/src/tournament/pko.service.ts\<close>, the rebuys of
  \<open>backend/src/tournament/rebuy.service.ts\<close> and the Independent Chip Model of
  \<open>shared/utils/icm.ts\<close>. Chips and prizes are integers; a payout share is a number between, and
  products and quotients are rounded to doubles (theory \<open>Doubles\<close>).
\<close>

section \<open>Balancing tables\<close>

text \<open>The scan for the first largest and the first smallest table; \<open>None\<close> is \<open>Infinity\<close>.\<close>

fun scan_tables :: "nat \<Rightarrow> nat \<times> nat \<Rightarrow> (nat \<times> nat) option \<Rightarrow> string list list \<Rightarrow> (nat \<times> nat) \<times> (nat \<times> nat) option" where
  "scan_tables i mx mn [] = (mx, mn)"
| "scan_tables i mx mn (t # ts) =
     scan_tables (i + 1)
       (if length t > fst mx then (length t, i) else mx)
       (case mn of None \<Rightarrow> Some (length t, i) | Some (n, _) \<Rightarrow> if length t < n then Some (length t, i) else mn) ts"

definition eligible :: "(string \<times> int) list \<Rightarrow> int \<Rightarrow> int \<Rightarrow> string \<Rightarrow> bool" where
  "eligible recentlyMoved currentHand avoidWithin p =
     (case map_of recentlyMoved p of None \<Rightarrow> True | Some h \<Rightarrow> currentHand - h \<ge> avoidWithin)"

text \<open>The last eligible player of a table, and the table without that player.\<close>

fun take_last :: "(string \<Rightarrow> bool) \<Rightarrow> string list \<Rightarrow> (string \<times> string list) option" where
  "take_last ok [] = None"
| "take_last ok (p # ps) =
     (case take_last ok ps of
        Some (q, qs) \<Rightarrow> Some (q, p # qs)
      | None \<Rightarrow> if ok p then Some (p, ps) else None)"

lemma take_last_Some:
  "take_last ok ps = Some (q, qs) \<Longrightarrow> ok q \<and> mset ps = add_mset q (mset qs) \<and> length ps = Suc (length qs)"
  by (induction ps arbitrary: q qs) (auto split: option.splits if_splits)

lemma take_last_None: "take_last ok ps = None \<longleftrightarrow> (\<forall>p\<in>set ps. \<not> ok p)"
  by (induction ps) (auto split: option.splits)

text \<open>One round of the loop: \<open>Inl\<close> is the result when it breaks off.\<close>

definition balance_step ::
  "int \<Rightarrow> int \<Rightarrow> string list list \<Rightarrow> (string \<times> int) list
   \<Rightarrow> (string list list \<times> (string \<times> int) list) + (string list list \<times> (string \<times> int) list)" where
  "balance_step currentHand avoidWithin result recentlyMoved =
     (case scan_tables 0 (0, 0) None result of
        (_, None) \<Rightarrow> Inl (result, recentlyMoved)
      | ((mx, maxIdx), Some (mn, minIdx)) \<Rightarrow>
          if int mx - int mn \<le> 1 then Inl (result, recentlyMoved)
          else case take_last (eligible recentlyMoved currentHand avoidWithin) (result ! maxIdx) of
                 None \<Rightarrow> Inl (result, recentlyMoved)
               | Some (player, rest) \<Rightarrow>
                   let result1 = result[maxIdx := rest]
                   in if player = [] then Inl (result1, recentlyMoved)
                      else Inr (result1[minIdx := result1 ! minIdx @ [player]],
                                AList.update player currentHand recentlyMoved))"

lemma scan_invariant:
  assumes "scan_tables i mx mn ts = (mx', mn')"
    and "mx = (0, 0) \<or> snd mx < i \<and> fst mx = length (pre ! snd mx)" "\<forall>t\<in>set pre. length t \<le> fst mx"
    and "length pre = i" "case mn of None \<Rightarrow> pre = [] | Some (n, k) \<Rightarrow> k < i \<and> n = length (pre ! k) \<and> (\<forall>t\<in>set pre. n \<le> length t)"
  shows "(mx' = (0, 0) \<or> snd mx' < length (pre @ ts) \<and> fst mx' = length ((pre @ ts) ! snd mx'))
     \<and> (\<forall>t\<in>set (pre @ ts). length t \<le> fst mx')
     \<and> (case mn' of None \<Rightarrow> pre @ ts = [] | Some (n, k) \<Rightarrow> k < length (pre @ ts) \<and> n = length ((pre @ ts) ! k)
          \<and> (\<forall>t\<in>set (pre @ ts). n \<le> length t))"
  using assms
proof (induction ts arbitrary: i mx mn pre)
  case Nil
  then show ?case by (auto split: option.splits)
next
  case (Cons t ts)
  let ?mx = "if length t > fst mx then (length t, i) else mx"
  let ?mn = "case mn of None \<Rightarrow> Some (length t, i) | Some (n, _) \<Rightarrow> if length t < n then Some (length t, i) else mn"
  have 1: "scan_tables (i + 1) ?mx ?mn ts = (mx', mn')" using Cons.prems(1) by simp
  have 2: "?mx = (0, 0) \<or> snd ?mx < i + 1 \<and> fst ?mx = length ((pre @ [t]) ! snd ?mx)"
    "\<forall>u\<in>set (pre @ [t]). length u \<le> fst ?mx"
    using Cons.prems(2-4) by (auto simp: nth_append)
  have 3: "case ?mn of None \<Rightarrow> pre @ [t] = []
      | Some (n, k) \<Rightarrow> k < i + 1 \<and> n = length ((pre @ [t]) ! k) \<and> (\<forall>u\<in>set (pre @ [t]). n \<le> length u)"
    using Cons.prems(4,5) by (fastforce simp: nth_append split: option.splits)
  show ?case
    using Cons.IH [OF 1 2 _ 3] Cons.prems(4) by (auto split: option.splits)
qed

text \<open>What the scan finds in a non-empty list of tables.\<close>

lemma scan_correct:
  assumes "scan_tables 0 (0, 0) None ts = ((mx, a), Some (mn, b))"
  shows "b < length ts" "mn = length (ts ! b)" "\<forall>t\<in>set ts. mn \<le> length t \<and> length t \<le> mx"
    "0 < mx \<Longrightarrow> a < length ts \<and> mx = length (ts ! a)"
  using scan_invariant [OF assms, of "[]"] by auto

lemma scan_empty: "scan_tables 0 (0, 0) None ts = (m, None) \<Longrightarrow> ts = []"
  using scan_invariant [of 0 "(0, 0)" None ts m None "[]"] by simp

text \<open>A move takes a player from a table at least two larger than the one that gets it.\<close>

lemma balance_step_moves:
  assumes "balance_step hand av ts rm = Inr (ts', rm')"
  obtains a b p rest where "a < length ts" "b < length ts" "a \<noteq> b" "length (ts ! b) + 2 \<le> length (ts ! a)"
    "take_last (eligible rm hand av) (ts ! a) = Some (p, rest)" "p \<noteq> []"
    "ts' = ts[a := rest, b := ts ! b @ [p]]" "rm' = AList.update p hand rm"
    "\<forall>t\<in>set ts. length (ts ! b) \<le> length t \<and> length t \<le> length (ts ! a)"
proof -
  obtain mx a mn b where sc: "scan_tables 0 (0, 0) None ts = ((mx, a), Some (mn, b))"
    using assms by (auto simp: balance_step_def split: prod.splits option.splits)
  then have gap: "mn + 2 \<le> mx" and "\<exists>p rest. take_last (eligible rm hand av) (ts ! a) = Some (p, rest) \<and> p \<noteq> []
      \<and> ts' = ts[a := rest, b := ts[a := rest] ! b @ [p]] \<and> rm' = AList.update p hand rm"
    using assms by (auto simp: balance_step_def Let_def split: if_splits option.splits)
  then obtain p rest where p: "take_last (eligible rm hand av) (ts ! a) = Some (p, rest)" "p \<noteq> []"
      "ts' = ts[a := rest, b := ts[a := rest] ! b @ [p]]" "rm' = AList.update p hand rm"
    by blast
  note c = scan_correct [OF sc]
  have a: "a < length ts" "mx = length (ts ! a)" using c(4) gap by simp_all
  have ne: "a \<noteq> b" using a(2) c(2) gap by auto
  show ?thesis
    using that [of a b p rest] a c ne gap p by simp
qed

definition squares :: "string list list \<Rightarrow> nat" where
  "squares ts = sum_list (map (\<lambda>t. length t * length t) ts)"

lemma squares_move:
  assumes "a < length ts" "b < length ts" "a \<noteq> b" "length (ts ! b) + 2 \<le> length (ts ! a)"
    and "length (ts ! a) = Suc (length rest)"
  shows "squares (ts[a := rest, b := ts ! b @ [p]]) < squares ts"
proof -
  have upd: "squares (us[i := u]) + length (us ! i) * length (us ! i) = squares us + length u * length u"
    if "i < length us" for us i u
    using that by (induction us arbitrary: i) (auto simp: squares_def split: nat.splits)
  have 1: "squares (ts[a := rest]) + length (ts ! a) * length (ts ! a) = squares ts + length rest * length rest"
    using upd [OF assms(1)] .
  have 2: "squares (ts[a := rest, b := ts ! b @ [p]]) + length (ts ! b) * length (ts ! b)
      = squares (ts[a := rest]) + Suc (length (ts ! b)) * Suc (length (ts ! b))"
    using upd [of b "ts[a := rest]" "ts ! b @ [p]"] assms(2,3) by simp
  let ?x = "length (ts ! b)" and ?y = "length rest"
  have "?x < ?y" using assms(4,5) by simp
  have "Suc ?x * Suc ?x + ?y * ?y < ?x * ?x + Suc ?y * Suc ?y"
    using \<open>?x < ?y\<close> by simp
  then show ?thesis using 1 2 unfolding assms(5) by linarith
qed

text \<open>The loop ends because every move makes the tables more equal.\<close>

function balance_loop ::
  "int \<Rightarrow> int \<Rightarrow> string list list \<Rightarrow> (string \<times> int) list \<Rightarrow> string list list \<times> (string \<times> int) list" where
  "balance_loop currentHand avoidWithin result recentlyMoved =
     (case balance_step currentHand avoidWithin result recentlyMoved of
        Inl r \<Rightarrow> r
      | Inr (result', recentlyMoved') \<Rightarrow> balance_loop currentHand avoidWithin result' recentlyMoved')"
  by auto
termination
proof (relation "measure (\<lambda>(_, _, ts, _). squares ts)", goal_cases)
  case (2 hand av ts rm x ts' rm')
  from 2(1) [symmetric] 2(2) have "balance_step hand av ts rm = Inr (ts', rm')" by simp
  then show ?case
    by (rule balance_step_moves) (auto dest!: take_last_Some intro!: squares_move)
qed simp

declare balance_loop.simps [simp del]

text \<open>\<open>balanceTables\<close>: the tables, and the map of recent moves it has updated in place.\<close>

definition balanceTables ::
  "string list list \<Rightarrow> (string \<times> int) list \<Rightarrow> int \<Rightarrow> int \<Rightarrow> string list list \<times> (string \<times> int) list" where
  "balanceTables tables recentlyMoved currentHand avoidWithin =
     balance_loop currentHand avoidWithin tables recentlyMoved"

subsection \<open>Correctness\<close>

definition level :: "string list list \<Rightarrow> bool" where
  "level ts \<longleftrightarrow> (\<forall>t\<in>set ts. \<forall>u\<in>set ts. length t \<le> length u + 1)"

text \<open>Names are not empty and nobody sits at two tables.\<close>

definition proper_tables :: "string list list \<Rightarrow> bool" where
  "proper_tables ts \<longleftrightarrow> distinct (concat ts) \<and> [] \<notin> set (concat ts)"

lemma mset_concat_update:
  "i < length ts \<Longrightarrow> mset (concat (ts[i := t])) + mset (ts ! i) = mset (concat ts) + mset t"
  by (induction ts arbitrary: i) (auto simp: ac_simps split: nat.splits)

lemma balance_step_players:
  assumes "balance_step hand av ts rm = Inr (ts', rm')"
  shows "length ts' = length ts" "mset (concat ts') = mset (concat ts)" "proper_tables ts \<Longrightarrow> proper_tables ts'"
proof -
  obtain a b p rest where m: "a < length ts" "b < length ts" "a \<noteq> b"
    "take_last (eligible rm hand av) (ts ! a) = Some (p, rest)" "ts' = ts[a := rest, b := ts ! b @ [p]]"
    using assms by (rule balance_step_moves)
  have a: "mset (concat (ts[a := rest])) + mset (ts ! a) = mset (concat ts) + mset rest"
    using mset_concat_update [OF m(1)] .
  have b: "mset (concat ts') + mset (ts ! b) = mset (concat (ts[a := rest])) + mset (ts ! b @ [p])"
    using mset_concat_update [of b "ts[a := rest]" "ts ! b @ [p]"] m(2,3,5) by simp
  show "length ts' = length ts" using m(5) by simp
  show ms: "mset (concat ts') = mset (concat ts)"
    using a b take_last_Some [OF m(4)] by simp
  then have "set (concat ts') = set (concat ts)" by (rule mset_eq_setD)
  then show "proper_tables ts'" if "proper_tables ts"
    using that mset_eq_imp_distinct_iff [OF ms] unfolding proper_tables_def by blast
qed

text \<open>Where the loop stops.\<close>

lemma balance_step_stops:
  assumes "balance_step hand av ts rm = Inl r" "proper_tables ts"
  shows "r = (ts, rm)"
    "level ts \<or> (\<exists>t\<in>set ts. (\<forall>u\<in>set ts. length u \<le> length t) \<and> (\<exists>u\<in>set ts. length u + 2 \<le> length t)
        \<and> (\<forall>p\<in>set t. \<not> eligible rm hand av p))"
proof -
  obtain mx a mn where sc: "scan_tables 0 (0, 0) None ts = ((mx, a), mn)" by (metis surj_pair)
  have "r = (ts, rm) \<and> (level ts \<or> (\<exists>t\<in>set ts. (\<forall>u\<in>set ts. length u \<le> length t) \<and> (\<exists>u\<in>set ts. length u + 2 \<le> length t)
        \<and> (\<forall>p\<in>set t. \<not> eligible rm hand av p)))"
  proof (cases mn)
    case None
    then show ?thesis
      using assms(1) sc scan_empty [of ts] by (auto simp: balance_step_def level_def)
  next
    case (Some m)
    obtain n b where m: "m = (n, b)" by fastforce
    note c = scan_correct [OF sc [unfolded Some m]]
    show ?thesis
    proof (cases "int mx - int n \<le> 1")
      case True
      have "level ts" unfolding level_def
      proof (intro ballI)
        fix t u assume "t \<in> set ts" "u \<in> set ts"
        then have "length t \<le> mx" "n \<le> length u" using c(3) by blast+
        then show "length t \<le> length u + 1" using True by linarith
      qed
      then show ?thesis using assms(1) True sc by (simp add: balance_step_def Some m)
    next
      case False
      then have a: "a < length ts" "mx = length (ts ! a)" and gap: "n + 2 \<le> mx" using c(4) by auto
      show ?thesis
      proof (cases "take_last (eligible rm hand av) (ts ! a)")
        case None
        then have "\<forall>p\<in>set (ts ! a). \<not> eligible rm hand av p" by (simp add: take_last_None)
        moreover have "ts ! a \<in> set ts" "ts ! b \<in> set ts" using a(1) c(1) by simp_all
        moreover have "r = (ts, rm)"
          using assms(1) False None sc by (simp add: balance_step_def Some m)
        ultimately show ?thesis using c(2,3) a(2) gap by auto
      next
        case S: (Some q)
        obtain p rest where q: "q = (p, rest)" by fastforce
        have "p \<in> set (ts ! a)" using take_last_Some [OF S [unfolded q]] by (metis mset_eq_setD set_mset_add_mset_insert insertI1 set_mset_mset)
        then have "p \<in> set (concat ts)" using a(1) by auto
        then have "p \<noteq> []" using assms(2) by (auto simp: proper_tables_def)
        then show ?thesis using assms(1) False S sc by (simp add: balance_step_def Some m q Let_def)
      qed
    qed
  qed
  then show "r = (ts, rm)"
    "level ts \<or> (\<exists>t\<in>set ts. (\<forall>u\<in>set ts. length u \<le> length t) \<and> (\<exists>u\<in>set ts. length u + 2 \<le> length t)
        \<and> (\<forall>p\<in>set t. \<not> eligible rm hand av p))"
    by blast+
qed

lemma balance_loop_correct:
  assumes "balance_loop hand av ts rm = (ts', rm')" "proper_tables ts"
  shows "length ts' = length ts \<and> mset (concat ts') = mset (concat ts)
     \<and> (level ts' \<or> (\<exists>t\<in>set ts'. (\<forall>u\<in>set ts'. length u \<le> length t) \<and> (\<forall>p\<in>set t. \<not> eligible rm' hand av p)))"
  using assms
proof (induction hand av ts rm rule: balance_loop.induct)
  case (1 hand av ts rm)
  show ?case
  proof (cases "balance_step hand av ts rm")
    case (Inl r)
    then show ?thesis
      using balance_step_stops [OF Inl "1.prems"(2)] "1.prems"(1) by (auto simp: balance_loop.simps [of hand av ts rm])
  next
    case (Inr r)
    obtain us rm1 where r: "r = (us, rm1)" by fastforce
    have "balance_loop hand av us rm1 = (ts', rm')"
      using "1.prems"(1) Inr r by (simp add: balance_loop.simps [of hand av ts rm])
    then show ?thesis
      using "1.IH" [OF Inr r [symmetric]] balance_step_players [OF Inr [unfolded r]] "1.prems"(2) by simp
  qed
qed

subsection \<open>Balancing succeeds\<close>

text \<open>A table with a player who may not move is never a table to move from.\<close>

definition settled :: "int \<Rightarrow> int \<Rightarrow> string list list \<Rightarrow> (string \<times> int) list \<Rightarrow> bool" where
  "settled hand av ts rm \<longleftrightarrow>
     (\<forall>t\<in>set ts. (\<exists>p\<in>set t. \<not> eligible rm hand av p) \<longrightarrow> (\<forall>u\<in>set ts. length t \<le> length u + 1))"

lemma eligible_update: "q \<noteq> p \<Longrightarrow> eligible (AList.update p h rm) hand av q = eligible rm hand av q"
  by (simp add: eligible_def update_conv')

lemma distinct_concat_nth:
  "distinct (concat ts) \<Longrightarrow> i < length ts \<Longrightarrow> j < length ts \<Longrightarrow> x \<in> set (ts ! i) \<Longrightarrow> x \<in> set (ts ! j) \<Longrightarrow> i = j"
proof (induction ts arbitrary: i j)
  case (Cons t ts)
  have "x \<notin> set t \<or> x \<notin> set (concat ts)" using Cons.prems(1) by auto
  then show ?case using Cons by (auto simp: nth_Cons split: nat.splits)
qed simp

lemma settled_step:
  assumes "balance_step hand av ts rm = Inr (ts', rm')" "proper_tables ts" "settled hand av ts rm"
  shows "settled hand av ts' rm'"
proof -
  obtain a b p rest where m: "a < length ts" "b < length ts" "a \<noteq> b" "length (ts ! b) + 2 \<le> length (ts ! a)"
    "take_last (eligible rm hand av) (ts ! a) = Some (p, rest)" "ts' = ts[a := rest, b := ts ! b @ [p]]"
    "rm' = AList.update p hand rm"
    "\<forall>t\<in>set ts. length (ts ! b) \<le> length t \<and> length t \<le> length (ts ! a)"
    using assms(1) by (rule balance_step_moves)
  note tl = take_last_Some [OF m(5)]
  have pa: "p \<in> set (ts ! a)" "set rest \<subseteq> set (ts ! a)" and len: "length (ts ! a) = Suc (length rest)"
    using tl by (metis insertI1 mset_eq_setD set_mset_add_mset_insert set_mset_mset, metis mset_eq_setD set_mset_add_mset_insert set_mset_mset subset_insertI, blast)
  have dist: "distinct (ts ! a)" using assms(2) m(1) by (auto simp: proper_tables_def distinct_concat_iff)
  have "p \<notin> set rest"
    using tl dist by (metis distinct.simps(2) mset.simps(2) mset_eq_imp_distinct_iff)
  have at: "(\<exists>q\<in>set (ts ! i). \<not> eligible rm' hand av q) \<Longrightarrow> (\<exists>q\<in>set (ts ! i). \<not> eligible rm hand av q)"
    if "i < length ts" "i \<noteq> a" for i
  proof -
    have "p \<notin> set (ts ! i)"
      using that m(1) pa(1) assms(2) distinct_concat_nth [of ts i a p] by (auto simp: proper_tables_def)
    then have "eligible rm' hand av q = eligible rm hand av q" if "q \<in> set (ts ! i)" for q
      using that m(7) eligible_update [of q p hand rm hand av] by auto
    then show "(\<exists>q\<in>set (ts ! i). \<not> eligible rm' hand av q) \<Longrightarrow> (\<exists>q\<in>set (ts ! i). \<not> eligible rm hand av q)"
      by blast
  qed
  have nth: "ts' ! i = (if i = b then ts ! b @ [p] else if i = a then rest else ts ! i)" if "i < length ts" for i
    using that m(1,2,3,6) by (simp add: nth_list_update)
  have size: "length (ts ! b) + 1 \<le> length (ts' ! i) \<or> length (ts' ! i) = length (ts ! i) \<and> i \<noteq> a" "length (ts ! b) \<le> length (ts' ! i)"
    if "i < length ts" for i
    using that nth [OF that] m(4,8) len by auto
  have "length (ts' ! i) \<le> length (ts' ! j) + 1"
    if i: "i < length ts" and j: "j < length ts" and q: "\<exists>q\<in>set (ts' ! i). \<not> eligible rm' hand av q" for i j
  proof (cases "i = b")
    case True
    then show ?thesis using size(2) [OF j] nth [OF i] by simp
  next
    case ib: False
    show ?thesis
    proof (cases "i = a")
      case True
      then obtain q where "q \<in> set rest" "\<not> eligible rm' hand av q" using q nth [OF i] ib by auto
      then have "\<not> eligible rm hand av q" "q \<in> set (ts ! a)"
        using \<open>p \<notin> set rest\<close> pa(2) m(7) eligible_update [of q p hand rm] by auto
      then have "length (ts ! a) \<le> length (ts ! b) + 1"
        using assms(3) m(1,2) unfolding settled_def by (meson nth_mem)
      then show ?thesis using m(4) by simp
    next
      case ia: False
      have "\<exists>q\<in>set (ts ! i). \<not> eligible rm hand av q" using at [OF i ia] q nth [OF i] ia ib by simp
      then have "\<forall>u\<in>set ts. length (ts ! i) \<le> length u + 1"
        using assms(3) i unfolding settled_def by (meson nth_mem)
      moreover have "length (ts ! i) \<le> length (ts ! a)" using m(8) i by simp
      ultimately show ?thesis using nth [OF i] nth [OF j] ia ib j len by (auto simp: le_Suc_eq)
    qed
  qed
  note close = this
  have len': "length ts' = length ts" using m(6) by simp
  show ?thesis
    unfolding settled_def
  proof (intro ballI impI)
    fix t u assume tu: "t \<in> set ts'" "u \<in> set ts'" "\<exists>p\<in>set t. \<not> eligible rm' hand av p"
    then obtain i j where "i < length ts" "t = ts' ! i" "j < length ts" "u = ts' ! j"
      using len' by (metis in_set_conv_nth)
    then show "length t \<le> length u + 1" using close tu(3) by simp
  qed
qed

lemma settled_level:
  assumes "balance_loop hand av ts rm = (ts', rm')" "proper_tables ts" "settled hand av ts rm"
  shows "level ts'"
  using assms
proof (induction hand av ts rm rule: balance_loop.induct)
  case (1 hand av ts rm)
  show ?case
  proof (cases "balance_step hand av ts rm")
    case (Inl r)
    note st = balance_step_stops [OF Inl "1.prems"(2)]
    have ts: "ts' = ts" using st(1) "1.prems"(1) Inl by (simp add: balance_loop.simps [of hand av ts rm])
    show ?thesis
    proof (rule ccontr)
      assume "\<not> level ts'"
      then obtain t u where t: "t \<in> set ts" "u \<in> set ts" "length u + 2 \<le> length t" "\<forall>p\<in>set t. \<not> eligible rm hand av p"
        using st(2) ts by blast
      then have "t \<noteq> []" by auto
      then obtain p where "p \<in> set t" using hd_in_set by blast
      then have "length t \<le> length u + 1" using "1.prems"(3) t unfolding settled_def by blast
      then show False using t(3) by simp
    qed
  next
    case (Inr r)
    obtain us rm1 where r: "r = (us, rm1)" by fastforce
    have "balance_loop hand av us rm1 = (ts', rm')"
      using "1.prems"(1) Inr r by (simp add: balance_loop.simps [of hand av ts rm])
    then show ?thesis
      using "1.IH" [OF Inr r [symmetric]] balance_step_players(3) [OF Inr [unfolded r]] settled_step [OF Inr [unfolded r]]
        "1.prems"(2,3) by simp
  qed
qed

subsection \<open>Properties\<close>

text \<open>
  C19: For tables with distinct, non-empty player names, \<open>balanceTables\<close> returns as many tables,
  holding the same players, nobody lost, doubled or left out; and either the sizes of any two tables differ
  by at most one, or everybody at a largest table was moved within the last \<open>avoidWithin\<close> hands (so that
  nobody there may be moved).
\<close>

theorem balanceTables_correct:
  assumes "proper_tables tables"
  shows "case balanceTables tables recentlyMoved currentHand avoidWithin of (result, moved) \<Rightarrow>
      length result = length tables \<and> mset (concat result) = mset (concat tables)
      \<and> (level result \<or> (\<exists>t\<in>set result. (\<forall>u\<in>set result. length u \<le> length t)
            \<and> (\<forall>p\<in>set t. \<not> eligible moved currentHand avoidWithin p)))"
  using assms balance_loop_correct [of currentHand avoidWithin tables recentlyMoved]
  by (auto simp: balanceTables_def split: prod.split)

text \<open>
  When nobody was moved recently, balancing always succeeds: the sizes of any two of the resulting
  tables differ by at most one, whatever number of hands a moved player is to be left alone. The moves of the
  balancing itself never stand in its way, since a table is not moved to and then from.
\<close>

theorem balance_fresh:
  assumes "proper_tables tables"
  shows "level (fst (balanceTables tables [] currentHand avoidWithin))"
proof -
  have "settled currentHand avoidWithin tables []" by (simp add: settled_def eligible_def)
  then show ?thesis
    using assms settled_level [of currentHand avoidWithin tables "[]"]
    by (cases "balance_loop currentHand avoidWithin tables []") (simp add: balanceTables_def)
qed

text \<open>Five players at the first of three tables, one of them moved two hands ago.\<close>

definition demo_tables :: "string list list" where
  "demo_tables = [[''a'', ''b'', ''c'', ''d'', ''e''], [''f''], []]"

lemma demo_tables_proper: "proper_tables demo_tables"
  by (simp add: proper_tables_def demo_tables_def)

lemma demo_tables_balanced:
  "balanceTables demo_tables [(''e'', 8)] 10 5 =
     ([[''a'', ''e''], [''f'', ''c''], [''d'', ''b'']], [(''e'', 8), (''d'', 10), (''c'', 10), (''b'', 10)])"
  by code_simp

lemma demo_tables_fresh:
  "fst (balanceTables demo_tables [] 10 5) = [[''a'', ''b''], [''f'', ''d''], [''e'', ''c'']]"
  by code_simp

theorem balanceTables_correct_witness:
  "proper_tables demo_tables
   \<and> balanceTables demo_tables [(''e'', 8)] 10 5 =
      ([[''a'', ''e''], [''f'', ''c''], [''d'', ''b'']], [(''e'', 8), (''d'', 10), (''c'', 10), (''b'', 10)])
   \<and> mset (concat [[''a'', ''e''], [''f'', ''c''], [''d'', ''b'']]) = mset (concat demo_tables)"
  using balanceTables_correct [OF demo_tables_proper, where recentlyMoved = "[(''e'', 8)]" and currentHand = 10 and avoidWithin = 5] demo_tables_proper
  unfolding demo_tables_balanced prod.case by blast

theorem balance_fresh_witness:
  "proper_tables demo_tables \<and> level [[''a'', ''b''], [''f'', ''d''], [''e'', ''c'']]"
  using balance_fresh [OF demo_tables_proper, of 10 5] demo_tables_proper unfolding demo_tables_fresh by simp

end
