(* ===== verification/Prizes.thy ===== *)
theory Prizes
  imports Prelude Doubles
begin

text \<open>
  Prizes of a tournament: \<open>backend/src/tournament/pko.service.ts\<close> (\<open>calculatePrizes\<close>,
  bounties), \<open>backend/src/tournament/rebuy.service.ts\<close>, \<open>shared/utils/icm.ts\<close> and
  \<open>resolveBubbleElimination\<close> of \<open>backend/src/tournament/tournament.service.ts\<close>. Pools and
  prizes are integers; a share is a double, and \<open>fl\<close> rounds what the code computes with shares.
\<close>

section \<open>Rebuys and bounties\<close>

definition canRebuy :: "int \<Rightarrow> int \<Rightarrow> bool" where
  "canRebuy stack threshold \<longleftrightarrow> stack \<le> threshold"

record rebuy =
  rb_stack :: int
  rb_prizeContribution :: int

definition applyRebuy :: "int \<Rightarrow> int \<Rightarrow> int \<Rightarrow> rebuy" where
  "applyRebuy stack chips cost = \<lparr>rb_stack = stack + chips, rb_prizeContribution = cost\<rparr>"

definition splitPrizePool :: "int \<Rightarrow> rat \<Rightarrow> int \<times> int" where
  "splitPrizePool pool bountyPct =
     (let bountyPool = \<lfloor>fl (of_int pool * bountyPct)\<rfloor> in (pool - bountyPool, bountyPool))"

record bounty =
  bo_playerAward :: int
  bo_newBounty :: int

definition pko_settleBounty :: "int \<Rightarrow> bounty" where
  "pko_settleBounty currentBounty =
     (let playerAward = \<lfloor>fl (of_int currentBounty / 2)\<rfloor>
      in \<lparr>bo_playerAward = playerAward, bo_newBounty = currentBounty - playerAward\<rparr>)"

section \<open>Independent Chip Model\<close>

text \<open>\<open>rd\<close> rounds every operation: the code's numbers are doubles (\<open>fl\<close>). All stacks are
  positive (the quotients would not be numbers otherwise).\<close>

definition drop_at :: "nat \<Rightarrow> 'a list \<Rightarrow> 'a list" where
  "drop_at i xs = take i xs @ drop (Suc i) xs"

text \<open>\<open>res[k] += x\<close>.\<close>

definition add_at :: "(rat \<Rightarrow> rat) \<Rightarrow> rat list \<Rightarrow> nat \<Rightarrow> rat \<Rightarrow> rat list" where
  "add_at rd res k x = res[k := rd (res ! k + x)]"

fun icmRecursive :: "(rat \<Rightarrow> rat) \<Rightarrow> rat list \<Rightarrow> rat list \<Rightarrow> rat list" where
  "icmRecursive rd stacks [] = replicate (length stacks) 0"
| "icmRecursive rd stacks (p # ps) =
     (let total = foldl (\<lambda>a b. rd (a + b)) 0 stacks
      in foldl (\<lambda>res i.
           let prob = rd (stacks ! i / total);
               res1 = add_at rd res i (rd (p * prob))
           in if ps = [] then res1
              else let sub = icmRecursive rd (drop_at i stacks) ps
                   in foldl (\<lambda>r j. add_at rd r (if j \<ge> i then j + 1 else j) (rd (sub ! j * prob))) res1
                        [0..<length sub])
         (replicate (length stacks) 0) [0..<length stacks])"

definition icmRaw :: "rat list \<Rightarrow> rat list \<Rightarrow> rat list" where
  "icmRaw stacks prizes = icmRecursive fl stacks prizes"

definition bump :: "int list \<Rightarrow> nat \<Rightarrow> int list" where
  "bump xs k = xs[k := xs ! k + 1]"

text \<open>The rounding: the integer parts, and the chips left over to the largest fractions. More chips
  left over than players is an exception.\<close>

definition icm_round :: "(rat \<Rightarrow> rat) \<Rightarrow> rat list \<Rightarrow> rat \<Rightarrow> int list option" where
  "icm_round rd raw prizeSum =
     (let floored = map floor raw;
          remainder = rd (prizeSum - of_int (sum_list floored));
          fractions = js_sort (\<lambda>a b. snd b - snd a \<le> 0)
            (map (\<lambda>i. (i, rd (raw ! i - of_int (floored ! i)))) [0..<length raw]);
          count = nat \<lceil>remainder\<rceil>
      in if count > length fractions then None
         else Some (foldl bump floored (map fst (take count fractions))))"

definition calculateIcmPayouts :: "rat list \<Rightarrow> rat list \<Rightarrow> int list option" where
  "calculateIcmPayouts stacks prizes =
     icm_round fl (icmRaw stacks prizes) (foldl (\<lambda>a b. fl (a + b)) 0 prizes)"

section \<open>Prizes\<close>

record prize_options =
  po_bountyPct :: "rat option"
  po_satelliteSeatCost :: "int option"
  po_icm :: bool
  po_stacks :: "rat list option"

record prize_result =
  pr_prizes :: "int list"
  pr_bountyPool :: "int option"
  pr_seats :: "int option"
  pr_remainder :: int

text \<open>The loop that hands out the remainder. Without prizes it counts down and changes nothing.\<close>

fun distribute :: "nat \<Rightarrow> nat \<Rightarrow> int list \<Rightarrow> int list" where
  "distribute 0 i prizes = prizes"
| "distribute (Suc n) i prizes = distribute n (i + 1) (if prizes = [] then [] else bump prizes (i mod length prizes))"

definition nonzero :: "'a::zero option \<Rightarrow> 'a option" where
  "nonzero x = (case x of None \<Rightarrow> None | Some v \<Rightarrow> if v = 0 then None else Some v)"

definition calculatePrizes :: "int \<Rightarrow> rat list \<Rightarrow> prize_options \<Rightarrow> prize_result option" where
  "calculatePrizes prizePool payouts opts =
     (let bountyPool = map_option (\<lambda>pct. \<lfloor>fl (of_int prizePool * pct)\<rfloor>) (nonzero (po_bountyPct opts));
          pool1 = prizePool - (case bountyPool of None \<Rightarrow> 0 | Some b \<Rightarrow> b);
          seats = map_option (\<lambda>cost. \<lfloor>fl (of_int pool1 / of_int cost)\<rfloor>) (nonzero (po_satelliteSeatCost opts));
          pool = (case (seats, po_satelliteSeatCost opts) of (Some s, Some cost) \<Rightarrow> pool1 - s * cost | _ \<Rightarrow> pool1);
          prizes = (case (po_icm opts, po_stacks opts) of
                      (True, Some stacks) \<Rightarrow> calculateIcmPayouts stacks payouts
                    | _ \<Rightarrow> Some (map (\<lambda>p. \<lfloor>fl (of_int pool * p)\<rfloor>) payouts))
      in case prizes of
           None \<Rightarrow> None
         | Some ps \<Rightarrow>
             let remainder = pool - sum_list ps
             in Some \<lparr>pr_prizes = distribute (nat remainder) 0 ps, pr_bountyPool = bountyPool, pr_seats = seats,
                      pr_remainder = (if remainder > 0 then 0 else remainder)\<rparr>)"

section \<open>The bubble\<close>

record bust =
  bu_id :: string
  bu_stack :: int

record bubble_prize =
  bp_id :: string
  bp_prize :: int

definition resolveBubbleElimination :: "bust list \<Rightarrow> int list \<Rightarrow> bubble_prize list" where
  "resolveBubbleElimination busts prizes =
     (let sorted = js_sort (\<lambda>a b. bu_stack b - bu_stack a \<le> 0) busts;
          n = length sorted;
          pot = sum_list (take n prizes);
          base = \<lfloor>fl (of_int pot / of_nat n)\<rfloor>;
          remainder = pot - base * int n
      in map (\<lambda>i. \<lparr>bp_id = bu_id (sorted ! i), bp_prize = base + (if int i < remainder then 1 else 0)\<rparr>) [0..<n])"

section \<open>Integer division in doubles\<close>

lemma round_int [simp]: "round_half_even (of_int k) = k"
  by (simp add: round_half_even_def)

text \<open>Integers of at most 53 bits are doubles.\<close>

lemma fl_int:
  assumes "0 \<le> k" "k < 2 ^ 53"
  shows "fl (of_int k) = of_int k"
proof (cases "k = 0")
  case True
  then show ?thesis by (simp add: fl_def)
next
  case False
  let ?q = "of_int k :: rat" and ?e = "fl_exponent (of_int k)"
  have q: "?q \<noteq> 0" using False by simp
  have "(2::rat) powi ?e \<le> of_int k"
    using fl_exponent_lower [OF q] assms(1) by simp
  also have "\<dots> < 2 powi 53"
  proof -
    have "(of_int k :: rat) < of_int (2 ^ 53)" using assms(2) of_int_less_iff by blast
    then show ?thesis by (simp add: power_int_def)
  qed
  finally have "?e < 53"
    by (rule_tac ccontr) (use power_int_increasing [of 53 ?e "2::rat"] in simp)
  then have i: "?q / 2 powi (?e - 52) = of_int (k * 2 ^ nat (52 - ?e))"
    by (simp add: power_int_diff power_int_def divide_simps flip: power_add)
  have "fl ?q = of_int (round_half_even (?q / 2 powi (?e - 52))) * 2 powi (?e - 52)"
    using q by (simp add: fl_def Let_def)
  also have "\<dots> = (?q / 2 powi (?e - 52)) * 2 powi (?e - 52)"
    unfolding i round_int ..
  also have "\<dots> = ?q" by simp
  finally show ?thesis .
qed

lemma fl_div:
  assumes "0 \<le> a" "a < 2 ^ 53" "0 < n"
  shows "\<lfloor>fl (of_int a / of_nat n)\<rfloor> = a div int n"
proof (cases "a mod int n = 0")
  case True
  then have "a = (a div int n) * int n" by (metis div_mult_mod_eq add_0_right)
  then have "(of_int a :: rat) / of_nat n = of_int (a div int n)"
    using assms(3) by (metis of_nat_0 of_nat_eq_iff less_irrefl nonzero_mult_div_cancel_right of_int_mult of_int_of_nat_eq)
  moreover have "0 \<le> a div int n" "a div int n \<le> a"
    using assms(1,3) zdiv_mono2 [of a 1 "int n"] by (simp_all add: pos_imp_zdiv_nonneg_iff)
  then have "0 \<le> a div int n" "a div int n < 2 ^ 53"
    using assms(2) by linarith+
  ultimately show ?thesis by (simp add: fl_int)
next
  case False
  define k where "k = a div int n"
  define q :: rat where "q = of_int a / of_nat n"
  define d :: rat where "d = 1 / of_nat n"
  have n: "(0::rat) < of_nat n" using assms(3) by simp
  have "a = k * int n + a mod int n" unfolding k_def by (rule div_mult_mod_eq [symmetric])
  moreover have "a mod int n < int n" "0 \<le> a mod int n"
    using assms(3) by (simp_all add: pos_mod_bound pos_mod_sign)
  then have "a mod int n < int n" "0 < a mod int n"
    using False by linarith+
  moreover have "(k + 1) * int n = k * int n + int n" by (simp add: algebra_simps)
  ultimately have "k * int n + 1 \<le> a" "a + 1 \<le> (k + 1) * int n"
    by linarith+
  then have "of_int (k * int n + 1) \<le> (of_int a :: rat)" "(of_int (a + 1) :: rat) \<le> of_int ((k + 1) * int n)"
    by (simp_all only: of_int_le_iff)
  then have le: "of_int (k * int n + 1) / of_nat n \<le> q" "q + d \<le> of_int ((k + 1) * int n) / of_nat n"
    using n by (simp_all only: q_def d_def divide_right_mono less_imp_le add_divide_distrib [symmetric] of_int_add of_int_1)
  have "of_int (k * int n + 1) / of_nat n = of_int k + d" "of_int ((k + 1) * int n) / of_nat n = (of_int k + 1 :: rat)"
    using n by (simp_all add: d_def add_divide_distrib)
  with le have lo: "of_int k + d \<le> q" and hi: "q + d \<le> of_int k + 1" by simp_all
  have "q < d * 2 ^ 53"
  proof -
    have "(of_int a :: rat) < of_int (2 ^ 53)" using assms(2) of_int_less_iff by blast
    then show ?thesis using n by (simp add: q_def d_def divide_simps)
  qed
  moreover have "0 \<le> q" using assms(1) n by (simp add: q_def)
  ultimately have "q / 2 ^ 53 < d" "\<bar>q\<bar> = q" by (simp_all add: divide_simps)
  then have "of_int k \<le> fl q" "fl q < of_int k + 1"
    using fl_bounds [of q] lo hi by linarith+
  then show ?thesis unfolding q_def [symmetric] k_def [symmetric] by (simp add: floor_eq_iff)
qed

section \<open>Handing out the remainder\<close>

lemma length_bump [simp]: "length (bump xs k) = length xs"
  by (simp add: bump_def)

lemma sum_bump: "k < length xs \<Longrightarrow> sum_list (bump xs k) = sum_list xs + 1"
  by (simp add: bump_def sum_list_update_int)

lemma length_distribute [simp]: "length (distribute n i ps) = length ps"
  by (induction n i ps rule: distribute.induct) auto

lemma sum_distribute: "ps \<noteq> [] \<Longrightarrow> sum_list (distribute n i ps) = sum_list ps + int n"
proof (induction n i ps rule: distribute.induct)
  case (2 n i ps)
  have "bump ps (i mod length ps) \<noteq> []" using 2(2) by (metis length_bump length_0_conv)
  then show ?case using 2 by (simp add: sum_bump)
qed simp

text \<open>How often a position is served when the remainder goes round from position \<open>i\<close> on.\<close>

lemma nth_distribute:
  "j < length ps \<Longrightarrow>
   distribute n i ps ! j = ps ! j + int (card {k. i \<le> k \<and> k < i + n \<and> k mod length ps = j})"
proof (induction n i ps rule: distribute.induct)
  case (2 n i ps)
  let ?l = "length ps"
  have ne: "ps \<noteq> []" using 2(2) by auto
  have split: "{k. i \<le> k \<and> k < i + Suc n \<and> k mod ?l = j}
      = (if i mod ?l = j then {i} else {}) \<union> {k. i + 1 \<le> k \<and> k < i + 1 + n \<and> k mod ?l = j}"
    using le_eq_less_or_eq by (auto simp: le_Suc_eq)
  have "finite {k. i + 1 \<le> k \<and> k < i + 1 + n \<and> k mod ?l = j}"
    by (rule finite_subset [of _ "{..<i + 1 + n}"]) auto
  then have "card {k. i \<le> k \<and> k < i + Suc n \<and> k mod ?l = j}
      = (if i mod ?l = j then 1 else 0) + card {k. i + 1 \<le> k \<and> k < i + 1 + n \<and> k mod ?l = j}"
    unfolding split by (subst card_Un_disjoint) auto
  then show ?case
    using 2(1)[of] 2(2) ne by (auto simp: bump_def nth_list_update)
qed simp

section \<open>Rounding the model's payouts\<close>

lemma foldl_bump:
  "distinct ks \<Longrightarrow> \<forall>k\<in>set ks. k < length xs \<Longrightarrow>
   sum_list (foldl bump xs ks) = sum_list xs + int (length ks)
   \<and> (\<forall>j<length xs. foldl bump xs ks ! j = xs ! j + (if j \<in> set ks then 1 else 0))"
proof (induction ks arbitrary: xs)
  case (Cons k ks)
  have "distinct ks" "k \<notin> set ks" "\<forall>j\<in>set ks. j < length (bump xs k)" "k < length xs"
    using Cons.prems by auto
  then show ?case
    using Cons.IH [of "bump xs k"] by (auto simp: sum_bump) (auto simp: bump_def nth_list_update)
qed simp

lemma icm_round_total:
  assumes "icm_round rd raw prizeSum = Some xs"
    and "rd (prizeSum - of_int (sum_list (map floor raw))) = of_int r" "0 \<le> r"
  shows "sum_list xs = sum_list (map floor raw) + r"
    "\<forall>j<length raw. xs ! j = \<lfloor>raw ! j\<rfloor> \<or> xs ! j = \<lfloor>raw ! j\<rfloor> + 1"
proof -
  let ?fs = "js_sort (\<lambda>a b. snd b - snd a \<le> 0)
      (map (\<lambda>i. (i, rd (raw ! i - of_int (map floor raw ! i)))) [0..<length raw])"
  let ?ks = "map fst (take (nat r) ?fs)"
  have xs: "xs = foldl bump (map floor raw) ?ks" and n: "nat r \<le> length raw"
    using assms(1) unfolding icm_round_def Let_def assms(2) by (auto split: if_splits)
  have "mset (map fst ?fs) = mset (map fst (map (\<lambda>i. (i, rd (raw ! i - of_int (map floor raw ! i)))) [0..<length raw]))"
    by (simp only: mset_map mset_js_sort)
  then have ms: "mset (map fst ?fs) = mset [0..<length raw]" by (simp only: map_map comp_def fst_conv map_ident)
  have d: "distinct (map fst ?fs)" using mset_eq_imp_distinct_iff [OF ms] by simp
  have s: "set (map fst ?fs) = {0..<length raw}" using mset_eq_setD [OF ms] by simp
  have ks: "?ks = take (nat r) (map fst ?fs)" by (rule take_map [symmetric])
  have "distinct ?ks" unfolding ks using d by (rule distinct_take)
  moreover have "\<forall>k\<in>set ?ks. k < length (map floor raw)"
  proof
    fix k assume "k \<in> set ?ks"
    then have "k \<in> set (map fst ?fs)" unfolding ks by (rule in_set_takeD)
    then show "k < length (map floor raw)" unfolding s by simp
  qed
  moreover have "length ?ks = nat r" using n by simp
  ultimately show "sum_list xs = sum_list (map floor raw) + r"
    "\<forall>j<length raw. xs ! j = \<lfloor>raw ! j\<rfloor> \<or> xs ! j = \<lfloor>raw ! j\<rfloor> + 1"
    using foldl_bump [of ?ks "map floor raw"] assms(3) unfolding xs by simp_all
qed

section \<open>The expectations\<close>

lemma length_add_at [simp]: "length (add_at rd r k x) = length r"
  by (simp add: add_at_def)

lemma foldl_keeps: "(\<And>r x. x \<in> set xs \<Longrightarrow> P r \<Longrightarrow> P (f r x)) \<Longrightarrow> P r \<Longrightarrow> P (foldl f r xs)"
  by (induction xs arbitrary: r) auto

lemma length_foldl_add [simp]: "length (foldl (\<lambda>r j. add_at rd r (f j) (g j)) r js) = length r"
  by (rule foldl_keeps) auto

lemma icm_length [simp]: "length (icmRecursive rd stacks prizes) = length stacks"
proof (cases prizes)
  case (Cons p ps)
  show ?thesis unfolding Cons icmRecursive.simps Let_def
    by (rule foldl_keeps) auto
qed simp

text \<open>No expectation is negative.\<close>

lemma add_at_nonneg:
  assumes "\<forall>x\<in>set r. 0 \<le> x" "0 \<le> y"
  shows "\<forall>x\<in>set (add_at fl r k y). 0 \<le> x"
proof (cases "k < length r")
  case True
  then have "0 \<le> fl (r ! k + y)" using assms by (intro fl_nonneg) simp
  then show ?thesis using assms(1) set_update_subset_insert [of r k "fl (r ! k + y)"] unfolding add_at_def by blast
next
  case False
  then show ?thesis using assms(1) by (simp add: add_at_def list_update_beyond)
qed

lemma icm_nonneg:
  assumes "\<forall>s\<in>set stacks. 0 \<le> s" "\<forall>p\<in>set prizes. 0 \<le> p"
  shows "\<forall>x\<in>set (icmRecursive fl stacks prizes). 0 \<le> x"
  using assms
proof (induction prizes arbitrary: stacks)
  case (Cons p ps)
  let ?total = "foldl (\<lambda>a b. fl (a + b)) 0 stacks"
  have total: "0 \<le> ?total"
    by (rule foldl_keeps) (use Cons.prems(1) in \<open>auto intro!: fl_nonneg\<close>)
  have prob: "0 \<le> fl (stacks ! i / ?total)" if "i < length stacks" for i
    using that Cons.prems(1) total by (auto intro!: fl_nonneg)
  have sub: "0 \<le> icmRecursive fl (drop_at i stacks) ps ! j" if "j < length (drop_at i stacks)" for i j
  proof -
    have "set (drop_at i stacks) \<subseteq> set stacks" by (auto simp: drop_at_def dest: in_set_takeD in_set_dropD)
    then have "\<forall>x\<in>set (icmRecursive fl (drop_at i stacks) ps). 0 \<le> x"
      using Cons.IH [of "drop_at i stacks"] Cons.prems by auto
    then show ?thesis using that by simp
  qed
  show ?case
    unfolding icmRecursive.simps Let_def
  proof (rule foldl_keeps, goal_cases)
    case (1 r i)
    then have i: "i < length stacks" by simp
    have one: "\<forall>x\<in>set (add_at fl r i (fl (p * fl (stacks ! i / ?total)))). 0 \<le> x"
      using 1 prob [OF i] Cons.prems(2) by (intro add_at_nonneg) (auto intro!: fl_nonneg)
    let ?r1 = "add_at fl r i (fl (p * fl (stacks ! i / ?total)))"
    have "\<forall>x\<in>set (foldl (\<lambda>r j. add_at fl r (if i \<le> j then j + 1 else j)
        (fl (icmRecursive fl (drop_at i stacks) ps ! j * fl (stacks ! i / ?total)))) ?r1
        [0..<length (icmRecursive fl (drop_at i stacks) ps)]). 0 \<le> x"
    proof (rule foldl_keeps, goal_cases)
      case (1 r' j)
      then have "j < length (drop_at i stacks)" by simp
      then have "0 \<le> icmRecursive fl (drop_at i stacks) ps ! j * fl (stacks ! i / ?total)"
        by (intro mult_nonneg_nonneg sub prob [OF i])
      then show ?case using 1(2) by (intro add_at_nonneg fl_nonneg)
    qed (use one in blast)
    then show ?case using one by (cases "ps = []") simp_all
  qed simp
qed simp

text \<open>In exact arithmetic the expectations add up to the prizes.\<close>

lemma sum_add_at: "k < length r \<Longrightarrow> sum_list (add_at (\<lambda>x. x) r k x) = sum_list r + x"
proof (induction r arbitrary: k)
  case (Cons a r)
  then show ?case by (cases k) (auto simp: add_at_def)
qed simp

lemma sum_foldl_add:
  "\<forall>j\<in>set js. f j < length r \<Longrightarrow>
   sum_list (foldl (\<lambda>r j. add_at (\<lambda>x. x) r (f j) (g j)) r js) = sum_list r + (\<Sum>j\<leftarrow>js. g j)"
  by (induction js arbitrary: r) (auto simp: sum_add_at)

lemma foldl_sum: "foldl (\<lambda>a b. a + b) x xs = x + sum_list xs" for x :: rat
  by (induction xs arbitrary: x) auto

lemma sum_mult_right: "(\<Sum>j\<leftarrow>js. g j * c) = (\<Sum>j\<leftarrow>js. g j) * c" for c :: rat
  by (induction js) (auto simp: algebra_simps)

lemma map_nth_upt: "map (\<lambda>j. xs ! j) [0..<length xs] = xs"
  by (rule map_nth)

lemma icm_exact:
  assumes "\<forall>s\<in>set stacks. 0 < s" "length prizes \<le> length stacks"
  shows "sum_list (icmRecursive (\<lambda>x. x) stacks prizes) = sum_list prizes"
  using assms
proof (induction prizes arbitrary: stacks)
  case Nil
  then show ?case by (simp add: sum_list_replicate)
next
  case (Cons p ps)
  let ?n = "length stacks" and ?total = "sum_list stacks"
  let ?icm = "icmRecursive (\<lambda>x. x)"
  define body where "body = (\<lambda>res i. let prob = stacks ! i / ?total; res1 = add_at (\<lambda>x. x) res i (p * prob)
     in if ps = [] then res1
        else let sub = ?icm (drop_at i stacks) ps
             in foldl (\<lambda>r j. add_at (\<lambda>x. x) r (if j \<ge> i then j + 1 else j) (sub ! j * prob)) res1 [0..<length sub])"
  have total: "0 < ?total"
    using Cons.prems by (cases stacks) (auto intro!: add_pos_nonneg sum_list_nonneg simp: less_imp_le)
  have len: "length (body r i) = length r" for r i
    unfolding body_def Let_def by simp
  define c where "c = (p + sum_list ps) / ?total"
  have step: "sum_list (body r i) = sum_list r + stacks ! i * c"
    if "i < ?n" "length r = ?n" for r i
  proof (cases "ps = []")
    case True
    then show ?thesis using that by (simp add: body_def sum_add_at c_def)
  next
    case False
    let ?sub = "?icm (drop_at i stacks) ps" and ?prob = "stacks ! i / ?total"
    have d: "length (drop_at i stacks) = ?n - 1" using that by (simp add: drop_at_def)
    have "\<forall>s\<in>set (drop_at i stacks). 0 < s"
      using Cons.prems(1) by (auto simp: drop_at_def dest: in_set_takeD in_set_dropD)
    then have sub: "sum_list ?sub = sum_list ps"
      using Cons.IH [of "drop_at i stacks"] d Cons.prems(2) by simp
    have "sum_list (body r i) = sum_list (add_at (\<lambda>x. x) r i (p * ?prob)) + (\<Sum>j\<leftarrow>[0..<length ?sub]. ?sub ! j * ?prob)"
      using False that d unfolding body_def Let_def
      by (simp only: if_False) (rule sum_foldl_add, auto)
    also have "\<dots> = sum_list r + p * ?prob + sum_list ?sub * ?prob"
      unfolding sum_mult_right map_nth_upt using that by (simp add: sum_add_at)
    finally show ?thesis using sub by (simp add: c_def algebra_simps add_divide_distrib)
  qed
  have "sum_list (foldl body r is) = sum_list r + (\<Sum>i\<leftarrow>is. stacks ! i * c)"
    if "\<forall>i\<in>set is. i < ?n" "length r = ?n" for r "is"
    using that by (induction "is" arbitrary: r) (auto simp: step len)
  then have "sum_list (foldl body (replicate ?n 0) [0..<?n]) = (\<Sum>i\<leftarrow>[0..<?n]. stacks ! i) * c"
    by (simp add: sum_mult_right sum_list_replicate)
  also have "\<dots> = p + sum_list ps" using total by (simp add: map_nth_upt c_def)
  finally have "sum_list (foldl body (replicate ?n 0) [0..<?n]) = p + sum_list ps" .
  moreover have "icmRecursive (\<lambda>x. x) stacks (p # ps) = foldl body (replicate ?n 0) [0..<?n]"
    by (simp only: icmRecursive.simps foldl_sum Let_def body_def add_0_left)
  ultimately show ?case by simp
qed

lemma fl_sum:
  assumes "\<forall>p\<in>set ps. 0 \<le> p" "0 \<le> a" "a + sum_list ps < 2 ^ 53"
  shows "foldl (\<lambda>a b. fl (a + b)) (of_int a) (map of_int ps) = of_int (a + sum_list ps)"
  using assms
proof (induction ps arbitrary: a)
  case (Cons p ps)
  have "0 \<le> sum_list ps" using Cons.prems(1) by (intro sum_list_nonneg) simp
  then have "fl (of_int a + of_int p) = of_int (a + p)"
    using fl_int [of "a + p"] Cons.prems by simp
  then show ?case
    using Cons.IH [of "a + p"] Cons.prems by (simp add: add.assoc)
qed simp

section \<open>Properties\<close>



text \<open>simultaneous eliminations on the bubble. The prizes of the positions are shared without
  losing or adding a chip; everybody gets the same up to one chip, and the odd chips go to the
  largest stacks.\<close>

theorem bubble_conserves:
  assumes "busts \<noteq> []" "\<forall>p\<in>set prizes. 0 \<le> p" "sum_list prizes < 2 ^ 53"
    and "resolveBubbleElimination busts prizes = awards"
  shows "sum_list (map bp_prize awards) = sum_list (take (length busts) prizes)
     \<and> length awards = length busts \<and> sorted_wrt (\<lambda>a b. bp_prize a \<ge> bp_prize b) awards
     \<and> (\<forall>a\<in>set awards. \<forall>b\<in>set awards. bp_prize a \<le> bp_prize b + 1)"
proof -
  define n pot where "n = length busts" and "pot = sum_list (take n prizes)"
  have n: "0 < n" using assms(1) by (simp add: n_def)
  have "sum_list prizes = pot + sum_list (drop n prizes)"
    by (metis append_take_drop_id pot_def sum_list_append)
  moreover have "0 \<le> sum_list (drop n prizes)" "0 \<le> pot"
    using assms(2) by (auto simp: pot_def intro!: sum_list_nonneg dest: in_set_takeD in_set_dropD)
  ultimately have "0 \<le> pot" "pot < 2 ^ 53" using assms(3) by linarith+
  then have base: "\<lfloor>fl (of_int pot / of_nat n)\<rfloor> = pot div int n" by (rule fl_div) (rule n)
  define r where "r = pot mod int n"
  have r: "pot - pot div int n * int n = r" by (simp add: r_def minus_div_mult_eq_mod)
  have bounds: "0 \<le> r" "r < int n" using n by (simp_all add: r_def)
  let ?prize = "\<lambda>i. pot div int n + (if int i < r then 1 else 0)"
  have awards: "map bp_prize awards = map ?prize [0..<n]" "length awards = n"
    using assms(4) base r by (auto simp: resolveBubbleElimination_def Let_def n_def pot_def)
  have "(\<Sum>i\<leftarrow>[0..<m]. ?prize i) = pot div int n * int m + (if int m \<le> r then int m else r)" for m
    using bounds(1) by (induction m) (auto simp: algebra_simps)
  then have "sum_list (map bp_prize awards) = pot div int n * int n + r"
    unfolding awards(1) using bounds by simp
  then have sum: "sum_list (map bp_prize awards) = pot" by (simp add: r_def)
  have "sorted_wrt (\<ge>) (map bp_prize awards)"
    unfolding awards(1) sorted_wrt_map by (rule sorted_wrt_mono_rel [OF _ sorted_wrt_upt]) auto
  then have "sorted_wrt (\<lambda>a b. bp_prize a \<ge> bp_prize b) awards" by (simp add: sorted_wrt_map)
  moreover have "bp_prize a \<in> {pot div int n, pot div int n + 1}" if "a \<in> set awards" for a
  proof -
    have "bp_prize a \<in> set (map ?prize [0..<n])" using that unfolding awards(1) [symmetric] by simp
    then show ?thesis by (auto split: if_splits)
  qed
  note two = this
  have "\<forall>a\<in>set awards. \<forall>b\<in>set awards. bp_prize a \<le> bp_prize b + 1"
  proof (intro ballI)
    fix a b assume "a \<in> set awards" "b \<in> set awards"
    then show "bp_prize a \<le> bp_prize b + 1" using two [of a] two [of b] by auto
  qed
  ultimately show ?thesis using sum awards(2) by (simp add: n_def pot_def)
qed

theorem bubble_conserves_witness:
  "sum_list (map bp_prize (resolveBubbleElimination [\<lparr>bu_id = ''a'', bu_stack = 5\<rparr>, \<lparr>bu_id = ''b'', bu_stack = 9\<rparr>] [70, 31, 10])) = 101"
  using bubble_conserves [of "[\<lparr>bu_id = ''a'', bu_stack = 5\<rparr>, \<lparr>bu_id = ''b'', bu_stack = 9\<rparr>]" "[70, 31, 10]", OF _ _ _ refl]
  by simp

text \<open>chip-model payouts add up. When the integer parts of the expectations do not exceed the
  prizes, the rounded payouts are exactly the prizes, and each is the expectation rounded down, or
  that plus one. (In exact arithmetic the expectations themselves add up to the prizes.)\<close>

theorem icm_payouts_total:
  assumes "calculateIcmPayouts stacks (map of_int ps) = Some xs"
    and "\<forall>s\<in>set stacks. 0 \<le> s" "\<forall>p\<in>set ps. 0 \<le> p" "sum_list ps < 2 ^ 53"
    and "sum_list (map floor (icmRaw stacks (map of_int ps))) \<le> sum_list ps"
  shows "sum_list xs = sum_list ps
     \<and> (\<forall>j<length stacks. xs ! j = \<lfloor>icmRaw stacks (map of_int ps) ! j\<rfloor> \<or> xs ! j = \<lfloor>icmRaw stacks (map of_int ps) ! j\<rfloor> + 1)"
proof -
  let ?raw = "icmRaw stacks (map of_int ps)"
  let ?r = "sum_list ps - sum_list (map floor ?raw)"
  have "0 \<le> sum_list (map floor ?raw)"
    using icm_nonneg [of stacks "map of_int ps"] assms(2,3) by (auto simp: icmRaw_def intro!: sum_list_nonneg)
  then have "0 \<le> ?r" "?r < 2 ^ 53" using assms(4,5) by linarith+
  then have r: "fl (of_int (sum_list ps) - of_int (sum_list (map floor ?raw))) = of_int ?r"
    using fl_int [of ?r] by simp
  have "foldl (\<lambda>a b. fl (a + b)) 0 (map of_int ps) = of_int (sum_list ps)"
    using fl_sum [OF assms(3), of 0] assms(4) by simp
  then have "icm_round fl ?raw (of_int (sum_list ps)) = Some xs"
    using assms(1) by (simp add: calculateIcmPayouts_def)
  note t = icm_round_total [OF this r \<open>0 \<le> ?r\<close>]
  show ?thesis using t by (simp add: icmRaw_def)
qed

lemma fl_small: "fl 0 = 0" "fl 1 = 1" "fl 2 = 2" "fl 4 = 4" "fl (1 / 2) = 1 / 2"
  using fl_int [of 0] fl_int [of 1] fl_int [of 2] fl_int [of 4] by simp_all code_simp

theorem icm_payouts_total_witness:
  "\<exists>xs. calculateIcmPayouts [1, 1] (map of_int [4]) = Some xs \<and> sum_list xs = 4"
proof -
  have raw: "icmRaw [1, 1] (map of_int [4]) = [2, 2]"
    by (simp add: icmRaw_def add_at_def fl_small upt_rec)
  have "calculateIcmPayouts [1, 1] (map of_int [4]) = Some [2, 2]"
    unfolding calculateIcmPayouts_def raw by (simp add: icm_round_def fl_small)
  from icm_payouts_total [OF this] raw this show ?thesis by simp
qed

end
