(* ===== verification/Levels.thy ===== *)
theory Levels
  imports Ledger
begin

text \<open>
  What a tournament keeps in Redis: the current level and the patched blinds of
  \<open>backend/src/tournament/tournament.service.ts\<close> (\<open>handleLevelUp\<close>, \<open>hotPatchLevel\<close>,
  \<open>onModuleInit\<close>) and the recent moves of \<open>backend/src/tournament/redis.util.ts\<close>. The commands
  the tournaments use are a record of functions on an unknown store; the locale \<open>tourney_redis\<close> states
  their documented behaviour, and the in-memory client of \<open>backend/test/utils/mock-redis.ts\<close> obeys it.

  The maps in memory are association lists, looked up with \<open>map_of\<close>. A JavaScript number read from a text
  is an integer or \<open>None\<close>, which stands for \<open>NaN\<close>.
\<close>

section \<open>Commands\<close>

record 'r tourney_client =
  t_get :: "string \<Rightarrow> 'r \<Rightarrow> rtext option"
  t_set :: "string \<Rightarrow> rtext \<Rightarrow> 'r \<Rightarrow> 'r"
  t_del :: "string \<Rightarrow> 'r \<Rightarrow> 'r"
  t_keys :: "string \<Rightarrow> string \<Rightarrow> 'r \<Rightarrow> string list"
  t_hset :: "string \<Rightarrow> (string \<times> string) list \<Rightarrow> 'r \<Rightarrow> 'r"
  t_hgetall :: "string \<Rightarrow> 'r \<Rightarrow> (string \<times> string) list"

text \<open>\<open>KEYS pre*suf\<close>.\<close>

definition glob :: "string \<Rightarrow> string \<Rightarrow> string \<Rightarrow> bool" where
  "glob pre suf k \<longleftrightarrow> length pre + length suf \<le> length k \<and> take (length pre) k = pre
     \<and> drop (length k - length suf) k = suf"

lemma globI: "glob pre suf (pre @ mid @ suf)"
  by (simp add: glob_def)

lemma globE:
  assumes "glob pre suf k"
  obtains mid where "k = pre @ mid @ suf"
proof
  let ?r = "drop (length pre) k"
  have "k = pre @ ?r" using assms by (metis append_take_drop_id glob_def)
  moreover have "?r = take (length ?r - length suf) ?r @ drop (length ?r - length suf) ?r"
    by (rule append_take_drop_id [symmetric])
  moreover have "drop (length ?r - length suf) ?r = suf"
    using assms by (auto simp: glob_def algebra_simps)
  ultimately show "k = pre @ take (length ?r - length suf) ?r @ suf" by metis
qed

locale tourney_redis =
  fixes rd :: "'r tourney_client"
  assumes get_set: "t_get rd k (t_set rd k' v s) = (if k = k' then Some v else t_get rd k s)"
    and get_del: "t_get rd k (t_del rd k' s) = (if k = k' then None else t_get rd k s)"
    and get_hset: "k \<noteq> k' \<Longrightarrow> t_get rd k (t_hset rd k' fs s) = t_get rd k s"
    and hgetall_hset: "t_get rd k s = None \<Longrightarrow>
      map_of (t_hgetall rd k (t_hset rd k fs s)) = map_of (t_hgetall rd k s) ++ map_of (rev fs)"
    and hgetall_hset_other: "k \<noteq> k' \<Longrightarrow> t_hgetall rd k (t_hset rd k' fs s) = t_hgetall rd k s"
    and hgetall_set: "k \<noteq> k' \<Longrightarrow> t_hgetall rd k (t_set rd k' v s) = t_hgetall rd k s"
    and hgetall_del: "t_get rd k s = None \<Longrightarrow> t_hgetall rd k (t_del rd k s) = []"
    and keys_glob: "k \<in> set (t_keys rd pre suf s) \<Longrightarrow> glob pre suf k"
    and keys_all: "t_get rd k s \<noteq> None \<Longrightarrow> glob pre suf k \<Longrightarrow> k \<in> set (t_keys rd pre suf s)"
    and keys_distinct: "distinct (t_keys rd pre suf s)"

section \<open>The in-memory client\<close>

text \<open>The client of the tests with its hashes, a \<open>Map\<close> of \<open>Map\<close>s.\<close>

type_synonym mock_tourney = "mock_redis \<times> (string \<times> (string \<times> string) list) list"

definition mock_hgetall :: "string \<Rightarrow> mock_tourney \<Rightarrow> (string \<times> string) list" where
  "mock_hgetall key m = (case map_of (snd m) key of None \<Rightarrow> [] | Some h \<Rightarrow> h)"

definition mock_hset :: "string \<Rightarrow> (string \<times> string) list \<Rightarrow> mock_tourney \<Rightarrow> mock_tourney" where
  "mock_hset key fs m =
     (fst m, AList.update key (fold (\<lambda>(f, v). AList.update f v) fs (mock_hgetall key m)) (snd m))"

definition mock_tdel :: "string \<Rightarrow> mock_tourney \<Rightarrow> mock_tourney" where
  "mock_tdel key m =
     (if mock_get key (fst m) = None \<and> key \<in> fst ` set (snd m) then (fst m, AList.delete key (snd m))
      else (mock_del key (fst m), snd m))"

definition mock_keys :: "string \<Rightarrow> string \<Rightarrow> mock_tourney \<Rightarrow> string list" where
  "mock_keys pre suf m =
     filter (glob pre suf)
       (remdups (map fst (mr_store (fst m)) @ map fst (snd m) @ map fst (mr_sorted (fst m))))"

definition mock_tourney_client :: "mock_tourney tourney_client" where
  "mock_tourney_client =
     \<lparr>t_get = (\<lambda>k m. mock_get k (fst m)), t_set = (\<lambda>k v m. (snd (mock_set 0 k v None False (fst m)), snd m)),
      t_del = mock_tdel, t_keys = mock_keys, t_hset = mock_hset, t_hgetall = mock_hgetall\<rparr>"

lemma map_of_fold_update:
  "map_of (fold (\<lambda>(f, v). AList.update f v) fs h) = map_of h ++ map_of (rev fs)"
proof (induction fs arbitrary: h)
  case (Cons x fs)
  show ?case
    by (rule ext) (cases x, simp add: Cons.IH update_conv' map_add_def split: option.splits)
qed simp

lemma mock_get_keys: "mock_get k m \<noteq> None \<longleftrightarrow> k \<in> fst ` set (mr_store m)"
  by (simp add: mock_get_def map_of_eq_None_iff)

interpretation mock_tourney: tourney_redis mock_tourney_client
proof (unfold_locales, goal_cases)
  case (1 k k' v s)
  then show ?case by (simp add: mock_tourney_client_def mock_get_def mock_set_def Let_def update_conv')
next
  case (2 k k' s)
  then show ?case
    by (auto simp: mock_tourney_client_def mock_tdel_def mock_get_def mock_del_def delete_conv')
next
  case (4 k s fs)
  then show ?case
    by (simp add: mock_tourney_client_def mock_hset_def mock_hgetall_def [of k "(a, b)" for a b] update_conv' map_of_fold_update)
next
  case (7 k s)
  then show ?case
    by (auto simp: mock_tourney_client_def mock_hgetall_def mock_tdel_def delete_conv' map_of_eq_None_iff split: option.splits)
      (metis map_of_eq_None_iff option.distinct(1))+
next
  case (9 k s pre suf)
  then show ?case
    using mock_get_keys [of k "fst s"] by (auto simp: mock_tourney_client_def mock_keys_def)
qed (auto simp: mock_tourney_client_def mock_hset_def mock_hgetall_def mock_keys_def update_conv')

section \<open>Levels\<close>

text \<open>The service's maps and its store. \<open>redis\<close> is optional: without one the maps live in memory only.\<close>

record 'r level_state =
  currentLevels :: "(string \<times> int option) list"
  patchedLevels :: "(string \<times> (int option \<times> json) list) list"
  lredis :: 'r

definition level_key :: "string \<Rightarrow> string" where
  "level_key tid = ''tournament:'' @ tid @ '':currentLevel''"

definition patch_key :: "string \<Rightarrow> string" where
  "patch_key tid = ''tournament:'' @ tid @ '':patchedLevels''"

definition redis_set :: "'r tourney_client option \<Rightarrow> string \<Rightarrow> rtext \<Rightarrow> 'r level_state \<Rightarrow> 'r level_state" where
  "redis_set rd k v w = (case rd of None \<Rightarrow> w | Some c \<Rightarrow> w\<lparr>lredis := t_set c k v (lredis w)\<rparr>)"

definition handleLevelUp :: "'r tourney_client option \<Rightarrow> string \<Rightarrow> int \<Rightarrow> 'r level_state \<Rightarrow> 'r level_state" where
  "handleLevelUp rd tid level w =
     redis_set rd (level_key tid) (Raw (int_to_string level))
       (w\<lparr>currentLevels := AList.update tid (Some level) (currentLevels w)\<rparr>)"

definition getCurrentLevel :: "string \<Rightarrow> 'r level_state \<Rightarrow> int option" where
  "getCurrentLevel tid w = (case map_of (currentLevels w) tid of None \<Rightarrow> Some 1 | Some l \<Rightarrow> l)"

definition blinds :: "int \<Rightarrow> int \<Rightarrow> json" where
  "blinds smallBlind bigBlind = JObj [(''smallBlind'', JNum smallBlind), (''bigBlind'', JNum bigBlind)]"

definition js_number_text :: "int option \<Rightarrow> string" where
  "js_number_text n = (case n of None \<Rightarrow> ''NaN'' | Some z \<Rightarrow> int_to_string z)"

text \<open>\<open>Object.fromEntries\<close> of the entries of the map; \<open>JSON.stringify\<close> keeps them.\<close>

definition encode_levels :: "(int option \<times> json) list \<Rightarrow> rtext" where
  "encode_levels levels = Json (JObj (map (\<lambda>(lvl, b). (js_number_text lvl, b)) levels))"

definition hotPatchLevel ::
  "'r tourney_client option \<Rightarrow> string \<Rightarrow> int \<Rightarrow> int \<Rightarrow> int \<Rightarrow> 'r level_state \<Rightarrow> 'r level_state" where
  "hotPatchLevel rd tid level smallBlind bigBlind w =
     (let old = (case map_of (patchedLevels w) tid of None \<Rightarrow> [] | Some ls \<Rightarrow> ls);
          levels = AList.update (Some level) (blinds smallBlind bigBlind) old
      in redis_set rd (patch_key tid) (encode_levels levels)
           (w\<lparr>patchedLevels := AList.update tid levels (patchedLevels w)\<rparr>))"

definition getHotPatchedLevel :: "string \<Rightarrow> int \<Rightarrow> 'r level_state \<Rightarrow> json option" where
  "getHotPatchedLevel tid level w =
     (case map_of (patchedLevels w) tid of None \<Rightarrow> None | Some ls \<Rightarrow> map_of ls (Some level))"

section \<open>Start of the service\<close>

text \<open>\<open>Number\<close> of a text the service wrote: a decimal integer; every other text is taken as \<open>NaN\<close>.\<close>

definition js_number :: "string \<Rightarrow> int option" where
  "js_number s = (case parseInt10 s of None \<Rightarrow> None | Some z \<Rightarrow> if int_to_string z = s then Some z else None)"

definition number_of_text :: "rtext \<Rightarrow> int option" where
  "number_of_text t = (case t of Raw s \<Rightarrow> js_number s | Json _ \<Rightarrow> None)"

definition key_tournament :: "string \<Rightarrow> string" where
  "key_tournament key = split_on (CHR '':'') key ! 1"

definition load_level :: "'r tourney_client \<Rightarrow> string \<Rightarrow> 'r level_state \<Rightarrow> 'r level_state" where
  "load_level rd key w =
     (case t_get rd key (lredis w) of
        None \<Rightarrow> w
      | Some v \<Rightarrow> w\<lparr>currentLevels := AList.update (key_tournament key) (number_of_text v) (currentLevels w)\<rparr>)"

text \<open>\<open>Object.entries\<close> of what \<open>JSON.parse\<close> returns; a text that is not JSON throws.\<close>

definition json_entries :: "json \<Rightarrow> (string \<times> json) list" where
  "json_entries j =
     (case j of
        JObj fs \<Rightarrow> fs
      | JStr s \<Rightarrow> map (\<lambda>(i, c). (nat_digits i, JStr [c])) (enumerate 0 s)
      | JNum _ \<Rightarrow> [])"

definition decode_levels :: "json \<Rightarrow> (int option \<times> json) list" where
  "decode_levels j = fold (\<lambda>(lvl, b). AList.update (js_number lvl) b) (json_entries j) []"

definition load_patch :: "'r tourney_client \<Rightarrow> string \<Rightarrow> 'r level_state \<Rightarrow> 'r level_state option" where
  "load_patch rd key w =
     (case t_get rd key (lredis w) of
        None \<Rightarrow> Some w
      | Some (Raw s) \<Rightarrow> if s = [] then Some w else None
      | Some (Json j) \<Rightarrow>
          Some (w\<lparr>patchedLevels := AList.update (key_tournament key) (decode_levels j) (patchedLevels w)\<rparr>))"

fun load_patches :: "'r tourney_client \<Rightarrow> string list \<Rightarrow> 'r level_state \<Rightarrow> 'r level_state option" where
  "load_patches rd [] w = Some w"
| "load_patches rd (k # ks) w = (case load_patch rd k w of None \<Rightarrow> None | Some w' \<Rightarrow> load_patches rd ks w')"

definition onModuleInit :: "'r tourney_client option \<Rightarrow> 'r level_state \<Rightarrow> 'r level_state option" where
  "onModuleInit rd w =
     (case rd of
        None \<Rightarrow> Some w
      | Some c \<Rightarrow>
          let levelKeys = t_keys c ''tournament:'' '':currentLevel'' (lredis w);
              w1 = fold (load_level c) levelKeys w
          in load_patches c (t_keys c ''tournament:'' '':patchedLevels'' (lredis w1)) w1)"

section \<open>Recent moves\<close>

definition moved_key :: "string \<Rightarrow> string" where
  "moved_key tid = ''tourney:'' @ tid @ '':lastMoved''"

definition saveRecentlyMoved ::
  "'r tourney_client option \<Rightarrow> string \<Rightarrow> (string \<times> int) list \<Rightarrow> 'r \<Rightarrow> 'r" where
  "saveRecentlyMoved rd tid recentlyMoved s =
     (case rd of
        None \<Rightarrow> s
      | Some c \<Rightarrow>
          if recentlyMoved = [] then t_del c (moved_key tid) s
          else t_hset c (moved_key tid) (map (\<lambda>(k, v). (k, int_to_string v)) recentlyMoved) s)"

text \<open>How \<open>rebalanceIfNeeded\<close> reads them back.\<close>

fun parse_moves :: "(string \<times> string) list \<Rightarrow> (string \<times> int) list \<Rightarrow> (string \<times> int) list" where
  "parse_moves [] rm = rm"
| "parse_moves ((p, hand) # es) rm =
     parse_moves es (case parseInt10 hand of None \<Rightarrow> rm | Some h \<Rightarrow> AList.update p h rm)"

definition loadRecentlyMoved :: "'r tourney_client \<Rightarrow> string \<Rightarrow> 'r \<Rightarrow> (string \<times> int) list" where
  "loadRecentlyMoved c tid s = parse_moves (t_hgetall c (moved_key tid) s) []"

section \<open>Levels survive a restart\<close>

definition plain_id :: "string \<Rightarrow> bool" where
  "plain_id tid \<longleftrightarrow> CHR '':'' \<notin> set tid"

datatype level_op = LevelUp string int | PatchLevel string int int int

primrec op_tournament :: "level_op \<Rightarrow> string" where
  "op_tournament (LevelUp tid l) = tid"
| "op_tournament (PatchLevel tid l sb bb) = tid"

primrec run_level_op :: "'r tourney_client option \<Rightarrow> level_op \<Rightarrow> 'r level_state \<Rightarrow> 'r level_state" where
  "run_level_op rd (LevelUp tid l) = handleLevelUp rd tid l"
| "run_level_op rd (PatchLevel tid l sb bb) = hotPatchLevel rd tid l sb bb"

lemma key_tournament_key:
  "plain_id tid \<Longrightarrow> key_tournament (level_key tid) = tid" "plain_id tid \<Longrightarrow> key_tournament (patch_key tid) = tid"
proof -
  assume p: "plain_id tid"
  have 1: "split_on (CHR '':'') (''tournament:'' @ r) = ''tournament'' # split_on (CHR '':'') r" for r
    using split_on_sep [of "CHR '':''" "''tournament''" r] by simp
  have 2: "split_on (CHR '':'') (tid @ CHR '':'' # r) = tid # split_on (CHR '':'') r" for r
    using p split_on_sep by (simp add: plain_id_def)
  show "key_tournament (level_key tid) = tid" "key_tournament (patch_key tid) = tid"
    using 2 unfolding key_tournament_def level_key_def patch_key_def 1 by simp_all
qed

lemma js_number_int [simp]: "js_number (int_to_string z) = Some z"
  by (simp add: js_number_def)

lemma keys_apart: "level_key a \<noteq> patch_key b" "level_key a = level_key b \<longleftrightarrow> a = b" "patch_key a = patch_key b \<longleftrightarrow> a = b"
proof -
  have "last (level_key a) \<noteq> last (patch_key b)" by (simp add: level_key_def patch_key_def)
  then show "level_key a \<noteq> patch_key b" by metis
qed (simp_all add: level_key_def patch_key_def)

text \<open>What is in memory is in the store, and nothing else is.\<close>

definition int_levels :: "(int option \<times> json) list \<Rightarrow> bool" where
  "int_levels ls \<longleftrightarrow> distinct (map fst ls) \<and> None \<notin> fst ` set ls"

definition synced :: "'r tourney_client \<Rightarrow> 'r level_state \<Rightarrow> bool" where
  "synced c w \<longleftrightarrow>
     (\<forall>tid. t_get c (level_key tid) (lredis w) = map_option (\<lambda>l. Raw (js_number_text l)) (map_of (currentLevels w) tid)
        \<and> map_of (currentLevels w) tid \<noteq> Some None
        \<and> t_get c (patch_key tid) (lredis w) = map_option encode_levels (map_of (patchedLevels w) tid)
        \<and> (\<forall>ls. map_of (patchedLevels w) tid = Some ls \<longrightarrow> int_levels ls)
        \<and> (\<not> plain_id tid \<longrightarrow> map_of (currentLevels w) tid = None \<and> map_of (patchedLevels w) tid = None))"

lemma int_levels_Nil: "int_levels []"
  by (simp add: int_levels_def)

lemma int_levels_update: "int_levels ls \<Longrightarrow> int_levels (AList.update (Some l) b ls)"
  using dom_update [of "Some l" b ls] by (auto simp: int_levels_def distinct_update)

lemma map_of_rev_distinct: "distinct (map fst xs) \<Longrightarrow> map_of (rev xs) = map_of xs"
  by (subst map_of_inject_set) (simp_all add: rev_map [symmetric])

lemma decode_encode:
  assumes "int_levels ls"
  shows "map_of (fold (\<lambda>(lvl, b). AList.update (js_number lvl) b) (map (\<lambda>(lvl, b). (js_number_text lvl, b)) ls) [])
     = map_of ls"
proof -
  have "fold (\<lambda>(lvl, b). AList.update (js_number lvl) b) (map (\<lambda>(lvl, b). (js_number_text lvl, b)) ls) []
      = fold (\<lambda>(f, v). AList.update f v) ls []"
    unfolding fold_map
    by (rule fold_cong) (use assms in \<open>auto simp: int_levels_def js_number_text_def image_iff split: option.splits\<close>)
  then show ?thesis
    using assms by (simp add: map_of_fold_update int_levels_def map_of_rev_distinct)
qed

lemma fold_load_level:
  assumes "\<forall>k\<in>set ks. \<exists>tid. plain_id tid \<and> k = level_key tid" "plain_id tid"
  shows "lredis (fold (load_level c) ks w) = lredis w \<and> patchedLevels (fold (load_level c) ks w) = patchedLevels w
    \<and> map_of (currentLevels (fold (load_level c) ks w)) tid
       = (if level_key tid \<in> set ks \<and> t_get c (level_key tid) (lredis w) \<noteq> None
          then map_option number_of_text (t_get c (level_key tid) (lredis w)) else map_of (currentLevels w) tid)"
  using assms(1)
proof (induction ks arbitrary: w)
  case (Cons k ks)
  obtain t where t: "plain_id t" "k = level_key t" using Cons.prems by auto
  have 1: "lredis (load_level c k w) = lredis w" "patchedLevels (load_level c k w) = patchedLevels w"
    by (simp_all add: load_level_def split: option.split)
  have 2: "map_of (currentLevels (load_level c k w)) tid
      = (if k = level_key tid \<and> t_get c k (lredis w) \<noteq> None then map_option number_of_text (t_get c k (lredis w))
         else map_of (currentLevels w) tid)"
    using t key_tournament_key(1) [OF t(1)]
    by (auto simp: load_level_def update_conv' keys_apart split: option.split)
  show ?case
    using Cons.IH [of "load_level c k w"] Cons.prems 1 2 by auto
qed simp

lemma load_patches_run:
  assumes "\<forall>k\<in>set ks. \<exists>tid. plain_id tid \<and> k = patch_key tid"
    and "\<forall>k\<in>set ks. \<forall>v. t_get c k (lredis w) = Some v \<longrightarrow> (\<exists>ls. int_levels ls \<and> v = encode_levels ls)"
  shows "\<exists>w'. load_patches c ks w = Some w' \<and> currentLevels w' = currentLevels w \<and>
     (\<forall>tid ls. plain_id tid \<and> int_levels ls \<and> patch_key tid \<in> set ks
         \<and> t_get c (patch_key tid) (lredis w) = Some (encode_levels ls) \<longrightarrow>
       (\<exists>ls'. map_of (patchedLevels w') tid = Some ls' \<and> map_of ls' = map_of ls)) \<and>
     (\<forall>tid. plain_id tid \<and> (patch_key tid \<notin> set ks \<or> t_get c (patch_key tid) (lredis w) = None) \<longrightarrow>
       map_of (patchedLevels w') tid = map_of (patchedLevels w) tid)"
  using assms
proof (induction ks rule: rev_induct)
  case (snoc k ks)
  obtain t where t: "plain_id t" "k = patch_key t" using snoc.prems(1) by auto
  have app: "load_patches c (ks @ [k]) w = Option.bind (load_patches c ks w) (load_patch c k)"
    by (induction ks arbitrary: w) (auto split: option.splits)
  obtain w1 where w1: "load_patches c ks w = Some w1" "currentLevels w1 = currentLevels w"
    "\<And>tid ls. plain_id tid \<Longrightarrow> int_levels ls \<Longrightarrow> patch_key tid \<in> set ks
         \<Longrightarrow> t_get c (patch_key tid) (lredis w) = Some (encode_levels ls) \<Longrightarrow>
       \<exists>ls'. map_of (patchedLevels w1) tid = Some ls' \<and> map_of ls' = map_of ls"
    "\<And>tid. plain_id tid \<Longrightarrow> patch_key tid \<notin> set ks \<or> t_get c (patch_key tid) (lredis w) = None \<Longrightarrow>
       map_of (patchedLevels w1) tid = map_of (patchedLevels w) tid"
    using snoc.IH snoc.prems by (auto simp: Ball_def)
  have red: "lredis w1 = lredis w"
    using w1(1)
    by (induction ks arbitrary: w) (auto simp: load_patch_def split: option.splits rtext.splits if_splits)
  show ?case
  proof (cases "t_get c k (lredis w)")
    case None
    then have "load_patches c (ks @ [k]) w = Some w1"
      using w1(1) red by (simp add: app load_patch_def)
    then show ?thesis
      using w1(2-4) None t by (auto simp: keys_apart)
  next
    case (Some v)
    then obtain ls where ls: "int_levels ls" "v = encode_levels ls" using snoc.prems(2) by auto
    define us where "us = decode_levels (JObj (map (\<lambda>(lvl, b). (js_number_text lvl, b)) ls))"
    have us: "map_of us = map_of ls"
      using decode_encode [OF ls(1)] by (simp add: us_def decode_levels_def json_entries_def)
    have run: "load_patches c (ks @ [k]) w = Some (w1\<lparr>patchedLevels := AList.update t us (patchedLevels w1)\<rparr>)"
      using Some ls red w1(1) key_tournament_key(2) [OF t(1)]
      by (simp add: app load_patch_def encode_levels_def us_def t(2) [symmetric])
    have enc: "map_of ls = map_of ls'" if "encode_levels ls = encode_levels ls'" "int_levels ls'" for ls'
      using that decode_encode [OF ls(1)] decode_encode [OF that(2)] by (simp add: encode_levels_def)
    show ?thesis
      unfolding run using w1(2-4) Some ls t us
      by (auto simp: update_conv' keys_apart dest: enc)
  qed
qed simp

lemma load_level_present:
  "fold (load_level c) ks w = fold (load_level c) (filter (\<lambda>k. t_get c k (lredis w) \<noteq> None) ks) w"
proof (induction ks arbitrary: w)
  case (Cons k ks)
  have "lredis (load_level c k w) = lredis w" by (simp add: load_level_def split: option.split)
  moreover have "t_get c k (lredis w) = None \<Longrightarrow> load_level c k w = w" by (simp add: load_level_def)
  ultimately show ?case using Cons [of "load_level c k w"] by (cases "t_get c k (lredis w)") simp_all
qed simp

lemma load_patches_present:
  "load_patches c ks w = load_patches c (filter (\<lambda>k. t_get c k (lredis w) \<noteq> None) ks) w"
proof (induction ks arbitrary: w)
  case (Cons k ks)
  have "load_patch c k w = Some w1 \<Longrightarrow> lredis w1 = lredis w" for w1
    by (auto simp: load_patch_def split: option.splits rtext.splits if_splits)
  then have 1: "load_patch c k w = Some w1 \<Longrightarrow> load_patches c ks w1
      = load_patches c (filter (\<lambda>k. t_get c k (lredis w) \<noteq> None) ks) w1" for w1
    using Cons [of w1] by simp
  have "t_get c k (lredis w) = None \<Longrightarrow> load_patch c k w = Some w" by (simp add: load_patch_def)
  then show ?case using 1 by (cases "t_get c k (lredis w)"; cases "load_patch c k w") simp_all
qed simp

context tourney_redis
begin

lemma level_keys_plain:
  assumes "synced rd w" "t_get rd k (lredis w) \<noteq> None"
  shows "glob ''tournament:'' '':currentLevel'' k \<Longrightarrow> \<exists>tid. plain_id tid \<and> k = level_key tid"
    "glob ''tournament:'' '':patchedLevels'' k \<Longrightarrow> \<exists>tid. plain_id tid \<and> k = patch_key tid"
proof -
  assume "glob ''tournament:'' '':currentLevel'' k"
  then obtain tid where "k = level_key tid" by (rule globE) (auto simp: level_key_def)
  then show "\<exists>tid. plain_id tid \<and> k = level_key tid" using assms unfolding synced_def by fastforce
next
  assume "glob ''tournament:'' '':patchedLevels'' k"
  then obtain tid where "k = patch_key tid" by (rule globE) (auto simp: patch_key_def)
  then show "\<exists>tid. plain_id tid \<and> k = patch_key tid" using assms unfolding synced_def by fastforce
qed

lemma synced_op:
  assumes "synced rd w" "plain_id (op_tournament x)"
  shows "synced rd (run_level_op (Some rd) x w)"
  using assms
  by (cases x)
    (auto simp: synced_def handleLevelUp_def hotPatchLevel_def redis_set_def get_set keys_apart keys_apart(1) [symmetric]
      update_conv' js_number_text_def int_levels_update int_levels_Nil Let_def split: option.splits)

lemma synced_ops:
  "synced rd w \<Longrightarrow> \<forall>x\<in>set xs. plain_id (op_tournament x) \<Longrightarrow> synced rd (fold (run_level_op (Some rd)) xs w)"
  by (induction xs arbitrary: w) (auto intro: synced_op)

text \<open>A service that starts with empty maps finds the levels the last one left.\<close>

lemma restart_reads:
  assumes "synced rd w" "plain_id tid"
  defines "fresh \<equiv> w\<lparr>currentLevels := [], patchedLevels := []\<rparr>"
  shows "\<exists>w'. onModuleInit (Some rd) fresh = Some w' \<and> getCurrentLevel tid w' = getCurrentLevel tid w
     \<and> (\<forall>level. getHotPatchedLevel tid level w' = getHotPatchedLevel tid level w)"
proof -
  let ?present = "filter (\<lambda>k. t_get rd k (lredis w) \<noteq> None)"
  let ?lk = "?present (t_keys rd ''tournament:'' '':currentLevel'' (lredis w))"
  let ?pk = "?present (t_keys rd ''tournament:'' '':patchedLevels'' (lredis w))"
  let ?w1 = "fold (load_level rd) ?lk fresh"
  have lred: "lredis fresh = lredis w" by (simp add: fresh_def)
  have sync: "t_get rd (level_key tid) (lredis w) = map_option (\<lambda>l. Raw (js_number_text l)) (map_of (currentLevels w) tid)"
    "map_of (currentLevels w) tid \<noteq> Some None"
    "t_get rd (patch_key tid) (lredis w) = map_option encode_levels (map_of (patchedLevels w) tid)"
    "\<And>ls. map_of (patchedLevels w) tid = Some ls \<Longrightarrow> int_levels ls"
    using assms(1) by (auto simp: synced_def)
  have lk: "\<forall>k\<in>set ?lk. \<exists>tid. plain_id tid \<and> k = level_key tid"
    and pk: "\<forall>k\<in>set ?pk. \<exists>tid. plain_id tid \<and> k = patch_key tid"
    using level_keys_plain [OF assms(1)] by (auto dest: keys_glob)
  have lk_mem: "level_key tid \<in> set ?lk" if "t_get rd (level_key tid) (lredis w) \<noteq> None"
    using that keys_all [OF that, of "''tournament:''" "'':currentLevel''"] globI [of "''tournament:''" "'':currentLevel''" tid] by (simp add: level_key_def)
  have pk_mem: "patch_key tid \<in> set ?pk" if "t_get rd (patch_key tid) (lredis w) \<noteq> None"
    using that keys_all [OF that, of "''tournament:''" "'':patchedLevels''"] globI [of "''tournament:''" "'':patchedLevels''" tid] by (simp add: patch_key_def)
  note fl = fold_load_level [OF lk assms(2), of rd fresh, unfolded lred]
  have "\<forall>k\<in>set ?pk. \<forall>v. t_get rd k (lredis ?w1) = Some v \<longrightarrow> (\<exists>ls. int_levels ls \<and> v = encode_levels ls)"
    using pk assms(1) fl unfolding synced_def by fastforce
  note pats = load_patches_run [OF pk this]
  obtain w' where w': "load_patches rd ?pk ?w1 = Some w'" "currentLevels w' = currentLevels ?w1"
    "\<And>ls. int_levels ls \<Longrightarrow> patch_key tid \<in> set ?pk \<Longrightarrow> t_get rd (patch_key tid) (lredis w) = Some (encode_levels ls) \<Longrightarrow>
       \<exists>ls'. map_of (patchedLevels w') tid = Some ls' \<and> map_of ls' = map_of ls"
    "t_get rd (patch_key tid) (lredis w) = None \<Longrightarrow> map_of (patchedLevels w') tid = None"
    using pats assms(2) fl unfolding fresh_def by auto
  have run: "onModuleInit (Some rd) fresh = Some w'"
    using w'(1) fl load_level_present [of rd _ fresh, unfolded lred] load_patches_present [of rd _ ?w1]
    by (simp only: onModuleInit_def Let_def lred option.case)
  have "map_of (currentLevels w') tid = map_of (currentLevels w) tid"
    using w'(2) fl lk_mem sync(1,2) by (cases "map_of (currentLevels w) tid") (auto simp: fresh_def number_of_text_def js_number_text_def)
  moreover have "getHotPatchedLevel tid level w' = getHotPatchedLevel tid level w" for level
  proof (cases "map_of (patchedLevels w) tid")
    case None
    then show ?thesis using w'(4) sync(3) by (simp add: getHotPatchedLevel_def)
  next
    case (Some ls)
    then have "\<exists>ls'. map_of (patchedLevels w') tid = Some ls' \<and> map_of ls' = map_of ls"
      using w'(3) [OF sync(4)] pk_mem sync(3) by simp
    then show ?thesis using Some by (auto simp: getHotPatchedLevel_def)
  qed
  ultimately show ?thesis using run by (auto simp: getCurrentLevel_def)
qed

end

text \<open>The state of a service started on a store without tournaments.\<close>

definition started :: "'r \<Rightarrow> 'r level_state" where
  "started s = \<lparr>currentLevels = [], patchedLevels = [], lredis = s\<rparr>"

lemma started_fresh: "w\<lparr>currentLevels := [], patchedLevels := []\<rparr> = started (lredis w)"
  by (cases w) (simp add: started_def)

text \<open>
  The levels of a tournament survive a restart. After any sequence of level-ups and blind patches of
  tournaments whose identifiers hold no colon, on a store that held no tournament before, a new
  process that runs \<open>onModuleInit\<close> on the same store starts without an exception and answers
  \<open>getCurrentLevel\<close> and \<open>getHotPatchedLevel\<close> for every such tournament and every level as the old one did.
\<close>

theorem levels_survive_restart:
  assumes "tourney_redis rd" "\<forall>tid. t_get rd (level_key tid) s = None \<and> t_get rd (patch_key tid) s = None"
    and "\<forall>x\<in>set ops. plain_id (op_tournament x)" "plain_id tid"
  shows "let w = fold (run_level_op (Some rd)) ops (started s)
     in \<exists>w'. onModuleInit (Some rd) (started (lredis w)) = Some w' \<and> getCurrentLevel tid w' = getCurrentLevel tid w
          \<and> (\<forall>level. getHotPatchedLevel tid level w' = getHotPatchedLevel tid level w)"
proof -
  have "synced rd (started s)" using assms(2) by (simp add: synced_def started_def)
  from tourney_redis.synced_ops [OF assms(1) this assms(3)]
  show ?thesis
    using tourney_redis.restart_reads [OF assms(1) _ assms(4)] by (simp add: Let_def started_fresh)
qed

definition empty_tourney :: mock_tourney where
  "empty_tourney = (empty_mock, [])"

definition demo_levels :: "level_op list" where
  "demo_levels = [LevelUp ''t1'' 2, PatchLevel ''t1'' 3 75 150, LevelUp ''t2'' 5, LevelUp ''t1'' 3]"

theorem levels_survive_restart_witness:
  "\<exists>w'. onModuleInit (Some mock_tourney_client)
       (started (lredis (fold (run_level_op (Some mock_tourney_client)) demo_levels (started empty_tourney)))) = Some w'
     \<and> getCurrentLevel ''t1'' w' = Some 3 \<and> getHotPatchedLevel ''t1'' 3 w' = Some (blinds 75 150)"
proof -
  let ?w = "fold (run_level_op (Some mock_tourney_client)) demo_levels (started empty_tourney)"
  have "getCurrentLevel ''t1'' ?w = Some 3" "getHotPatchedLevel ''t1'' 3 ?w = Some (blinds 75 150)"
    by (simp_all add: demo_levels_def started_def getCurrentLevel_def getHotPatchedLevel_def handleLevelUp_def
        hotPatchLevel_def redis_set_def Let_def)
  moreover have "\<forall>tid. t_get mock_tourney_client (level_key tid) empty_tourney = None
      \<and> t_get mock_tourney_client (patch_key tid) empty_tourney = None"
    by (simp add: mock_tourney_client_def empty_tourney_def mock_get_def empty_mock_def)
  moreover have "\<forall>x\<in>set demo_levels. plain_id (op_tournament x)" "plain_id ''t1''"
    by (simp_all add: demo_levels_def plain_id_def)
  ultimately show ?thesis
    using levels_survive_restart [OF mock_tourney.tourney_redis_axioms, of empty_tourney demo_levels "''t1''"]
    by (auto simp: Let_def)
qed

end
