(* ===== verification/Tournament.thy ===== *)
theory Tournament
  imports Levels Balancing Prizes
begin

text \<open>
  The tournament service of \<open>backend/src/tournament/tournament.service.ts\<close> (life cycle, registration,
  balancing, bubble), the balancer of \<open>backend/src/tournament/table-balancer.service.ts\<close> and the
  scheduler of \<open>backend/src/tournament/scheduler.service.ts\<close>.

  The state holds the rows of the repositories in order of insertion, the wallet, the service's own set
  of announced bubbles, the balancer's map of recent moves, the Redis store and what was sent out:
  events and requests to the rooms. What is not in the repository is in \<open>tourney_env\<close>: fresh identifiers, the
  clock, whether the wallet, the transaction manager and Redis were injected. \<open>seatTableLoaded\<close> says
  whether the object mapper fills in \<open>seat.table\<close> of the seats it loads through \<open>relations: ['seats',
  'seats.user']\<close>; a relation that is not loaded is \<open>undefined\<close>. A seat is saved if its user exists.
\<close>

section \<open>Rows, environment, state\<close>

datatype tournament_state = REG_OPEN | RUNNING | PAUSED | FINISHED | CANCELLED

record tournament =
  tn_id :: string
  tn_title :: string
  tn_gameType :: string
  tn_buyIn :: int
  tn_currency :: string
  tn_prizePool :: int
  tn_maxPlayers :: int
  tn_state :: tournament_state
  tn_registrationOpen :: "nat option"
  tn_registrationClose :: "nat option"

record seat =
  st_id :: string
  st_table :: string
  st_user :: string
  st_position :: nat
  st_lastMovedHand :: int

record table_row =
  tb_id :: string
  tb_tournament :: "string option"

datatype tourney_event =
    WalletReserveEv string int string string
  | WalletRollbackEv string int string string
  | TourneyNotification string string
  | TournamentCancel string
  | TournamentBubble string nat

record ('s, 'r) tworld =
  tournaments :: "tournament list"
  ttables :: "table_row list"
  seats :: "seat list"
  users :: "string list"
  tbank :: "'s wallet"
  bubbleAnnounced :: "string list"
  localRecentlyMoved :: "(string \<times> (string \<times> int) list) list"
  tstore :: 'r
  tevents :: "tourney_event list"
  roomRequests :: "(string \<times> string) list"
  seatIds :: nat

record ('s, 'r) tourney_env =
  te_wallet :: "'s wallet_env option"
  te_redis :: "'r tourney_client option"
  te_transaction :: bool
  te_now :: nat
  te_uuid :: "nat \<Rightarrow> string"
  seatTableLoaded :: bool
  defaultAvoidWithin :: int

datatype tourney_error =
    TournamentNotFound string
  | InvalidTransition tournament_state tournament_state
  | RegistrationClosed
  | NoTables string
  | SeatNotFound string
  | SeatNotSaved
  | TypeErrorUndefined
  | WalletFailure wallet_error

type_synonym ('s, 'r, 'a) tnact = "(('s, 'r) tworld, tourney_error, 'a) act"

definition on_wallet :: "('s, 'a) wact \<Rightarrow> ('s, 'r, 'a) tnact" where
  "on_wallet m t =
     (case m (tbank t) of
        (Inl e, b) \<Rightarrow> (Inl (WalletFailure e), t\<lparr>tbank := b\<rparr>)
      | (Inr x, b) \<Rightarrow> (Inr x, t\<lparr>tbank := b\<rparr>))"

definition temit :: "tourney_event \<Rightarrow> ('s, 'r, unit) tnact" where
  "temit e = upd (\<lambda>t. t\<lparr>tevents := tevents t @ [e]\<rparr>)"

section \<open>Life cycle\<close>

definition getEntity :: "string \<Rightarrow> ('s, 'r, tournament) tnact" where
  "getEntity i =
     bnd (gets (\<lambda>t. List.find (\<lambda>x. tn_id x = i) (tournaments t))) (orFail (TournamentNotFound i))"

definition save_tournament :: "tournament \<Rightarrow> ('s, 'r, unit) tnact" where
  "save_tournament x =
     upd (\<lambda>t. t\<lparr>tournaments := map (\<lambda>y. if tn_id y = tn_id x then x else y) (tournaments t)\<rparr>)"

definition setState :: "string \<Rightarrow> tournament_state \<Rightarrow> ('s, 'r, unit) tnact" where
  "setState i st = bnd (getEntity i) (\<lambda>x. save_tournament (x\<lparr>tn_state := st\<rparr>))"

definition openRegistration :: "string \<Rightarrow> ('s, 'r, unit) tnact" where
  "openRegistration i = setState i REG_OPEN"

text \<open>The shape \<open>start\<close>, \<open>pause\<close>, \<open>resume\<close> and \<open>finish\<close> share.\<close>

definition transition :: "tournament_state list \<Rightarrow> tournament_state \<Rightarrow> string \<Rightarrow> ('s, 'r, tournament) tnact" where
  "transition froms st i =
     bnd (getEntity i) (\<lambda>x.
     seq (raise_if (tn_state x \<notin> set froms) (InvalidTransition (tn_state x) st))
    (seq (save_tournament (x\<lparr>tn_state := st\<rparr>)) (ret (x\<lparr>tn_state := st\<rparr>))))"

definition start :: "string \<Rightarrow> ('s, 'r, unit) tnact" where
  "start i = bnd (transition [REG_OPEN] RUNNING i) (\<lambda>_. ret ())"

definition pause :: "string \<Rightarrow> ('s, 'r, unit) tnact" where
  "pause i = bnd (transition [RUNNING] PAUSED i) (\<lambda>_. ret ())"

definition resume :: "string \<Rightarrow> ('s, 'r, unit) tnact" where
  "resume i = bnd (transition [PAUSED] RUNNING i) (\<lambda>_. ret ())"

definition finish :: "string \<Rightarrow> ('s, 'r, unit) tnact" where
  "finish i = bnd (transition [RUNNING, PAUSED] FINISHED i) (\<lambda>_. ret ())"

definition startBreak :: "string \<Rightarrow> ('s, 'r, unit) tnact" where
  "startBreak i = pause i"

definition endBreak :: "string \<Rightarrow> ('s, 'r, unit) tnact" where
  "endBreak i = resume i"

definition tables_of :: "string \<Rightarrow> ('s, 'r) tworld \<Rightarrow> table_row list" where
  "tables_of i t = filter (\<lambda>b. tb_tournament b = Some i) (ttables t)"

definition seats_at :: "string \<Rightarrow> ('s, 'r) tworld \<Rightarrow> seat list" where
  "seats_at b t = filter (\<lambda>s. st_table s = b) (seats t)"

definition tournament_seats :: "string \<Rightarrow> ('s, 'r) tworld \<Rightarrow> seat list" where
  "tournament_seats i t = filter (\<lambda>s. st_table s \<in> tb_id ` set (tables_of i t)) (seats t)"

definition refund_seat :: "'s wallet_env \<Rightarrow> tournament \<Rightarrow> seat \<Rightarrow> ('s, 'r, unit) tnact" where
  "refund_seat we x s =
     seq (on_wallet (wallet_rollback we (st_user s) (tn_buyIn x) (tn_id x) (tn_currency x) None))
    (seq (temit (WalletRollbackEv (st_user s) (tn_buyIn x) (tn_id x) (tn_currency x)))
         (temit (TourneyNotification (st_user s) (''Tournament '' @ tn_title x @ '' cancelled''))))"

definition cancel :: "('s, 'r) tourney_env \<Rightarrow> string \<Rightarrow> ('s, 'r, unit) tnact" where
  "cancel env i =
     bnd (transition [REG_OPEN, RUNNING, PAUSED] CANCELLED i) (\<lambda>x.
     seq (case te_wallet env of
            None \<Rightarrow> ret ()
          | Some we \<Rightarrow> bnd (gets (tournament_seats i)) (each (refund_seat we x)))
         (temit (TournamentCancel i)))"

section \<open>Registration\<close>

datatype seat_action = Join | Withdraw

text \<open>The first table with the fewest seats.\<close>

fun smallest_table :: "('s, 'r) tworld \<Rightarrow> nat \<Rightarrow> table_row \<Rightarrow> table_row list \<Rightarrow> table_row" where
  "smallest_table t mn target [] = target"
| "smallest_table t mn target (b # bs) =
     (if length (seats_at (tb_id b) t) < mn then smallest_table t (length (seats_at (tb_id b) t)) b bs
      else smallest_table t mn target bs)"

definition save_seat :: "seat \<Rightarrow> ('s, 'r, unit) tnact" where
  "save_seat s =
     bnd (gets users) (\<lambda>us.
     seq (raise_if (st_user s \<notin> set us) SeatNotSaved) (upd (\<lambda>t. t\<lparr>seats := seats t @ [s]\<rparr>)))"

definition join_seat ::
  "('s, 'r) tourney_env \<Rightarrow> tournament \<Rightarrow> string \<Rightarrow> string \<Rightarrow> ('s, 'r, seat option \<times> tourney_event option) tnact" where
  "join_seat env x userId currency =
     bnd (case te_wallet env of
            None \<Rightarrow> ret None
          | Some we \<Rightarrow> seq (on_wallet (wallet_reserve we userId (tn_buyIn x) (tn_id x) currency None))
                           (ret (Some (WalletReserveEv userId (tn_buyIn x) (tn_id x) currency)))) (\<lambda>walletEvent.
     bnd (gets (tables_of (tn_id x))) (\<lambda>tables.
     case tables of
       [] \<Rightarrow> raise (NoTables (tn_id x))
     | b # _ \<Rightarrow>
         bnd (gets (\<lambda>t. smallest_table t (length (seats_at (tb_id b) t)) b tables)) (\<lambda>target.
         bnd (gets (\<lambda>t. \<lparr>st_id = te_uuid env (seatIds t), st_table = tb_id target, st_user = userId,
                st_position = length (seats_at (tb_id target) t), st_lastMovedHand = 0\<rparr>)) (\<lambda>s.
         seq (upd (\<lambda>t. t\<lparr>seatIds := seatIds t + 1\<rparr>))
        (seq (on_error (save_seat s)
               (case te_wallet env of
                  None \<Rightarrow> ret ()
                | Some we \<Rightarrow> on_wallet (wallet_rollback we userId (tn_buyIn x) (tn_id x) currency None)))
             (ret (Some s, walletEvent)))))))"

definition withdraw_seat ::
  "('s, 'r) tourney_env \<Rightarrow> tournament \<Rightarrow> string \<Rightarrow> string \<Rightarrow> ('s, 'r, seat option \<times> tourney_event option) tnact" where
  "withdraw_seat env x userId currency =
     bnd (gets (\<lambda>t. List.find (\<lambda>s. st_user s = userId) (tournament_seats (tn_id x) t))) (\<lambda>existing.
     case existing of
       None \<Rightarrow> ret (None, None)
     | Some s \<Rightarrow>
         bnd (case te_wallet env of
                None \<Rightarrow> ret None
              | Some we \<Rightarrow> seq (on_wallet (wallet_rollback we userId (tn_buyIn x) (tn_id x) currency None))
                               (ret (Some (WalletRollbackEv userId (tn_buyIn x) (tn_id x) currency)))) (\<lambda>walletEvent.
         seq (upd (\<lambda>t. t\<lparr>seats := filter (\<lambda>y. st_id y \<noteq> st_id s) (seats t)\<rparr>))
             (ret (None, walletEvent))))"

definition manageSeat ::
  "('s, 'r) tourney_env \<Rightarrow> seat_action \<Rightarrow> string \<Rightarrow> string \<Rightarrow> string \<Rightarrow> ('s, 'r, seat option \<times> tourney_event option) tnact" where
  "manageSeat env action i userId currency =
     bnd (getEntity i) (\<lambda>x.
     case action of Join \<Rightarrow> join_seat env x userId currency | Withdraw \<Rightarrow> withdraw_seat env x userId currency)"

text \<open>The transaction covers what goes through its manager, the seats; the wallet has its own.\<close>

definition seat_transaction :: "('s, 'r, 'a) tnact \<Rightarrow> ('s, 'r, 'a) tnact" where
  "seat_transaction m t = (case m t of (Inl e, t') \<Rightarrow> (Inl e, t'\<lparr>seats := seats t\<rparr>) | r \<Rightarrow> r)"

definition assignSeat ::
  "('s, 'r) tourney_env \<Rightarrow> string \<Rightarrow> string \<Rightarrow> seat_action \<Rightarrow> ('s, 'r, seat option \<times> tourney_event option) tnact" where
  "assignSeat env i userId action =
     bnd (getEntity i) (\<lambda>x.
     if te_transaction env then seat_transaction (manageSeat env action i userId (tn_currency x))
     else manageSeat env action i userId (tn_currency x))"

definition emit_some :: "tourney_event option \<Rightarrow> ('s, 'r, unit) tnact" where
  "emit_some e = (case e of None \<Rightarrow> ret () | Some ev \<Rightarrow> temit ev)"

definition registration_open :: "nat \<Rightarrow> tournament \<Rightarrow> bool" where
  "registration_open now x \<longleftrightarrow>
     tn_state x = REG_OPEN
     \<or> tn_state x = RUNNING \<and> (case tn_registrationClose x of None \<Rightarrow> False | Some c \<Rightarrow> now < c)"

definition join :: "('s, 'r) tourney_env \<Rightarrow> string \<Rightarrow> string \<Rightarrow> ('s, 'r, seat option) tnact" where
  "join env i userId =
     bnd (getEntity i) (\<lambda>x.
     seq (raise_if (\<not> registration_open (te_now env) x) RegistrationClosed)
    (bnd (assignSeat env i userId Join) (\<lambda>(s, walletEvent).
     seq (emit_some walletEvent) (ret s))))"

definition withdraw_player :: "('s, 'r) tourney_env \<Rightarrow> string \<Rightarrow> string \<Rightarrow> ('s, 'r, unit) tnact" where
  "withdraw_player env i userId =
     bnd (assignSeat env i userId Withdraw) (\<lambda>(_, walletEvent). emit_some walletEvent)"

section \<open>Rebuys, bounties, timeouts\<close>

text \<open>A flag of the feature-flag service is \<open>None\<close> when it was never set.\<close>

definition tourney_canRebuy :: "(string \<Rightarrow> bool option) \<Rightarrow> int \<Rightarrow> int \<Rightarrow> bool" where
  "tourney_canRebuy flag stk threshold =
     (if flag ''rebuy'' = Some False then False else canRebuy stk threshold)"

definition tourney_settleBounty ::
  "(string \<Rightarrow> bool option) \<Rightarrow> (string \<Rightarrow> string \<Rightarrow> bool option) \<Rightarrow> int \<Rightarrow> string option \<Rightarrow> bounty" where
  "tourney_settleBounty flag tourneyFlag currentBounty tournamentId =
     (if flag ''settlement'' = Some False
         \<or> (case tournamentId of None \<Rightarrow> False | Some i \<Rightarrow> i \<noteq> [] \<and> tourneyFlag i ''settlement'' = Some False)
      then \<lparr>bo_playerAward = 0, bo_newBounty = currentBounty\<rparr>
      else pko_settleBounty currentBounty)"

definition autoFoldOnTimeout :: "string \<Rightarrow> ('s, 'r, string) tnact" where
  "autoFoldOnTimeout seatId =
     bnd (gets (\<lambda>t. List.find (\<lambda>s. st_id s = seatId) (seats t))) (\<lambda>found.
     bnd (orFail (SeatNotFound seatId) found) (\<lambda>s.
     seq (upd (\<lambda>t. t\<lparr>roomRequests := roomRequests t @ [(st_table s, st_user s)]\<rparr>)) (ret ''fold'')))"

section \<open>Balancing a tournament\<close>

text \<open>
  The loop over the balanced tables. The seats are objects shared between the loop and the list that is
  saved: a move changes the seat in place. \<open>moved\<close> collects the seats to save by their identifiers.
\<close>

definition move_seat ::
  "int \<Rightarrow> string \<times> string \<Rightarrow> seat list \<times> (string \<times> int) list \<times> string list
   \<Rightarrow> seat list \<times> (string \<times> int) list \<times> string list" where
  "move_seat currentHand = (\<lambda>(tableId, playerId) (held, recentlyMoved, moved).
     case List.find (\<lambda>s. st_user s = playerId) held of
       None \<Rightarrow> (held, recentlyMoved, moved)
     | Some s \<Rightarrow>
         if st_table s = tableId then (held, recentlyMoved, moved)
         else (map (\<lambda>y. if st_id y = st_id s then s\<lparr>st_table := tableId, st_lastMovedHand := currentHand\<rparr> else y) held,
               AList.update playerId currentHand recentlyMoved, moved @ [st_id s]))"

definition targets :: "table_row list \<Rightarrow> string list list \<Rightarrow> (string \<times> string) list" where
  "targets tables balanced = concat (map (\<lambda>(b, ps). map (Pair (tb_id b)) ps) (zip tables balanced))"

definition save_seats :: "seat list \<Rightarrow> string list \<Rightarrow> seat list \<Rightarrow> seat list" where
  "save_seats held moved rows =
     map (\<lambda>r. if st_id r \<in> set moved
              then (case List.find (\<lambda>s. st_id s = st_id r) held of None \<Rightarrow> r | Some s \<Rightarrow> s) else r) rows"

text \<open>The result is the caller's map of recent moves, which the method updates in place.\<close>

definition balanceTournament ::
  "('s, 'r) tourney_env \<Rightarrow> string \<Rightarrow> int \<Rightarrow> int \<Rightarrow> (string \<times> int) list \<Rightarrow> ('s, 'r, (string \<times> int) list) tnact" where
  "balanceTournament env i currentHand avoidWithin recentlyMoved =
     bnd (gets (tables_of i)) (\<lambda>tables.
     bnd (gets (\<lambda>t. map (\<lambda>b. seats_at (tb_id b) t) tables)) (\<lambda>loaded.
     case balanceTables (map (map st_user) loaded) recentlyMoved currentHand avoidWithin of
       (balanced, rm1) \<Rightarrow>
         seq (raise_if (concat balanced \<noteq> [] \<and> \<not> seatTableLoaded env) TypeErrorUndefined)
        (case fold (move_seat currentHand) (targets tables balanced) (concat loaded, rm1, []) of
           (held, rm2, moved) \<Rightarrow>
             seq (upd (\<lambda>t. t\<lparr>seats := save_seats held moved (seats t)\<rparr>))
            (seq (upd (\<lambda>t. t\<lparr>tstore := saveRecentlyMoved (te_redis env) i rm2 (tstore t)\<rparr>))
                 (ret rm2)))))"

definition detectBubble :: "string \<Rightarrow> nat \<Rightarrow> nat \<Rightarrow> ('s, 'r, bool) tnact" where
  "detectBubble i remainingPlayers payoutThreshold =
     bnd (gets bubbleAnnounced) (\<lambda>announced.
     if remainingPlayers \<noteq> payoutThreshold \<or> i \<in> set announced then ret False
     else seq (upd (\<lambda>t. t\<lparr>bubbleAnnounced := announced @ [i]\<rparr>))
         (seq (temit (TournamentBubble i remainingPlayers)) (ret True)))"

definition merge_seat_moves :: "seat list \<Rightarrow> (string \<times> int) list \<Rightarrow> (string \<times> int) list" where
  "merge_seat_moves =
     fold (\<lambda>s rm. if st_lastMovedHand s \<noteq> 0 then AList.update (st_user s) (st_lastMovedHand s) rm else rm)"

definition rebalanceIfNeeded ::
  "('s, 'r) tourney_env \<Rightarrow> string \<Rightarrow> int \<Rightarrow> int option \<Rightarrow> nat option \<Rightarrow> ('s, 'r, bool) tnact" where
  "rebalanceIfNeeded env i currentHand avoidWithin payoutThreshold =
     bnd (gets (tables_of i)) (\<lambda>tables.
     if tables = [] then ret False
     else bnd (gets (\<lambda>t. map (\<lambda>b. seats_at (tb_id b) t) tables)) (\<lambda>loaded.
          let counts = map length loaded
          in seq (case payoutThreshold of
                    None \<Rightarrow> ret ()
                  | Some threshold \<Rightarrow> bnd (detectBubble i (sum_list counts) threshold) (\<lambda>_. ret ()))
            (if Max (set counts) - Min (set counts) > 1
             then bnd (gets (\<lambda>t. case te_redis env of
                          Some c \<Rightarrow> loadRecentlyMoved c i (tstore t)
                        | None \<Rightarrow> (case map_of (localRecentlyMoved t) i of None \<Rightarrow> [] | Some rm \<Rightarrow> rm))) (\<lambda>rm.
                  bnd (balanceTournament env i currentHand
                         (case avoidWithin of None \<Rightarrow> defaultAvoidWithin env | Some n \<Rightarrow> n)
                         (merge_seat_moves (concat loaded) rm)) (\<lambda>rm'.
                  seq (upd (\<lambda>t. case te_redis env of
                              Some c \<Rightarrow> t\<lparr>tstore := saveRecentlyMoved (Some c) i rm' (tstore t)\<rparr>
                            | None \<Rightarrow> t\<lparr>localRecentlyMoved := AList.update i rm' (localRecentlyMoved t)\<rparr>))
                      (ret True)))
             else ret False)))"

section \<open>Scheduling\<close>

record job =
  jb_queue :: string
  jb_name :: string
  jb_tournament :: string
  jb_level :: "int option"
  jb_delay :: int

definition plain_job :: "string \<Rightarrow> string \<Rightarrow> string \<Rightarrow> int \<Rightarrow> job" where
  "plain_job queue name i delay =
     \<lparr>jb_queue = queue, jb_name = name, jb_tournament = i, jb_level = None, jb_delay = delay\<rparr>"

text \<open>The jobs each method adds, in order; \<open>now\<close> is the clock when it runs.\<close>

definition scheduleRegistration :: "int \<Rightarrow> string \<Rightarrow> int \<Rightarrow> int \<Rightarrow> job list" where
  "scheduleRegistration now i opening closing =
     [plain_job ''registration'' ''open'' i (opening - now), plain_job ''registration'' ''close'' i (closing - now)]"

definition scheduleLateRegistration :: "int \<Rightarrow> string \<Rightarrow> int \<Rightarrow> job list" where
  "scheduleLateRegistration now i closing = [plain_job ''late-registration'' ''close'' i (closing - now)]"

definition scheduleBreak :: "int \<Rightarrow> string \<Rightarrow> int \<Rightarrow> int \<Rightarrow> job list" where
  "scheduleBreak now i starts durationMs =
     [plain_job ''break'' ''start'' i (starts - now), plain_job ''break'' ''end'' i (starts - now + durationMs)]"

fun schedule_levels :: "int \<Rightarrow> string \<Rightarrow> (int \<times> int) list \<Rightarrow> int \<Rightarrow> job list" where
  "schedule_levels now i [] current = []"
| "schedule_levels now i ((lvl, durationMinutes) # structure) current =
     (if lvl = 1 then [] else [(plain_job ''level-up'' ''level'' i (current - now))\<lparr>jb_level := Some lvl\<rparr>])
     @ schedule_levels now i structure (current + durationMinutes * 60000)"

definition scheduleLevelUps :: "int \<Rightarrow> string \<Rightarrow> (int \<times> int) list \<Rightarrow> int \<Rightarrow> job list" where
  "scheduleLevelUps now i structure starts = schedule_levels now i structure starts"

definition scheduleStart :: "int \<Rightarrow> string \<Rightarrow> int \<Rightarrow> job list" where
  "scheduleStart now i starts = [plain_job ''tournament-start'' ''start'' i (starts - now)]"

definition scheduleTournament ::
  "int \<Rightarrow> string \<Rightarrow> int \<times> int \<Rightarrow> (int \<times> int) list \<Rightarrow> (int \<times> int) list \<Rightarrow> int \<Rightarrow> job list" where
  "scheduleTournament now i registration structure breaks starts =
     scheduleRegistration now i (fst registration) (snd registration)
     @ concat (map (\<lambda>(s, d). scheduleBreak now i s d) breaks)
     @ scheduleLevelUps now i structure starts"

end
