(* ===== verification/TournamentProps.thy ===== *)
theory TournamentProps
  imports Tournament WalletLocks
begin

text \<open>
  The properties of the tournament service. Its operations are the constructors of \<open>tourney_op\<close> and
  \<open>tourney_exec\<close> runs one, whether it returns or throws; a run is a list of operations.
\<close>

section \<open>Operations\<close>

datatype tourney_op =
    TOpen string
  | TStart string
  | TPause string
  | TResume string
  | TFinish string
  | TCancel string
  | TStartBreak string
  | TEndBreak string
  | TJoin string string
  | TWithdraw string string
  | TBalance string int int "(string \<times> int) list"
  | TRebalance string int "int option" "nat option"
  | TBubble string nat nat
  | TAutoFold string

fun tourney_exec :: "('s, 'r) tourney_env \<Rightarrow> tourney_op \<Rightarrow> ('s, 'r) tworld \<Rightarrow> ('s, 'r) tworld" where
  "tourney_exec env (TOpen i) w = snd (openRegistration i w)"
| "tourney_exec env (TStart i) w = snd (start i w)"
| "tourney_exec env (TPause i) w = snd (pause i w)"
| "tourney_exec env (TResume i) w = snd (resume i w)"
| "tourney_exec env (TFinish i) w = snd (finish i w)"
| "tourney_exec env (TCancel i) w = snd (cancel env i w)"
| "tourney_exec env (TStartBreak i) w = snd (startBreak i w)"
| "tourney_exec env (TEndBreak i) w = snd (endBreak i w)"
| "tourney_exec env (TJoin i u) w = snd (join env i u w)"
| "tourney_exec env (TWithdraw i u) w = snd (withdraw_player env i u w)"
| "tourney_exec env (TBalance i hand av rm) w = snd (balanceTournament env i hand av rm w)"
| "tourney_exec env (TRebalance i hand av thr) w = snd (rebalanceIfNeeded env i hand av thr w)"
| "tourney_exec env (TBubble i n thr) w = snd (detectBubble i n thr w)"
| "tourney_exec env (TAutoFold s) w = snd (autoFoldOnTimeout s w)"

abbreviation tourney_run :: "('s, 'r) tourney_env \<Rightarrow> tourney_op list \<Rightarrow> ('s, 'r) tworld \<Rightarrow> ('s, 'r) tworld" where
  "tourney_run env ops w \<equiv> fold (tourney_exec env) ops w"

section \<open>Frames\<close>

text \<open>An observation of the state that the wallet, the seats, the moves, the requests and the identifiers do
  not touch.\<close>

locale tourney_frame =
  fixes P :: "('s, 'r) tworld \<Rightarrow> bool"
  assumes frame: "P (w\<lparr>tbank := b\<rparr>) = P w" "P (w\<lparr>seats := ss\<rparr>) = P w" "P (w\<lparr>seatIds := n\<rparr>) = P w"
      "P (w\<lparr>tstore := s\<rparr>) = P w" "P (w\<lparr>localRecentlyMoved := rm\<rparr>) = P w" "P (w\<lparr>roomRequests := rq\<rparr>) = P w"
begin

lemma keeps_on_wallet: "keeps P (on_wallet m)"
  by (auto simp: keeps_def on_wallet_def frame split: prod.splits sum.splits)

lemma keeps_seat_transaction: "keeps P m \<Longrightarrow> keeps P (seat_transaction m)"
  by (auto simp: keeps_def seat_transaction_def frame split: prod.splits sum.splits)

lemma keeps_getEntity: "keeps P (getEntity i)"
  unfolding getEntity_def by (intro keeps_intros)

lemma keeps_balance: "keeps P (balanceTournament env i hand av rm)"
  unfolding balanceTournament_def
  by (auto intro!: keeps_intros keeps_upd split: prod.splits simp: frame)

lemma keeps_autoFold: "keeps P (autoFoldOnTimeout s)"
  unfolding autoFoldOnTimeout_def by (intro keeps_intros keeps_upd) (simp add: frame)

end

lemma wp_on_wallet [wp_simps]:
  "wp (on_wallet m) Q E w = wp m (\<lambda>x b. Q x (w\<lparr>tbank := b\<rparr>)) (\<lambda>b. E (w\<lparr>tbank := b\<rparr>)) (tbank w)"
  by (simp add: wp_def on_wallet_def split: prod.splits sum.splits)

lemma wp_seat_transaction [wp_simps]:
  "wp (seat_transaction m) Q E w = wp m Q (\<lambda>w'. E (w'\<lparr>seats := seats w\<rparr>)) w"
  by (simp add: wp_def seat_transaction_def split: prod.splits sum.splits)

lemma wp_temit [wp_simps]: "wp (temit e) Q E w = Q () (w\<lparr>tevents := tevents w @ [e]\<rparr>)"
  by (simp add: temit_def wp_simps)

lemma wp_True [wp_simps]: "wp m (\<lambda>_ _. True) (\<lambda>_. True) w"
  by (simp add: wp_def split: prod.split sum.split)

lemma wp_conj: "wp m Q E w \<Longrightarrow> wp m Q' E' w \<Longrightarrow> wp m (\<lambda>x s. Q x s \<and> Q' x s) (\<lambda>s. E s \<and> E' s) w"
  by (simp add: wp_def split: prod.splits sum.splits)

text \<open>Registration announces wallet events only.\<close>

lemma wp_assignSeat_event:
  "wp (assignSeat env i u a) (\<lambda>r w'. \<forall>j n. snd r \<noteq> Some (TournamentBubble j n)) (\<lambda>_. True) w"
  by (cases a; cases "te_wallet env")
    (simp_all add: assignSeat_def manageSeat_def join_seat_def withdraw_seat_def getEntity_def save_seat_def wp_simps
      split: option.split list.split)

text \<open>One that announcements other than the bubble's do not touch either.\<close>

locale event_frame = tourney_frame P for P :: "('s, 'r) tworld \<Rightarrow> bool" +
  assumes events: "(\<And>j n. e \<noteq> TournamentBubble j n) \<Longrightarrow> P (w\<lparr>tevents := tevents w @ [e]\<rparr>) = P w"
begin

lemma keeps_temit: "(\<And>j n. e \<noteq> TournamentBubble j n) \<Longrightarrow> keeps P (temit e)"
  unfolding temit_def by (intro keeps_upd) (simp add: events)

lemma keeps_refunds: "keeps P (each (refund_seat we x) ss)"
  unfolding refund_seat_def by (intro keeps_intros keeps_on_wallet keeps_temit) simp_all

lemma keeps_save_seat: "keeps P (save_seat s)"
  unfolding save_seat_def by (intro keeps_intros keeps_upd) (simp add: frame)

lemma keeps_join_seat: "keeps P (join_seat env x u cur)"
  unfolding join_seat_def
  by (intro keeps_intros keeps_on_wallet) (auto intro!: keeps_intros keeps_on_wallet keeps_save_seat keeps_upd simp: frame split: list.split)

lemma keeps_withdraw_seat: "keeps P (withdraw_seat env x u cur)"
  unfolding withdraw_seat_def by (intro keeps_intros keeps_on_wallet keeps_upd) (simp add: frame)

lemma keeps_assignSeat: "keeps P (assignSeat env i u a)"
  unfolding assignSeat_def manageSeat_def
  by (cases a) (auto intro!: keeps_intros keeps_getEntity keeps_seat_transaction keeps_join_seat keeps_withdraw_seat)

lemma keeps_emit_some: "(\<And>j n. ev \<noteq> Some (TournamentBubble j n)) \<Longrightarrow> keeps P (emit_some ev)"
  unfolding emit_some_def by (intro keeps_intros keeps_temit) auto

lemma keeps_assigned:
  assumes "\<And>s ev. (\<And>j n. ev \<noteq> Some (TournamentBubble j n)) \<Longrightarrow> keeps P (k (s, ev))"
  shows "keeps P (bnd (assignSeat env i u a) k)"
  unfolding keeps_wp
proof (intro allI impI)
  fix w assume "P w"
  then have "wp (assignSeat env i u a) (\<lambda>r w'. P w' \<and> (\<forall>j n. snd r \<noteq> Some (TournamentBubble j n))) (\<lambda>w'. P w' \<and> True) w"
    by (intro wp_conj wp_assignSeat_event wp_keeps keeps_assignSeat)
  then show "wp (bnd (assignSeat env i u a) k) (\<lambda>_. P) P w"
    unfolding wp_bnd by (rule wp_mono) (auto intro!: wp_keeps assms)
qed

lemma keeps_join: "keeps P (join env i u)"
  unfolding join_def
  by (auto intro!: keeps_intros keeps_getEntity keeps_assigned keeps_emit_some)

lemma keeps_withdraw_player: "keeps P (withdraw_player env i u)"
  unfolding withdraw_player_def by (auto intro!: keeps_assigned keeps_emit_some)

lemma keeps_rebalance:
  assumes "\<And>n thr. keeps P (detectBubble i n thr)"
  shows "keeps P (rebalanceIfNeeded env i hand av thr)"
  unfolding rebalanceIfNeeded_def Let_def
  by (auto intro!: keeps_intros assms keeps_balance keeps_upd simp: frame split: option.split)

end

section \<open>The life cycle\<close>

text \<open>The state of a tournament, and the transitions the service means to allow.\<close>

definition state_of :: "string \<Rightarrow> ('s, 'r) tworld \<Rightarrow> tournament_state option" where
  "state_of i w = map_option tn_state (List.find (\<lambda>x. tn_id x = i) (tournaments w))"

inductive lifecycle :: "tournament_state \<Rightarrow> tournament_state \<Rightarrow> bool" where
  started: "lifecycle REG_OPEN RUNNING"
| paused: "lifecycle RUNNING PAUSED"
| resumed: "lifecycle PAUSED RUNNING"
| finished: "s \<in> {RUNNING, PAUSED} \<Longrightarrow> lifecycle s FINISHED"
| cancelled: "s \<in> {REG_OPEN, RUNNING, PAUSED} \<Longrightarrow> lifecycle s CANCELLED"

inductive_cases lifecycle_finishedE: "lifecycle FINISHED s"
inductive_cases lifecycle_cancelledE: "lifecycle CANCELLED s"

lemma lifecycle_final: "lifecycle\<^sup>*\<^sup>* s s' \<Longrightarrow> s \<in> {FINISHED, CANCELLED} \<Longrightarrow> s' = s"
  by (induction rule: converse_rtranclp_induct) (auto elim: lifecycle_finishedE lifecycle_cancelledE)

lemma find_saved:
  "tn_id x = k \<Longrightarrow> List.find (\<lambda>x. tn_id x = i) (map (\<lambda>y. if tn_id y = k then x else y) ts)
     = (if i = k \<and> i \<in> tn_id ` set ts then Some x else List.find (\<lambda>x. tn_id x = i) ts)"
  by (induction ts) auto

lemma find_entity: "List.find (\<lambda>x. tn_id x = i) ts = Some x \<Longrightarrow> tn_id x = i \<and> i \<in> tn_id ` set ts"
  by (auto simp: find_Some_iff)

text \<open>A guarded transition keeps every state or takes one of its edges.\<close>

lemma wp_transition:
  "wp (transition froms st i)
     (\<lambda>_ w'. \<exists>s\<in>set froms. state_of i w = Some s \<and> (\<forall>j. state_of j w' = (if j = i then Some st else state_of j w)))
     (\<lambda>w'. w' = w) w"
  by (auto simp: transition_def getEntity_def save_tournament_def wp_simps state_of_def find_saved
      dest: find_entity split: option.split)

lemma transition_edges:
  assumes "\<And>s. s \<in> set froms \<Longrightarrow> lifecycle s st" "\<And>ts x. keeps (\<lambda>w. tournaments w = ts) (k x)" "state_of j w = Some s"
  shows "\<exists>s'. state_of j (snd (bnd (transition froms st i) k w)) = Some s' \<and> lifecycle\<^sup>*\<^sup>* s s'"
proof -
  let ?Q = "\<lambda>w'. \<exists>s'. state_of j w' = Some s' \<and> lifecycle\<^sup>*\<^sup>* s s'"
  have k: "wp (k x) (\<lambda>_. ?Q) ?Q v" if "?Q v" for x v
    by (rule wp_mono [OF wp_keeps [OF assms(2) refl]]) (use that in \<open>simp_all add: state_of_def\<close>)
  have q: "?Q v" if "s1 \<in> set froms" "state_of i w = Some s1"
    "\<forall>j. state_of j v = (if j = i then Some st else state_of j w)" for v s1
    using that assms(1,3) by (cases "j = i") auto
  have "wp (bnd (transition froms st i) k) (\<lambda>_. ?Q) ?Q w"
    unfolding wp_bnd
    by (rule wp_mono [OF wp_transition]) (use q k assms(3) in \<open>blast+\<close>)
  then show ?thesis by (rule wp_snd)
qed

interpretation rows_frame: event_frame "\<lambda>w. tournaments w = ts" for ts
  by unfold_locales simp_all

lemma keeps_rows_bubble: "keeps (\<lambda>w. tournaments w = ts) (detectBubble i n thr)"
  unfolding detectBubble_def temit_def by (intro keeps_intros keeps_upd) simp_all

lemma other_ops_keep_rows:
  assumes "\<forall>j. x \<notin> {TOpen j, TStart j, TPause j, TResume j, TFinish j, TCancel j, TStartBreak j, TEndBreak j}"
  shows "tournaments (tourney_exec env x w) = tournaments w"
proof -
  have k: "tournaments (snd (m w)) = tournaments w"
    if "\<And>ts. keeps (\<lambda>w. tournaments w = ts) m" for m :: "('a, 'b, 'c) tnact"
    using that [of "tournaments w"] by (simp add: keeps_def)
  show ?thesis
    using assms
    by (cases x) (auto intro!: k rows_frame.keeps_join rows_frame.keeps_withdraw_player rows_frame.keeps_balance
        rows_frame.keeps_rebalance keeps_rows_bubble rows_frame.keeps_autoFold)
qed

lemma exec_lifecycle:
  assumes "state_of j w = Some s" "x \<noteq> TOpen j"
  shows "\<exists>s'. state_of j (tourney_exec env x w) = Some s' \<and> lifecycle\<^sup>*\<^sup>* s s'"
proof -
  have finished_op: "keeps (\<lambda>w. tournaments w = ts) (ret ())" for ts by (rule keeps_ret)
  have cancelled: "keeps (\<lambda>w. tournaments w = ts) (seq (case te_wallet env of None \<Rightarrow> ret ()
      | Some we \<Rightarrow> bnd (gets (tournament_seats i)) (each (refund_seat we y))) (temit (TournamentCancel i)))" for ts i y
    by (intro keeps_intros rows_frame.keeps_refunds rows_frame.keeps_temit) simp
  show ?thesis
  proof (cases "\<exists>i. x \<in> {TOpen i, TStart i, TPause i, TResume i, TFinish i, TCancel i, TStartBreak i, TEndBreak i}")
    case False
    then show ?thesis using assms(1) other_ops_keep_rows [of x env w] by (auto simp: state_of_def)
  next
    case True
    then obtain i where "x \<in> {TOpen i, TStart i, TPause i, TResume i, TFinish i, TCancel i, TStartBreak i, TEndBreak i}"
      by blast
    moreover have "state_of j (snd (openRegistration i w)) = state_of j w" if "i \<noteq> j"
      using that by (auto simp: openRegistration_def setState_def getEntity_def save_tournament_def bnd_def orFail_def
          run_simps state_of_def find_saved dest: find_entity split: option.split)
    ultimately show ?thesis
      using assms
      by (auto simp: start_def pause_def resume_def finish_def cancel_def startBreak_def endBreak_def
          intro!: transition_edges finished_op cancelled lifecycle.intros)
  qed
qed


text \<open>A tournament with two tables and the wallet of the examples.\<close>

definition demo_tenv :: "(mock_redis, mock_tourney) tourney_env" where
  "demo_tenv = \<lparr>te_wallet = Some demo_env, te_redis = None, te_transaction = True, te_now = 0,
     te_uuid = (\<lambda>n. ''s'' @ nat_digits n), seatTableLoaded = True, defaultAvoidWithin = 10\<rparr>"

definition demo_tournament :: tournament where
  "demo_tournament = \<lparr>tn_id = ''t1'', tn_title = ''Sunday'', tn_gameType = ''texas'', tn_buyIn = 10,
     tn_currency = ''USD'', tn_prizePool = 0, tn_maxPlayers = 9, tn_state = REG_OPEN, tn_registrationOpen = None,
     tn_registrationClose = None\<rparr>"

definition demo_tworld :: "(mock_redis, mock_tourney) tworld" where
  "demo_tworld = \<lparr>tournaments = [demo_tournament],
     ttables = [\<lparr>tb_id = ''b1'', tb_tournament = Some ''t1''\<rparr>, \<lparr>tb_id = ''b2'', tb_tournament = Some ''t1''\<rparr>],
     seats = [], users = [''p1'', ''p2''], tbank = demo_wallet, bubbleAnnounced = [], localRecentlyMoved = [],
     tstore = empty_tourney, tevents = [], roomRequests = [], seatIds = 0\<rparr>"


section \<open>The bubble\<close>

definition bubbles :: "string \<Rightarrow> ('s, 'r) tworld \<Rightarrow> nat" where
  "bubbles i w = length (filter (\<lambda>e. \<exists>n. e = TournamentBubble i n) (tevents w))"

definition bubble_inv :: "string \<Rightarrow> ('s, 'r) tworld \<Rightarrow> bool" where
  "bubble_inv i w \<longleftrightarrow> bubbles i w = (if i \<in> set (bubbleAnnounced w) then 1 else 0)"

interpretation bubble_frame: event_frame "bubble_inv i" for i
  by unfold_locales (auto simp: bubble_inv_def bubbles_def)

lemma bubble_inv_rows: "bubble_inv i (w\<lparr>tournaments := ts\<rparr>) = bubble_inv i w"
  by (simp add: bubble_inv_def bubbles_def)

lemma keeps_bubble_transition: "keeps (bubble_inv i) (transition froms st j)"
  unfolding transition_def save_tournament_def
  by (intro keeps_intros bubble_frame.keeps_getEntity keeps_upd) (simp add: bubble_inv_rows)

lemma keeps_bubble_detect: "keeps (bubble_inv i) (detectBubble j n thr)"
  unfolding detectBubble_def
  by (rule keeps_bnd_gets) (auto simp: temit_def run_simps bubble_inv_def bubbles_def)

lemma exec_bubble: "bubble_inv i w \<Longrightarrow> bubble_inv i (tourney_exec env x w)"
proof -
  assume w: "bubble_inv i w"
  have k: "bubble_inv i (snd (m w))" if "keeps (bubble_inv i) m" for m :: "('a, 'b, 'c) tnact"
    using that w by (simp add: keeps_def)
  have t: "keeps (bubble_inv i) (bnd (transition froms st j) (\<lambda>_. ret ()))" for froms st j
    by (intro keeps_intros keeps_bubble_transition)
  have o: "keeps (bubble_inv i) (openRegistration j)" for j
    unfolding openRegistration_def setState_def save_tournament_def
    by (intro keeps_intros bubble_frame.keeps_getEntity keeps_upd) (simp add: bubble_inv_rows)
  have c: "keeps (bubble_inv i) (cancel env j)" for j
    unfolding cancel_def
    by (intro keeps_intros keeps_bubble_transition bubble_frame.keeps_refunds bubble_frame.keeps_temit) simp
  show ?thesis
    by (cases x)
      (auto simp: start_def pause_def resume_def finish_def startBreak_def endBreak_def
        intro!: k t o c bubble_frame.keeps_join bubble_frame.keeps_withdraw_player bubble_frame.keeps_balance
          bubble_frame.keeps_rebalance keeps_bubble_detect bubble_frame.keeps_autoFold)
qed

text \<open>
  The bubble is announced once. From a state in which nothing was announced, over any run of the service
  the event \<open>tournament.bubble\<close> is sent at most once for each tournament, and exactly for the tournaments the
  service remembers.
\<close>

theorem bubble_announced_once:
  assumes "bubbles i w = 0" "i \<notin> set (bubbleAnnounced w)"
  shows "bubbles i (tourney_run env ops w) = (if i \<in> set (bubbleAnnounced (tourney_run env ops w)) then 1 else 0)"
proof -
  have "bubble_inv i (tourney_run env ops v)" if "bubble_inv i v" for v
    using that by (induction ops arbitrary: v) (auto intro: exec_bubble)
  then show ?thesis using assms by (simp add: bubble_inv_def)
qed

theorem bubble_announced_once_witness:
  "bubbles ''t1'' (tourney_run demo_tenv [TBubble ''t1'' 3 2, TBubble ''t1'' 2 2, TBubble ''t1'' 2 2] demo_tworld) = 1"
proof -
  have "bubbles ''t1'' demo_tworld = 0" "''t1'' \<notin> set (bubbleAnnounced demo_tworld)"
    by (simp_all add: bubbles_def demo_tworld_def)
  from bubble_announced_once [OF this, of demo_tenv "[TBubble ''t1'' 3 2, TBubble ''t1'' 2 2, TBubble ''t1'' 2 2]"]
  show ?thesis
    by (simp add: detectBubble_def temit_def bnd_def seq_def run_simps demo_tworld_def)
qed

section \<open>Registration\<close>

abbreviation table_size :: "('s, 'r) tworld \<Rightarrow> table_row \<Rightarrow> nat" where
  "table_size w b \<equiv> length (seats_at (tb_id b) w)"

lemma smallest_table_least:
  "smallest_table w (table_size w target) target bs \<in> insert target (set bs)
   \<and> (\<forall>c\<in>insert target (set bs). table_size w (smallest_table w (table_size w target) target bs) \<le> table_size w c)"
proof (induction bs arbitrary: target)
  case (Cons b bs)
  show ?case
  proof (cases "table_size w b < table_size w target")
    case True
    have "table_size w (smallest_table w (table_size w b) b bs) \<le> table_size w b" using Cons [of b] by blast
    with True show ?thesis using Cons [of b] by auto
  next
    case False
    have "table_size w (smallest_table w (table_size w target) target bs) \<le> table_size w target"
      using Cons [of target] by blast
    with False show ?thesis using Cons [of target] by auto
  qed
qed simp

text \<open>What a successful registration does to the tables: \<open>b\<close> is the table that gets the seat.\<close>

definition seated :: "string \<Rightarrow> string \<Rightarrow> ('s, 'r) tworld \<Rightarrow> seat \<Rightarrow> ('s, 'r) tworld \<Rightarrow> bool" where
  "seated i u w s w' \<longleftrightarrow>
     seats w' = seats w @ [s] \<and> ttables w' = ttables w \<and> st_user s = u \<and>
     (\<exists>b\<in>set (tables_of i w). st_table s = tb_id b \<and> st_position s = table_size w b
        \<and> (\<forall>c\<in>set (tables_of i w). table_size w b \<le> table_size w c))"

lemma seated_frame:
  "seated i u w s (w'\<lparr>tbank := b\<rparr>) = seated i u w s w'" "seated i u (w\<lparr>tbank := b\<rparr>) s w' = seated i u w s w'"
  "seated i u w s (w'\<lparr>tevents := es\<rparr>) = seated i u w s w'"
  by (simp_all add: seated_def tables_of_def seats_at_def)

lemma smallest_frame [simp]: "smallest_table (w\<lparr>tbank := x\<rparr>) n b bs = smallest_table w n b bs"
  by (induction bs arbitrary: n b) (simp_all add: seats_at_def)

lemma join_seat_seated:
  "wp (join_seat env x u cur) (\<lambda>r w'. \<exists>s. fst r = Some s \<and> seated (tn_id x) u w s w') (\<lambda>_. True) w"
proof -
  have post: "seated (tn_id x) u w s w'"
    if "tables_of (tn_id x) w = b # bs" "st_user s = u" "seats w' = seats w @ [s]" "ttables w' = ttables w"
      "st_table s = tb_id (smallest_table w (table_size w b) b bs)"
      "st_position s = table_size w (smallest_table w (table_size w b) b bs)" for w' s b bs
    using that smallest_table_least [of w b bs] by (auto simp: seated_def)
  have tab: "tables_of i (w\<lparr>tbank := b\<rparr>) = tables_of i w" "seats_at j (w\<lparr>tbank := b\<rparr>) = seats_at j w" for i j b
    by (simp_all add: tables_of_def seats_at_def)
  show ?thesis
    by (cases "te_wallet env"; cases "tables_of (tn_id x) w")
      (auto simp: join_seat_def save_seat_def wp_simps tab intro!: post wp_mono [OF wp_True])
qed

lemma join_seated:
  assumes "join env i u w = (Inr r, w')"
  shows "\<exists>s. r = Some s \<and> seated i u w s w'"
proof -
  have js: "wp (join_seat env x u cur) (\<lambda>r v. \<exists>s. fst r = Some s \<and> seated i u w s v) (\<lambda>_. True) w"
    if "tn_id x = i" for x cur
    using join_seat_seated [of env x u cur w] that by simp
  have "wp (assignSeat env i u Join) (\<lambda>r v. \<exists>s. fst r = Some s \<and> seated i u w s v) (\<lambda>_. True) w"
    by (auto simp: assignSeat_def manageSeat_def getEntity_def wp_simps intro!: js dest: find_entity split: option.split)
  then have "wp (join env i u) (\<lambda>r v. \<exists>s. r = Some s \<and> seated i u w s v) (\<lambda>_. True) w"
    by (auto simp: join_def getEntity_def emit_some_def wp_simps seated_frame split: option.split
        elim!: wp_mono)
  from wp_run(1) [OF this assms] show ?thesis .
qed

text \<open>The tables of a tournament differ by at most one player.\<close>

definition tables_level :: "string \<Rightarrow> ('s, 'r) tworld \<Rightarrow> bool" where
  "tables_level i w \<longleftrightarrow> (\<forall>b\<in>set (tables_of i w). \<forall>c\<in>set (tables_of i w). table_size w b \<le> table_size w c + 1)"

lemma seated_level:
  assumes "seated i u w s w'" "tables_level i w"
  shows "tables_level i w'"
proof -
  obtain b where b: "b \<in> set (tables_of i w)" "st_table s = tb_id b" "\<forall>c\<in>set (tables_of i w). table_size w b \<le> table_size w c"
    and w': "seats w' = seats w @ [s]" "tables_of i w' = tables_of i w"
    using assms(1) by (auto simp: seated_def tables_of_def)
  have size: "table_size w' c = table_size w c + (if tb_id c = tb_id b then 1 else 0)" for c
    using w'(1) b(2) by (simp add: seats_at_def)
  show ?thesis
    unfolding tables_level_def w'(2)
  proof (intro ballI)
    fix c d assume cd: "c \<in> set (tables_of i w)" "d \<in> set (tables_of i w)"
    then have "table_size w c \<le> table_size w d + 1" "table_size w b \<le> table_size w d"
      using assms(2) b(3) by (auto simp: tables_level_def)
    moreover have "tb_id c = tb_id b \<Longrightarrow> table_size w c = table_size w b" by simp
    ultimately show "table_size w' c \<le> table_size w' d + 1" by (auto simp: size)
  qed
qed

text \<open>
  Registration seats players evenly. When \<open>join\<close> returns, exactly one seat was added, of the player, at
  a table of the tournament that had the fewest seats, at the position after them; and if the sizes of the
  tournament's tables differed by at most one before, they still do.
\<close>

theorem join_seats_evenly:
  assumes "join env i u w = (Inr r, w')"
  shows "\<exists>s. r = Some s \<and> seated i u w s w' \<and> (tables_level i w \<longrightarrow> tables_level i w')"
  using join_seated [OF assms] seated_level by blast

theorem join_seats_evenly_witness:
  "\<exists>s w'. join demo_tenv ''t1'' ''p1'' demo_tworld = (Inr (Some s), w') \<and> seats w' = [s] \<and> st_table s = ''b1''
     \<and> tables_level ''t1'' w'"
proof -
  let ?r = "join demo_tenv ''t1'' ''p1'' demo_tworld"
  have "case fst ?r of Inl _ \<Rightarrow> False | Inr x \<Rightarrow> map_option st_table x = Some ''b1''" by code_simp
  then obtain s where s: "?r = (Inr (Some s), snd ?r)" "st_table s = ''b1''"
    by (cases ?r) (auto split: sum.splits)
  have "tables_level ''t1'' demo_tworld" by (simp add: tables_level_def tables_of_def seats_at_def demo_tworld_def)
  moreover have "seats demo_tworld = []" by (simp add: demo_tworld_def)
  ultimately show ?thesis
    using join_seats_evenly [OF s(1)] s by (auto simp: seated_def)
qed

section \<open>Buy-ins\<close>

text \<open>A reserve whose entry on the reserve account is already in the journal does nothing.\<close>

lemma reserve_skipped:
  assumes "List.find (by_id_currency u cur) (accounts b) = Some user"
    and "List.find (by_name_currency ''reserve'' cur) (accounts b) = Some rsv"
    and "buildHash we ''reserve'' ref (acc_id rsv) n \<in> je_hash ` set (journals b)"
  shows "wallet_reserve we u n ref cur None b = (Inr (), b)"
proof -
  have "record_movements we ''reserve'' ref [\<lparr>mv_account = user, mv_amount = - n\<rparr>, \<lparr>mv_account = rsv, mv_amount = n\<rparr>]
      None None b = (Inr (), b)"
    by (rule record_existing [of _ "\<lparr>mv_account = rsv, mv_amount = n\<rparr>"]) (use assms(3) in simp_all)
  then show ?thesis
    using assms(1,2) by (simp add: wallet_reserve_def account_by_def bnd_assoc run_simps)
qed

text \<open>
  C40: Only the first player of a tournament pays. Once the reserve account holds one buy-in of the
  tournament, every later \<open>join\<close> by a player with an account succeeds and leaves the whole wallet as it
  was: the buy-ins of one tournament have the same reference and amount, so their entries on the reserve
  account have the same hash and \<open>record\<close> takes the second for a repetition. The player gets the seat.
\<close>

theorem join_not_charged:
  assumes "te_wallet env = Some we" "List.find (\<lambda>x. tn_id x = i) (tournaments w) = Some x"
    and "registration_open (te_now env) x" "tables_of i w \<noteq> []" "u \<in> set (users w)"
    and "List.find (by_id_currency u (tn_currency x)) (accounts (tbank w)) = Some user"
    and "List.find (by_name_currency ''reserve'' (tn_currency x)) (accounts (tbank w)) = Some rsv"
    and "buildHash we ''reserve'' i (acc_id rsv) (tn_buyIn x) \<in> je_hash ` set (journals (tbank w))"
  shows "\<exists>s w'. join env i u w = (Inr (Some s), w') \<and> tbank w' = tbank w \<and> seats w' = seats w @ [s] \<and> st_user s = u"
proof -
  have i: "tn_id x = i" using find_entity [OF assms(2)] by simp
  obtain b bs where b: "tables_of i w = b # bs" using assms(4) by (cases "tables_of i w") auto
  have "wallet_reserve we u (tn_buyIn x) i (tn_currency x) None (tbank w) = (Inr (), tbank w)"
    using assms(6-8) by (rule reserve_skipped)
  then have "wp (join env i u) (\<lambda>r w'. \<exists>s. r = Some s \<and> tbank w' = tbank w \<and> seats w' = seats w @ [s] \<and> st_user s = u) (\<lambda>_. False) w"
    using assms(1-3,5) i b
    by (simp add: join_def assignSeat_def manageSeat_def getEntity_def join_seat_def save_seat_def emit_some_def wp_simps
        wp_def [of "wallet_reserve we u n r c k" for n r c k])
  then show ?thesis by (auto simp: wp_def split: prod.splits sum.splits)
qed

lemma joined_first:
  "let w = snd (join demo_tenv ''t1'' ''p1'' demo_tworld); b = tbank w
   in buildHash demo_env ''reserve'' ''t1'' ''a1'' 10 \<in> je_hash ` set (journals b)
      \<and> map_option acc_id (List.find (by_name_currency ''reserve'' ''USD'') (accounts b)) = Some ''a1''
      \<and> map_option acc_id (List.find (by_id_currency ''p2'' ''USD'') (accounts b)) = Some ''p2''
      \<and> List.find (\<lambda>x. tn_id x = ''t1'') (tournaments w) = Some demo_tournament
      \<and> tables_of ''t1'' w \<noteq> [] \<and> users w = [''p1'', ''p2''] \<and> map acc_balance (accounts b) = [-10, 0, 10, 0, 0, 0]"
  by code_simp

theorem join_not_charged_witness:
  "\<exists>s w'. join demo_tenv ''t1'' ''p2'' (snd (join demo_tenv ''t1'' ''p1'' demo_tworld)) = (Inr (Some s), w')
     \<and> st_user s = ''p2'' \<and> map acc_balance (accounts (tbank w')) = [-10, 0, 10, 0, 0, 0]"
proof -
  let ?w = "snd (join demo_tenv ''t1'' ''p1'' demo_tworld)"
  note f = joined_first [unfolded Let_def]
  obtain user rsv where a: "List.find (by_id_currency ''p2'' ''USD'') (accounts (tbank ?w)) = Some user"
    "List.find (by_name_currency ''reserve'' ''USD'') (accounts (tbank ?w)) = Some rsv" "acc_id rsv = ''a1''"
    using f by auto
  have d: "tn_currency demo_tournament = ''USD''" "tn_buyIn demo_tournament = 10" "te_wallet demo_tenv = Some demo_env"
    "registration_open (te_now demo_tenv) demo_tournament"
    by (simp_all add: demo_tournament_def demo_tenv_def registration_open_def)
  have "\<exists>s w'. join demo_tenv ''t1'' ''p2'' ?w = (Inr (Some s), w') \<and> tbank w' = tbank ?w \<and> seats w' = seats ?w @ [s] \<and> st_user s = ''p2''"
    by (rule join_not_charged [where we = demo_env and x = demo_tournament and user = user and rsv = rsv])
      (use f a d in simp_all)
  then show ?thesis using f by auto
qed

text \<open>
  What that does to two players. The first to join is charged the buy-in of 10, the second is not; when the
  second withdraws, the buy-in of the first is paid out to the second, who ends up 10 ahead without ever
  having paid.
\<close>

theorem buy_in_paid_out_to_another:
  "let w1 = snd (join demo_tenv ''t1'' ''p1'' demo_tworld);
       w2 = snd (join demo_tenv ''t1'' ''p2'' w1);
       w3 = snd (withdraw_player demo_tenv ''t1'' ''p2'' w2)
   in map st_user (seats w2) = [''p1'', ''p2''] \<and> map acc_balance (accounts (tbank w2)) = [-10, 0, 10, 0, 0, 0]
      \<and> map st_user (seats w3) = [''p1''] \<and> map acc_balance (accounts (tbank w3)) = [-10, 10, 0, 0, 0, 0]"
  by code_simp

end
