(* ===== verification/TourneyBalance.thy ===== *)
theory TourneyBalance
  imports TournamentProps
begin

text \<open>
  Balancing a tournament: what \<open>balanceTournament\<close> does to the rows of the seats is what
  \<open>balanceTables\<close> computes on the lists of players.
\<close>

section \<open>Moving seats\<close>

definition moved_to :: "int \<Rightarrow> string \<times> string \<Rightarrow> seat \<Rightarrow> seat" where
  "moved_to hand = (\<lambda>(t, p) y. if st_user y = p \<and> st_table y \<noteq> t then y\<lparr>st_table := t, st_lastMovedHand := hand\<rparr> else y)"

abbreviation moves :: "int \<Rightarrow> (string \<times> string) list \<Rightarrow> seat \<Rightarrow> seat" where
  "moves hand ps y \<equiv> fold (moved_to hand) ps y"

lemma moved_to_frame [simp]:
  "st_id (moved_to hand x y) = st_id y" "st_user (moved_to hand x y) = st_user y" "st_position (moved_to hand x y) = st_position y"
  by (cases x; simp add: moved_to_def)+

lemma moves_frame [simp]:
  "st_id (moves hand ps y) = st_id y" "st_user (moves hand ps y) = st_user y" "st_position (moves hand ps y) = st_position y"
  by (induction ps arbitrary: y) simp_all

lemma moved_to_other: "snd x \<noteq> st_user y \<Longrightarrow> moved_to hand x y = y"
  by (cases x) (simp add: moved_to_def)

lemma moves_other: "st_user y \<notin> snd ` set ps \<Longrightarrow> moves hand ps y = y"
  by (induction ps arbitrary: y) (auto simp: moved_to_other)

lemma moves_table:
  "distinct (map snd ps) \<Longrightarrow> (t, st_user y) \<in> set ps \<Longrightarrow> st_table (moves hand ps y) = t"
proof (induction ps arbitrary: y)
  case (Cons x ps)
  show ?case
  proof (cases "x = (t, st_user y)")
    case True
    then have "st_user (moved_to hand x y) \<notin> snd ` set ps" using Cons.prems(1) by auto
    then have "moves hand ps (moved_to hand x y) = moved_to hand x y" by (rule moves_other)
    then show ?thesis using True by (simp add: moved_to_def)
  next
    case False
    then show ?thesis using Cons by simp
  qed
qed simp

text \<open>Seats that differ in their identifiers and in their users.\<close>

definition seat_keys :: "seat list \<Rightarrow> bool" where
  "seat_keys held \<longleftrightarrow> distinct (map st_id held) \<and> distinct (map st_user held)"

lemma seat_keys_map: "seat_keys held \<Longrightarrow> seat_keys (map (moved_to hand x) held)"
  by (simp add: seat_keys_def comp_def)

lemma seat_keysD: "seat_keys held \<Longrightarrow> x \<in> set held \<Longrightarrow> y \<in> set held \<Longrightarrow> st_id x = st_id y \<longleftrightarrow> st_user x = st_user y"
  by (auto simp: seat_keys_def distinct_map inj_on_def)

lemma move_seat_step:
  assumes "seat_keys held"
  obtains rm' moved' where "move_seat hand x (held, rm, moved) = (map (moved_to hand x) held, rm', moved')"
    "set moved' \<subseteq> set moved \<union> st_id ` set held" "set moved \<subseteq> set moved'"
    "\<forall>y\<in>set held. moved_to hand x y \<noteq> y \<longrightarrow> st_id y \<in> set moved'"
proof -
  obtain t p where x: "x = (t, p)" by fastforce
  show ?thesis
  proof (cases "List.find (\<lambda>s. st_user s = p) held")
    case None
    then have "moved_to hand x y = y" if "y \<in> set held" for y
      using that by (auto simp: x moved_to_def find_None_iff)
    then show ?thesis
      using that [of rm moved] None by (auto simp: move_seat_def x map_idI)
  next
    case (Some s)
    then have s: "s \<in> set held" "st_user s = p" by (auto simp: find_Some_iff)
    have eq: "st_user y = p \<longleftrightarrow> y = s" "st_id y = st_id s \<longleftrightarrow> y = s" if "y \<in> set held" for y
      using that s assms by (auto simp: seat_keys_def distinct_map inj_on_def)
    show ?thesis
    proof (cases "st_table s = t")
      case True
      then have "moved_to hand x y = y" if "y \<in> set held" for y
        using eq(1) [OF that] by (auto simp: x moved_to_def)
      then show ?thesis
        using that [of rm moved] Some True by (auto simp: move_seat_def x map_idI)
    next
      case False
      have "map (\<lambda>y. if st_id y = st_id s then s\<lparr>st_table := t, st_lastMovedHand := hand\<rparr> else y) held
          = map (moved_to hand x) held"
        using False s(2) eq by (auto simp: x moved_to_def)
      then have run: "move_seat hand x (held, rm, moved) = (map (moved_to hand x) held, AList.update p hand rm, moved @ [st_id s])"
        using Some False by (simp add: move_seat_def x)
      have only: "y = s" if "y \<in> set held" "moved_to hand x y \<noteq> y" for y
        using that eq(1) [OF that(1)] by (auto simp: x moved_to_def split: if_splits)
      show ?thesis
      proof (rule that [OF run])
        show "set (moved @ [st_id s]) \<subseteq> set moved \<union> st_id ` set held" "set moved \<subseteq> set (moved @ [st_id s])"
          using s(1) by auto
        show "\<forall>y\<in>set held. moved_to hand x y \<noteq> y \<longrightarrow> st_id y \<in> set (moved @ [st_id s])"
          using only by fastforce
      qed
    qed
  qed
qed

lemma move_seats:
  assumes "seat_keys held"
  obtains rm' moved' where "fold (move_seat hand) ps (held, rm, moved) = (map (moves hand ps) held, rm', moved')"
    "set moved' \<subseteq> set moved \<union> st_id ` set held" "set moved \<subseteq> set moved'"
    "\<forall>y\<in>set held. moves hand ps y \<noteq> y \<longrightarrow> st_id y \<in> set moved'"
  using assms
proof (induction ps arbitrary: held rm moved thesis)
  case Nil
  then show ?case by simp
next
  case (Cons x ps)
  obtain rm1 moved1 where 1: "move_seat hand x (held, rm, moved) = (map (moved_to hand x) held, rm1, moved1)"
    "set moved1 \<subseteq> set moved \<union> st_id ` set held" "set moved \<subseteq> set moved1"
    "\<forall>y\<in>set held. moved_to hand x y \<noteq> y \<longrightarrow> st_id y \<in> set moved1"
    by (rule move_seat_step [OF Cons.prems(2), where hand = hand and x = x and rm = rm and moved = moved])
  obtain rm2 moved2 where 2: "fold (move_seat hand) ps (map (moved_to hand x) held, rm1, moved1)
      = (map (moves hand ps) (map (moved_to hand x) held), rm2, moved2)"
    "set moved2 \<subseteq> set moved1 \<union> st_id ` set (map (moved_to hand x) held)" "set moved1 \<subseteq> set moved2"
    "\<forall>y\<in>set (map (moved_to hand x) held). moves hand ps y \<noteq> y \<longrightarrow> st_id y \<in> set moved2"
    using Cons.IH [OF _ seat_keys_map [OF Cons.prems(2)]] by blast
  show ?case
  proof (rule Cons.prems(1))
    show "fold (move_seat hand) (x # ps) (held, rm, moved) = (map (moves hand (x # ps)) held, rm2, moved2)"
      using 1(1) 2(1) by simp
    show "set moved2 \<subseteq> set moved \<union> st_id ` set held" "set moved \<subseteq> set moved2"
      using 1(2,3) 2(2,3) by (auto simp: image_image)
    show "\<forall>y\<in>set held. moves hand (x # ps) y \<noteq> y \<longrightarrow> st_id y \<in> set moved2"
    proof (intro ballI impI)
      fix y assume y: "y \<in> set held" "moves hand (x # ps) y \<noteq> y"
      show "st_id y \<in> set moved2"
      proof (cases "moved_to hand x y = y")
        case True
        then have "y \<in> set (map (moved_to hand x) held)" using y(1) by (metis image_eqI set_map)
        moreover have "moves hand ps y \<noteq> y" using y(2) True by simp
        ultimately show ?thesis using 2(4) by blast
      next
        case False
        then show ?thesis using 1(4) 2(3) y(1) by blast
      qed
    qed
  qed
qed

section \<open>Rows after balancing\<close>

text \<open>Primary keys, and every player of the tournament has one seat and a name.\<close>

abbreviation players_at :: "('s, 'r) tworld \<Rightarrow> table_row \<Rightarrow> string list" where
  "players_at w b \<equiv> map st_user (seats_at (tb_id b) w)"

definition wf_tourney :: "string \<Rightarrow> ('s, 'r) tworld \<Rightarrow> bool" where
  "wf_tourney i w \<longleftrightarrow>
     distinct (map tb_id (tables_of i w)) \<and> distinct (map st_id (seats w))
     \<and> proper_tables (map (players_at w) (tables_of i w))"

lemma targets_snd: "length tables = length result \<Longrightarrow> map snd (targets tables result) = concat result"
  by (induction tables result rule: list_induct2) (simp_all add: targets_def comp_def)

lemma targets_mem:
  "length tables = length result \<Longrightarrow> k < length result \<Longrightarrow> p \<in> set (result ! k) \<Longrightarrow>
   (tb_id (tables ! k), p) \<in> set (targets tables result)"
proof (induction tables result arbitrary: k rule: list_induct2)
  case (Cons b bs ps pss)
  then show ?case by (cases k) (auto simp: targets_def)
qed simp

lemma held_keys:
  assumes "wf_tourney i w"
  defines "held \<equiv> concat (map (\<lambda>b. seats_at (tb_id b) w) (tables_of i w))"
  shows "seat_keys held" "set held = set (tournament_seats i w)"
    "map st_user held = concat (map (players_at w) (tables_of i w))" "distinct (map st_user (tournament_seats i w))"
proof -
  show set: "set held = set (tournament_seats i w)"
    by (auto simp: held_def seats_at_def tournament_seats_def)
  show users: "map st_user held = concat (map (players_at w) (tables_of i w))"
    by (simp add: held_def map_concat comp_def)
  then have d: "distinct (map st_user held)" using assms(1) by (simp add: wf_tourney_def proper_tables_def)
  have ids: "distinct (map st_id (seats w))" using assms(1) by (simp add: wf_tourney_def)
  have "set held \<subseteq> set (seats w)" using set by (auto simp: tournament_seats_def)
  then have "inj_on st_id (set held)" using ids by (meson distinct_map inj_on_subset)
  then show "seat_keys held" using d by (simp add: seat_keys_def distinct_map)
  have "inj_on st_user (set (tournament_seats i w))" using d set by (simp add: distinct_map)
  moreover have "distinct (tournament_seats i w)" using ids by (simp add: tournament_seats_def distinct_map)
  ultimately show "distinct (map st_user (tournament_seats i w))" by (simp add: distinct_map)
qed

lemma save_seats_moves:
  assumes "distinct (map st_id rows)" "seat_keys held" "set held \<subseteq> set rows"
    and "set moved \<subseteq> st_id ` set held" "\<And>y. y \<in> set held \<Longrightarrow> f y \<noteq> y \<Longrightarrow> st_id y \<in> set moved"
    and f: "\<And>y. st_id (f y) = st_id y"
  shows "save_seats (map f held) moved rows = map (\<lambda>r. if r \<in> set held then f r else r) rows"
  unfolding save_seats_def
proof (rule map_cong [OF refl])
  fix r assume r: "r \<in> set rows"
  have same: "st_id s = st_id r \<longleftrightarrow> s = r" if "s \<in> set held" for s
    using that assms(1,3) r by (auto simp: distinct_map inj_on_def)
  have fnd: "List.find (\<lambda>s. st_id s = st_id r) (map f held) = Some (f r)" if "r \<in> set held"
    using that same by (induction held) (auto simp: f)
  have "st_id r \<in> set moved \<Longrightarrow> r \<in> set held" using assms(4) same by (metis imageE subsetD)
  then show "(if st_id r \<in> set moved then case List.find (\<lambda>s. st_id s = st_id r) (map f held) of None \<Rightarrow> r | Some s \<Rightarrow> s else r)
      = (if r \<in> set held then f r else r)"
    using fnd assms(5) [of r] by (cases "st_id r \<in> set moved"; cases "f r = r") auto
qed

section \<open>Correctness\<close>

text \<open>What balancing leaves: the rows keep their identifiers, users and positions, seats outside the
  tournament are not touched, and every table seats the players \<open>balanceTables\<close> assigned to it.\<close>

lemma balance_rows:
  assumes wf: "wf_tourney i w" and loaded: "seatTableLoaded env"
  obtains rm' w' where "balanceTournament env i hand av rm w = (Inr rm', w')" "ttables w' = ttables w"
    "map (\<lambda>s. (st_id s, st_user s, st_position s)) (seats w') = map (\<lambda>s. (st_id s, st_user s, st_position s)) (seats w)"
    "\<forall>k<length (tables_of i w). mset (players_at w' (tables_of i w ! k))
       = mset (fst (balanceTables (map (players_at w) (tables_of i w)) rm hand av) ! k)"
proof -
  let ?ts = "tables_of i w"
  define held where "held = concat (map (\<lambda>b. seats_at (tb_id b) w) ?ts)"
  note keys = held_keys [OF wf, folded held_def]
  obtain result rm1 where bal: "balanceTables (map (players_at w) ?ts) rm hand av = (result, rm1)" by fastforce
  have proper: "proper_tables (map (players_at w) ?ts)" using wf by (simp add: wf_tourney_def)
  have res: "length ?ts = length result" "mset (concat result) = mset (map st_user held)"
    using balance_loop_correct [of hand av "map (players_at w) ?ts" rm, OF _ proper] bal keys(3)
    by (auto simp: balanceTables_def)
  have users: "set (concat result) = st_user ` set held" using mset_eq_setD [OF res(2)] by simp
  let ?ps = "targets ?ts result"
  have dres: "distinct (concat result)"
    using mset_eq_imp_distinct_iff [OF res(2)] keys(1) by (simp add: seat_keys_def)
  then have dps: "distinct (map snd ?ps)" by (simp add: targets_snd [OF res(1)])
  obtain rm2 moved where mv: "fold (move_seat hand) ?ps (held, rm1, []) = (map (moves hand ?ps) held, rm2, moved)"
    "set moved \<subseteq> set [] \<union> st_id ` set held" "set [] \<subseteq> set moved"
    "\<forall>y\<in>set held. moves hand ?ps y \<noteq> y \<longrightarrow> st_id y \<in> set moved"
    by (rule move_seats [OF keys(1), where hand = hand and ps = ?ps and rm = rm1 and moved = "[]"])
  define g where "g r = (if r \<in> set held then moves hand ?ps r else r)" for r
  define w' where "w' = w\<lparr>seats := map g (seats w), tstore := saveRecentlyMoved (te_redis env) i rm2 (tstore w)\<rparr>"
  have g: "st_id (g r) = st_id r" "st_user (g r) = st_user r" "st_position (g r) = st_position r" for r
    by (simp_all add: g_def)
  have "save_seats (map (moves hand ?ps) held) moved (seats w) = map g (seats w)"
    unfolding g_def
    by (rule save_seats_moves) (use wf keys(1,2) mv(2,4) in \<open>auto simp: wf_tourney_def tournament_seats_def\<close>)
  then have run: "balanceTournament env i hand av rm w = (Inr rm2, w')"
    using bal mv(1) loaded by (simp add: balanceTournament_def run_simps comp_def w'_def held_def)
  have at: "mset (players_at w' (?ts ! k)) = mset (result ! k)" if k: "k < length ?ts" for k
  proof -
    have tid: "st_table (g r) = tb_id (?ts ! k) \<longleftrightarrow> r \<in> set held \<and> st_user r \<in> set (result ! k)" if r: "r \<in> set (seats w)" for r
    proof (cases "r \<in> set held")
      case False
      then have "st_table r \<notin> tb_id ` set ?ts" using r keys(2) by (auto simp: tournament_seats_def)
      then show ?thesis using False k by (auto simp: g_def)
    next
      case True
      then have "st_user r \<in> set (concat result)" using users by simp
      then obtain p where "p \<in> set result" "st_user r \<in> set p" by auto
      then obtain j where j: "j < length result" "st_user r \<in> set (result ! j)" by (metis in_set_conv_nth)
      have "st_table (g r) = tb_id (?ts ! j)"
        using True moves_table [OF dps targets_mem [OF res(1) j]] by (simp add: g_def)
      moreover have "tb_id (?ts ! j) = tb_id (?ts ! k) \<longleftrightarrow> j = k"
        using wf j(1) k res(1) by (auto simp: wf_tourney_def distinct_conv_nth)
      moreover have "st_user r \<in> set (result ! k) \<longleftrightarrow> j = k"
        using distinct_concat_nth [OF dres j(1)] j k res(1) by auto
      ultimately show ?thesis using True by simp
    qed
    have "seats_at (tb_id (?ts ! k)) w' = map g (filter (\<lambda>r. st_table (g r) = tb_id (?ts ! k)) (seats w))"
      by (simp add: seats_at_def w'_def filter_map comp_def)
    also have "filter (\<lambda>r. st_table (g r) = tb_id (?ts ! k)) (seats w)
        = filter (\<lambda>r. st_user r \<in> set (result ! k)) (tournament_seats i w)"
      using tid keys(2) by (simp add: tournament_seats_def cong: filter_cong)
    finally have "players_at w' (?ts ! k) = filter (\<lambda>p. p \<in> set (result ! k)) (map st_user (tournament_seats i w))"
      by (simp add: g filter_map comp_def)
    moreover have "set (result ! k) \<subseteq> st_user ` set (tournament_seats i w)"
      using users keys(2) k res(1) by (auto simp: image_set [symmetric])
    moreover have "distinct (result ! k)" using dres k res(1) by (simp add: distinct_concat_iff)
    ultimately show ?thesis
      using keys(4) by (subst set_eq_iff_mset_eq_distinct [symmetric]) auto
  qed
  show ?thesis
    by (rule that [OF run]) (use at bal g in \<open>auto simp: w'_def comp_def\<close>)
qed


text \<open>Three players at the first table and none at the second.\<close>

definition crowded :: "(mock_redis, mock_tourney) tworld" where
  "crowded = demo_tworld\<lparr>seats := map (\<lambda>(i, u, p). \<lparr>st_id = i, st_table = ''b1'', st_user = u, st_position = p, st_lastMovedHand = 0\<rparr>)
     [(''s1'', ''p1'', 0), (''s2'', ''p2'', 1), (''s3'', ''p3'', 2)]\<rparr>"

lemma crowded_wf: "wf_tourney ''t1'' crowded" "seatTableLoaded demo_tenv"
  by (simp_all add: wf_tourney_def crowded_def demo_tworld_def tables_of_def seats_at_def proper_tables_def demo_tenv_def)


lemma detect_run:
  "\<exists>v. (case thr of None \<Rightarrow> ret () | Some t \<Rightarrow> bnd (detectBubble i n t) (\<lambda>_. ret ())) w = (Inr (), v)
     \<and> ttables v = ttables w \<and> seats v = seats w"
proof (cases thr)
  case (Some t)
  then show ?thesis
    by (cases "n \<noteq> t \<or> i \<in> set (bubbleAnnounced w)") (auto simp: detectBubble_def temit_def seq_def bnd_assoc run_simps)
qed (simp add: run_simps)

text \<open>
  When the object mapper leaves out the relation that was not asked for, balancing fails. If \<open>seat.table\<close> is not
  loaded with the seats, \<open>balanceTournament\<close> throws for every tournament with a player, and
  \<open>rebalanceIfNeeded\<close> throws whenever a rebalance is needed; no seat is moved.
\<close>

theorem balancing_needs_tables:
  assumes "wf_tourney i w" "\<not> seatTableLoaded env" "\<exists>b\<in>set (tables_of i w). \<exists>c\<in>set (tables_of i w). table_size w b + 2 \<le> table_size w c"
  shows "balanceTournament env i hand av rm w = (Inl TypeErrorUndefined, w)
     \<and> (\<exists>w'. rebalanceIfNeeded env i hand av' thr w = (Inl TypeErrorUndefined, w') \<and> seats w' = seats w)"
proof -
  have thrown: "balanceTournament env i hand av rm v = (Inl TypeErrorUndefined, v)"
    if "tables_of i v = tables_of i w" "seats v = seats w" for v av rm
  proof -
    have at: "seats_at b v = seats_at b w" for b using that(2) by (simp add: seats_at_def)
    obtain result rm1 where bal: "balanceTables (map (players_at w) (tables_of i w)) rm hand av = (result, rm1)" by fastforce
    have "proper_tables (map (players_at w) (tables_of i w))" using assms(1) by (simp add: wf_tourney_def)
    then have "mset (concat result) = mset (concat (map (players_at w) (tables_of i w)))"
      using balance_loop_correct [of hand av "map (players_at w) (tables_of i w)" rm] bal by (simp add: balanceTables_def)
    moreover have "concat (map (players_at w) (tables_of i w)) \<noteq> []" using assms(3) by force
    ultimately have "concat result \<noteq> []" by (metis mset_zero_iff)
    then show ?thesis
      using bal assms(2) that(1) by (simp add: balanceTournament_def run_simps comp_def at)
  qed
  define counts where "counts = map length (map (\<lambda>b. seats_at (tb_id b) w) (tables_of i w))"
  obtain b c where bc: "b \<in> set (tables_of i w)" "c \<in> set (tables_of i w)" "table_size w b + 2 \<le> table_size w c"
    using assms(3) by blast
  have "Min (set counts) \<le> table_size w b" "table_size w c \<le> Max (set counts)"
    using bc(1,2) by (auto simp: counts_def intro: Min_le Max_ge)
  then have "Max (set counts) - Min (set counts) > 1" using bc(3) by linarith
  then have gap: "(Max (set counts) - Min (set counts) > 1) = True" by simp
  have ne: "(tables_of i w = []) = False" using assms(3) by auto
  define pre :: "('a, 'b, unit) tnact"
    where "pre = (case thr of None \<Rightarrow> ret () | Some t \<Rightarrow> bnd (detectBubble i (sum_list counts) t) (\<lambda>_. ret ()))"
  obtain v where v: "pre w = (Inr (), v)"
      "tables_of i v = tables_of i w" "seats v = seats w"
    using detect_run [where thr = thr and i = i and n = "sum_list counts" and w = w] by (auto simp: tables_of_def pre_def)
  have "rebalanceIfNeeded env i hand av' thr w = (Inl TypeErrorUndefined, v)"
    unfolding rebalanceIfNeeded_def run_bnd(2) Let_def ne if_False counts_def [symmetric] gap if_True
      pre_def [symmetric] run_seq_Inr [of pre w, OF v(1)]
    by (simp add: run_simps run_bnd_Inl [of "balanceTournament env i hand av rm" v for av rm, OF thrown [OF v(2,3)]])
  then show ?thesis using thrown [of w] v(3) by simp
qed

theorem balancing_needs_tables_witness:
  "\<exists>w'. rebalanceIfNeeded (demo_tenv\<lparr>seatTableLoaded := False\<rparr>) ''t1'' 7 None None crowded = (Inl TypeErrorUndefined, w')
     \<and> seats w' = seats crowded"
  using balancing_needs_tables [OF crowded_wf(1), of "demo_tenv\<lparr>seatTableLoaded := False\<rparr>" 7 _ _ None None]
  by (simp add: crowded_def demo_tworld_def tables_of_def seats_at_def)

end
