(* ===== verification/Gateway.thy ===== *)
theory Gateway
  imports RoomWorker Levels
begin

text \<open>
  The socket gateway of the tables, \<open>backend/src/game/game.gateway.ts\<close>, and the player clock,
  \<open>backend/src/game/clock.service.ts\<close>.

  The state is the gateway object: its engines, cached states, tick, socket players, outbound queues and frames
  awaiting acknowledgement, with the clock's timers, the tables of hands and snapshots, the Redis store, what was
  emitted at once and the requests sent to the rooms, whose workers hold engines of their own. A message to a client waits in
  the queue of its socket until the queue library runs it (\<open>send_next\<close>). A socket is known by its identifier;
  what the handshake says about it is a record of optional fields. Wire actions are parsed by
  \<open>GameActionSchema\<close>: an action that does not parse is \<open>None\<close>. Metrics, analytics and spans are left out. States are
  of the shape the outbound schema checks, so that its \<open>parse\<close> returns them.
\<close>

section \<open>Clock\<close>

text \<open>Deadlines are in nanoseconds; the action of a timer is to time out a player at a table.\<close>

record timer =
  tm_deadline :: nat
  tm_player :: string
  tm_table :: string

type_synonym timers = "(string \<times> timer) list"

definition timer_key :: "string \<Rightarrow> string \<Rightarrow> string" where
  "timer_key playerId tableId = tableId @ '':'' @ playerId"

definition setTimer :: "nat \<Rightarrow> nat \<Rightarrow> string \<Rightarrow> string \<Rightarrow> timers \<Rightarrow> timers" where
  "setTimer now ms playerId tableId ts =
     AList.update (timer_key playerId tableId)
       \<lparr>tm_deadline = now + ms * 1000000, tm_player = playerId, tm_table = tableId\<rparr> ts"

definition clearTimer :: "string \<Rightarrow> string \<Rightarrow> timers \<Rightarrow> timers" where
  "clearTimer playerId tableId ts = AList.delete (timer_key playerId tableId) ts"

text \<open>\<open>tick\<close>: the timers that are due, in the order of the map, and the ones that stay.\<close>

definition clock_tick :: "nat \<Rightarrow> timers \<Rightarrow> (string \<times> string) list \<times> timers" where
  "clock_tick now ts =
     (map (\<lambda>(_, t). (tm_player t, tm_table t)) (filter (\<lambda>(_, t). now \<ge> tm_deadline t) ts),
      filter (\<lambda>(_, t). \<not> now \<ge> tm_deadline t) ts)"

section \<open>State\<close>

record handshake =
  hs_userId :: "string option"
  hs_playerId :: "string option"
  hs_queryPlayer :: "string option"
  hs_forwardedFor :: "string option"
  hs_address :: "string option"

record socket =
  so_id :: string
  so_dataUser :: "string option"
  so_dataPlayer :: "string option"
  so_remoteAddress :: "string option"
  so_handshake :: handshake

datatype gw_msg =
    StateMsg public_state nat
  | AckMsg string string bool
  | ErrorMsg string
  | EngineErrorMsg game_error
  | ProofMsg string string string

record queued =
  q_msg :: gw_msg
  q_critical :: bool

record frame =
  fr_msg :: gw_msg
  fr_attempt :: nat

text \<open>A cached state: an engine's own, or what a room's worker answered, which has no deck. A text in the store is
  kept as what \<open>JSON.stringify\<close> was given.\<close>

datatype cached = Full game_state | Public public_state

datatype gval = GText string | GCached cached

record 'r gateway_client =
  g_get :: "string \<Rightarrow> 'r \<Rightarrow> gval option"
  g_set :: "string \<Rightarrow> gval \<Rightarrow> 'r \<Rightarrow> 'r"
  g_del :: "string \<Rightarrow> 'r \<Rightarrow> 'r"
  g_keys :: "string \<Rightarrow> 'r \<Rightarrow> string list"
  g_incr :: "string \<Rightarrow> 'r \<Rightarrow> int \<times> 'r"
  g_expire :: "string \<Rightarrow> nat \<Rightarrow> 'r \<Rightarrow> 'r"
  g_hget :: "string \<Rightarrow> string \<Rightarrow> 'r \<Rightarrow> string option"
  g_hset :: "string \<Rightarrow> string \<Rightarrow> string \<Rightarrow> 'r \<Rightarrow> 'r"
  g_hgetall :: "string \<Rightarrow> 'r \<Rightarrow> (string \<times> string) list"
  g_hdel :: "string \<Rightarrow> string \<Rightarrow> 'r \<Rightarrow> 'r"

record ('s, 'r) gateway =
  g_states :: "(string \<times> cached) list"
  g_lastSnapshot :: "(string \<times> nat) list"
  g_tick :: nat
  g_engines :: "(string \<times> engine) list"
  g_socketPlayers :: "(string \<times> string) list"
  g_queues :: "(string \<times> queued list) list"
  g_frames :: "(string \<times> (string \<times> frame) list) list"
  g_timers :: timers
  g_hands :: "hand_row list"
  g_snapshots :: "(string \<times> nat \<times> cached) list"
  g_emitted :: "(string \<times> gw_msg) list"
  g_roomEmits :: "(string \<times> public_state \<times> nat) list"
  g_roomFolds :: "(string \<times> string) list"
  g_bank :: "'s wallet"
  g_store :: 'r

record 'r gateway_env =
  ge_client :: "'r gateway_client"
  ge_sha256 :: "string \<Rightarrow> string"
  ge_sha_array :: "bytes \<Rightarrow> bytes"
  ge_now :: nat
  ge_hrtime :: nat
  ge_hands :: bool
  ge_server :: bool
  ge_flag :: "string \<Rightarrow> bool option"
  ge_roomFlag :: "string \<Rightarrow> string \<Rightarrow> bool option"
  ge_queueLimit :: nat
  ge_globalLimit :: int
  ge_actionTimeoutMs :: nat

section \<open>Outbound messages\<close>

definition queue_of :: "string \<Rightarrow> ('s, 'r) gateway \<Rightarrow> queued list" where
  "queue_of sid g = (case map_of (g_queues g) sid of None \<Rightarrow> [] | Some q \<Rightarrow> q)"

definition emit_now :: "string \<Rightarrow> gw_msg \<Rightarrow> ('s, 'r) gateway \<Rightarrow> ('s, 'r) gateway" where
  "emit_now sid m g = g\<lparr>g_emitted := g_emitted g @ [(sid, m)]\<rparr>"

definition enqueue :: "'r gateway_env \<Rightarrow> string \<Rightarrow> gw_msg \<Rightarrow> bool \<Rightarrow> ('s, 'r) gateway \<Rightarrow> ('s, 'r) gateway" where
  "enqueue env sid m critical g =
     (let q = queue_of sid g
      in if length q \<ge> ge_queueLimit env
         then emit_now sid (ErrorMsg ''throttled'') (g\<lparr>g_queues := AList.update sid q (g_queues g)\<rparr>)
         else g\<lparr>g_queues := AList.update sid (q @ [\<lparr>q_msg = m, q_critical = critical\<rparr>]) (g_queues g)\<rparr>)"

definition frames_of :: "string \<Rightarrow> ('s, 'r) gateway \<Rightarrow> (string \<times> frame) list" where
  "frames_of sid g = (case map_of (g_frames g) sid of None \<Rightarrow> [] | Some fs \<Rightarrow> fs)"

definition set_frames :: "string \<Rightarrow> (string \<times> frame) list \<Rightarrow> ('s, 'r) gateway \<Rightarrow> ('s, 'r) gateway" where
  "set_frames sid fs g = g\<lparr>g_frames := AList.update sid fs (g_frames g)\<rparr>"

definition maxFrameAttempts :: nat where "maxFrameAttempts = 5"

definition trackFrame :: "string \<Rightarrow> string \<Rightarrow> gw_msg \<Rightarrow> ('s, 'r) gateway \<Rightarrow> ('s, 'r) gateway" where
  "trackFrame sid frameId m g =
     set_frames sid (AList.update frameId \<lparr>fr_msg = m, fr_attempt = 1\<rparr> (frames_of sid g)) g"

text \<open>The task at the head of a socket's queue runs; \<open>frameId\<close> is the identifier drawn for a critical one.\<close>

definition send_next :: "string \<Rightarrow> string \<Rightarrow> ('s, 'r) gateway \<Rightarrow> ('s, 'r) gateway" where
  "send_next frameId sid g =
     (case queue_of sid g of
        [] \<Rightarrow> g
      | t # ts \<Rightarrow>
          let g1 = emit_now sid (q_msg t) (g\<lparr>g_queues := AList.update sid ts (g_queues g)\<rparr>)
          in if q_critical t then trackFrame sid frameId (q_msg t) g1 else g1)"

text \<open>The retry timer of a frame fires: the frame is sent again, and given up after the last attempt.\<close>

definition frame_timeout :: "string \<Rightarrow> string \<Rightarrow> ('s, 'r) gateway \<Rightarrow> ('s, 'r) gateway" where
  "frame_timeout sid frameId g =
     (case map_of (frames_of sid g) frameId of
        None \<Rightarrow> g
      | Some f \<Rightarrow>
          let g1 = emit_now sid (fr_msg f) g; n = fr_attempt f + 1
          in if n \<ge> maxFrameAttempts then set_frames sid (AList.delete frameId (frames_of sid g)) g1
             else set_frames sid (AList.update frameId (f\<lparr>fr_attempt := n\<rparr>) (frames_of sid g)) g1)"

definition handleFrameAck :: "string \<Rightarrow> string \<Rightarrow> ('s, 'r) gateway \<Rightarrow> ('s, 'r) gateway" where
  "handleFrameAck sid frameId g =
     (if map_of (frames_of sid g) frameId = None then g
      else set_frames sid (AList.delete frameId (frames_of sid g)) g)"

section \<open>Connections\<close>

definition first_some :: "'a option \<Rightarrow> 'a option \<Rightarrow> 'a option" where
  "first_some a b = (case a of None \<Rightarrow> b | Some _ \<Rightarrow> a)"

definition handleConnection :: "'r gateway_env \<Rightarrow> socket \<Rightarrow> ('s, 'r) gateway \<Rightarrow> ('s, 'r) gateway" where
  "handleConnection env so g =
     (let hs = so_handshake so;
          playerId = first_some (so_dataPlayer so) (first_some (hs_playerId hs) (hs_queryPlayer hs));
          g1 = (case playerId of
                  None \<Rightarrow> g
                | Some p \<Rightarrow> if p = [] then g else g\<lparr>g_socketPlayers := AList.update (so_id so) p (g_socketPlayers g)\<rparr>)
      in g1\<lparr>g_timers := setTimer (ge_hrtime env) (ge_actionTimeoutMs env) (so_id so) ''default'' (g_timers g1)\<rparr>)"

definition handleDisconnect :: "socket \<Rightarrow> ('s, 'r) gateway \<Rightarrow> ('s, 'r) gateway" where
  "handleDisconnect so g =
     g\<lparr>g_timers := clearTimer (so_id so) ''default'' (g_timers g),
       g_socketPlayers := AList.delete (so_id so) (g_socketPlayers g),
       g_frames := AList.delete (so_id so) (g_frames g),
       g_queues := AList.delete (so_id so) (g_queues g)\<rparr>"

section \<open>Rate limits\<close>

definition before_comma :: "string \<Rightarrow> string" where
  "before_comma s = hd (split_on (CHR '','') s)"

definition client_ip :: "socket \<Rightarrow> string" where
  "client_ip so =
     (case hs_forwardedFor (so_handshake so) of
        Some x \<Rightarrow> trim (before_comma x)
      | None \<Rightarrow> (case first_some (hs_address (so_handshake so)) (so_remoteAddress so) of Some a \<Rightarrow> a | None \<Rightarrow> so_id so))"

definition globalActionCounterKey :: string where "globalActionCounterKey = ''game:action_counter:global''"

definition getRateLimitKey :: "socket \<Rightarrow> string" where
  "getRateLimitKey so =
     ''game:action_counter:'' @
       (case first_some (so_dataUser so) (hs_userId (so_handshake so)) of
          Some u \<Rightarrow> if u = [] then client_ip so else u
        | None \<Rightarrow> client_ip so)"

definition isRateLimited :: "'r gateway_env \<Rightarrow> socket \<Rightarrow> ('s, 'r) gateway \<Rightarrow> bool \<times> ('s, 'r) gateway" where
  "isRateLimited env so g =
     (let c = ge_client env; key = getRateLimitKey so;
          (count, s1) = g_incr c key (g_store g);
          (global, s2) = g_incr c globalActionCounterKey s1;
          s3 = (if count = 1 then g_expire c key 10 s2 else s2);
          s4 = (if global = 1 then g_expire c globalActionCounterKey 10 s3 else s3);
          g1 = g\<lparr>g_store := s4\<rparr>
      in if global > ge_globalLimit env then (True, enqueue env (so_id so) (ErrorMsg ''rate limit exceeded'') False g1)
         else if count > 30 then (True, emit_now (so_id so) (ErrorMsg ''rate limit exceeded'') g1)
         else (False, g1))"

section \<open>Wire actions\<close>

record wire_action =
  wa_type :: string
  wa_tableId :: "string option"
  wa_playerId :: "string option"
  wa_amount :: "rat option"
  wa_actionId :: string

text \<open>\<open>z.number().int().positive()\<close>.\<close>

definition positive_int :: "rat \<Rightarrow> int option" where
  "positive_int r = (if of_int \<lfloor>r\<rfloor> = r \<and> 0 < \<lfloor>r\<rfloor> then Some \<lfloor>r\<rfloor> else None)"

definition with_amount :: "(string \<Rightarrow> int \<Rightarrow> game_action) \<Rightarrow> string \<Rightarrow> rat option \<Rightarrow> game_action option" where
  "with_amount f p a = Option.bind (Option.bind a positive_int) (\<lambda>n. Some (f p n))"

definition call_action :: "string \<Rightarrow> rat option \<Rightarrow> game_action option" where
  "call_action p a = (case a of None \<Rightarrow> Some (Call p None)
     | Some r \<Rightarrow> (case positive_int r of None \<Rightarrow> None | Some n \<Rightarrow> Some (Call p (Some n))))"

definition player_action :: "wire_action \<Rightarrow> game_action option" where
  "player_action a =
     Option.bind (wa_playerId a) (\<lambda>p.
       if wa_type a = ''postBlind'' then with_amount PostBlind p (wa_amount a)
       else if wa_type a = ''bet'' then with_amount Bet p (wa_amount a)
       else if wa_type a = ''raise'' then with_amount Raise p (wa_amount a)
       else if wa_type a = ''call'' then call_action p (wa_amount a)
       else if wa_type a = ''check'' then Some (Check p)
       else if wa_type a = ''fold'' then Some (Fold p)
       else None)"

definition GameActionSchema_parse :: "wire_action \<Rightarrow> (string \<times> game_action) option" where
  "GameActionSchema_parse a =
     Option.bind (wa_tableId a) (\<lambda>t.
       if wa_type a = ''next'' then Some (t, Next) else map_option (Pair t) (player_action a))"

text \<open>\<open>actingPlayerId\<close>: the player an action names, if it names one.\<close>

fun acting_player :: "game_action \<Rightarrow> string option" where
  "acting_player (PostBlind p n) = (if p = [] then None else Some p)"
| "acting_player (Bet p n) = (if p = [] then None else Some p)"
| "acting_player (Raise p n) = (if p = [] then None else Some p)"
| "acting_player (Call p n) = (if p = [] then None else Some p)"
| "acting_player (Check p) = (if p = [] then None else Some p)"
| "acting_player (Fold p) = (if p = [] then None else Some p)"
| "acting_player Next = None"

section \<open>Repeated requests\<close>

definition actionHashKey :: string where "actionHashKey = ''game:action''"

definition actionRetentionMs :: int where "actionRetentionMs = 24 * 60 * 60 * 1000"

definition hashAction :: "'r gateway_env \<Rightarrow> string \<Rightarrow> string" where
  "hashAction env actionId = ge_sha256 env actionId"

definition is_repeated :: "'r gateway_env \<Rightarrow> string \<Rightarrow> ('s, 'r) gateway \<Rightarrow> bool" where
  "is_repeated env actionId g =
     (case g_hget (ge_client env) actionHashKey (hashAction env actionId) (g_store g) of
        None \<Rightarrow> False
      | Some t \<Rightarrow> t \<noteq> [] \<and> (case js_number t of None \<Rightarrow> False | Some ts \<Rightarrow> int (ge_now env) - ts < actionRetentionMs))"

definition remember :: "'r gateway_env \<Rightarrow> string \<Rightarrow> ('s, 'r) gateway \<Rightarrow> ('s, 'r) gateway" where
  "remember env actionId g =
     g\<lparr>g_store := g_hset (ge_client env) actionHashKey (hashAction env actionId) (int_to_string (int (ge_now env))) (g_store g)\<rparr>"

definition trimActionHashes :: "'r gateway_env \<Rightarrow> ('s, 'r) gateway \<Rightarrow> ('s, 'r) gateway" where
  "trimActionHashes env g =
     (let c = ge_client env; threshold = int (ge_now env) - actionRetentionMs
      in g\<lparr>g_store := fold (\<lambda>(field, ts) s. case js_number ts of
             Some n \<Rightarrow> if n < threshold then g_hdel c actionHashKey field s else s
           | None \<Rightarrow> s) (g_hgetall c actionHashKey (g_store g)) (g_store g)\<rparr>)"

definition acknowledge :: "'r gateway_env \<Rightarrow> string \<Rightarrow> string \<Rightarrow> string \<Rightarrow> ('s, 'r) gateway \<Rightarrow> ('s, 'r) gateway" where
  "acknowledge env event sid actionId g =
     (if is_repeated env actionId g then enqueue env sid (AckMsg event actionId True) False g
      else remember env actionId (enqueue env sid (AckMsg event actionId False) False g))"

text \<open>\<open>handleJoin\<close>, \<open>handleBuyIn\<close>, \<open>handleSitout\<close>, \<open>handleRebuy\<close>, by the name of the event.\<close>

definition handle_simple :: "'r gateway_env \<Rightarrow> string \<Rightarrow> socket \<Rightarrow> string \<Rightarrow> ('s, 'r) gateway \<Rightarrow> ('s, 'r) gateway" where
  "handle_simple env event so actionId g =
     (case isRateLimited env so g of
        (True, g1) \<Rightarrow> g1
      | (False, g1) \<Rightarrow> acknowledge env event (so_id so) actionId g1)"

section \<open>Snapshots\<close>

definition stateKeyPrefix :: string where "stateKeyPrefix = ''game:state''"

definition state_key :: "string \<Rightarrow> string" where "state_key tableId = stateKeyPrefix @ '':'' @ tableId"

definition tickKey :: string where "tickKey = ''game:tick''"

definition snapshotInterval :: int where "snapshotInterval = 50"

definition maybeSnapshot :: "string \<Rightarrow> cached \<Rightarrow> ('s, 'r) gateway \<Rightarrow> ('s, 'r) gateway" where
  "maybeSnapshot tableId st g =
     (let lst = (case map_of (g_lastSnapshot g) tableId of None \<Rightarrow> 0 | Some n \<Rightarrow> n)
      in if int (g_tick g) - int lst \<ge> snapshotInterval
         then g\<lparr>g_snapshots := g_snapshots g @ [(tableId, g_tick g, st)],
                g_lastSnapshot := AList.update tableId (g_tick g) (g_lastSnapshot g)\<rparr>
         else g)"

text \<open>Cache a state in memory and in the store, with the tick.\<close>

definition cache_state :: "'r gateway_env \<Rightarrow> string \<Rightarrow> cached \<Rightarrow> ('s, 'r) gateway \<Rightarrow> ('s, 'r) gateway" where
  "cache_state env tableId st g =
     maybeSnapshot tableId st
       (g\<lparr>g_states := AList.update tableId st (g_states g),
          g_store := g_set (ge_client env) tickKey (GText (int_to_string (int (g_tick g))))
            (g_set (ge_client env) (state_key tableId) (GCached st) (g_store g))\<rparr>)"

definition forget_state :: "'r gateway_env \<Rightarrow> string \<Rightarrow> ('s, 'r) gateway \<Rightarrow> ('s, 'r) gateway" where
  "forget_state env tableId g =
     g\<lparr>g_states := AList.delete tableId (g_states g), g_store := g_del (ge_client env) (state_key tableId) (g_store g)\<rparr>"

text \<open>\<open>isInternalGameState\<close>: a state without a deck is refused.\<close>

definition isInternalGameState :: "cached \<Rightarrow> bool" where
  "isInternalGameState st = (case st of Full _ \<Rightarrow> True | Public _ \<Rightarrow> False)"

definition restore_snapshot :: "string \<times> nat \<times> cached \<Rightarrow> ('s, 'r) gateway \<Rightarrow> ('s, 'r) gateway" where
  "restore_snapshot = (\<lambda>(tableId, tk, st) g.
     if map_of (g_states g) tableId \<noteq> None \<or> \<not> isInternalGameState st then g
     else g\<lparr>g_states := AList.update tableId st (g_states g), g_tick := max tk (g_tick g)\<rparr>)"

definition restore_cached :: "'r gateway_env \<Rightarrow> string \<Rightarrow> ('s, 'r) gateway \<Rightarrow> ('s, 'r) gateway" where
  "restore_cached env key g =
     (case g_get (ge_client env) key (g_store g) of
        Some (GCached st) \<Rightarrow>
          if isInternalGameState st then g\<lparr>g_states := AList.update (drop (length stateKeyPrefix + 1) key) st (g_states g)\<rparr> else g
      | _ \<Rightarrow> g)"

definition restoreState :: "'r gateway_env \<Rightarrow> ('s, 'r) gateway \<Rightarrow> ('s, 'r) gateway" where
  "restoreState env g =
     (let c = ge_client env;
          g1 = fold restore_snapshot (js_sort (\<lambda>a b. fst (snd b) \<le> fst (snd a)) (g_snapshots g)) g;
          g2 = (case g_get c tickKey (g_store g1) of
                  Some (GText t) \<Rightarrow> (case js_number t of
                      Some n \<Rightarrow> if t = [] then g1 else g1\<lparr>g_tick := nat n\<rparr> | None \<Rightarrow> g1)
                | _ \<Rightarrow> g1)
      in fold (restore_cached env) (g_keys c (stateKeyPrefix @ '':'') (g_store g2)) g2)"

section \<open>Actions\<close>

text \<open>Engines of the gateway have the repository of hands and no wallet, settlement service or events.\<close>

definition gateway_engine_env :: "'r gateway_env \<Rightarrow> 's engine_env" where
  "gateway_engine_env env =
     \<lparr>ee_wallet = None, ee_settlementSvc = False, ee_handRepo = ge_hands env, ee_events = False,
      ee_sha_array = ge_sha_array env\<rparr>"

definition engine_world :: "engine \<Rightarrow> ('s, 'r) gateway \<Rightarrow> 's table_world" where
  "engine_world e g = \<lparr>eng = e, bank = g_bank g, hands = g_hands g, published = []\<rparr>"

text \<open>\<open>sanitize\<close> of a state that is public already, for no player.\<close>

definition sanitize_public :: "public_state \<Rightarrow> public_state" where
  "sanitize_public st = st\<lparr>ps_players := map (\<lambda>p. p\<lparr>pp_holeCards := None\<rparr>) (ps_players st)\<rparr>"

definition startSession ::
  "'r gateway_env \<Rightarrow> string \<Rightarrow> hand_rng \<Rightarrow> string \<Rightarrow> string list \<Rightarrow> ('s, 'r) gateway \<Rightarrow> ('s, 'r) gateway" where
  "startSession env handId rng tableId playerIds g =
     (let t = snd (engine_create (gateway_engine_env env)
                (engine_world (new_engine handId rng playerIds 100 (Some tableId) ''1-2'' ''USD'') g))
      in g\<lparr>g_engines := AList.update tableId (eng t) (g_engines g), g_hands := hands t\<rparr>)"

definition switched_off :: "'r gateway_env \<Rightarrow> string \<Rightarrow> string \<Rightarrow> bool" where
  "switched_off env name tableId \<longleftrightarrow> ge_flag env name = Some False \<or> ge_roomFlag env tableId name = Some False"

text \<open>An error to the client, and the acknowledgement that closes every request.\<close>

definition refuse :: "'r gateway_env \<Rightarrow> string \<Rightarrow> string \<Rightarrow> gw_msg \<Rightarrow> ('s, 'r) gateway \<Rightarrow> ('s, 'r) gateway" where
  "refuse env sid actionId m g =
     enqueue env sid (AckMsg ''action'' actionId False) False (enqueue env sid m False g)"

text \<open>The row of a finished hand: the engine saved it when it was created.\<close>

definition save_hand_log :: "engine \<Rightarrow> hand_row list \<Rightarrow> hand_row list" where
  "save_hand_log e rows =
     map (\<lambda>r. if hr_id r = e_handId e then r\<lparr>hr_log := hl_entries (e_log e)\<rparr> else r) rows"

text \<open>What \<open>handleAction\<close> does once the engine has accepted the action.\<close>

definition action_applied ::
  "'r gateway_env \<Rightarrow> string \<Rightarrow> string \<Rightarrow> string \<Rightarrow> string option \<Rightarrow> game_state \<Rightarrow> 's table_world
   \<Rightarrow> ('s, 'r) gateway \<Rightarrow> ('s, 'r) gateway" where
  "action_applied env sid actionId tableId acting st t g =
     (let g1 = g\<lparr>g_engines := AList.update tableId (eng t) (g_engines g), g_hands := hands t, g_tick := g_tick g + 1\<rparr>;
          g2 = enqueue env sid (StateMsg (sanitize st acting) (g_tick g1)) True g1;
          g3 = cache_state env tableId (Full st) g2;
          g4 = (if phase st = NEXT_HAND \<and> ge_hands env then g3\<lparr>g_hands := save_hand_log (eng t) (g_hands g3)\<rparr> else g3);
          g5 = (if ge_server env
                then g4\<lparr>g_roomEmits := g_roomEmits g4 @ [(tableId, sanitize_public (getPublicState (eng t)), g_tick g1)]\<rparr> else g4);
          g6 = enqueue env sid (AckMsg ''action'' actionId False) False g5;
          g7 = (case acting of
                  Some p \<Rightarrow> if phase st \<noteq> NEXT_HAND
                            then g6\<lparr>g_timers := setTimer (ge_hrtime env) (ge_actionTimeoutMs env) p tableId (g_timers g6)\<rparr>
                            else g6
                | None \<Rightarrow> g6)
      in if phase st = NEXT_HAND then forget_state env tableId g7 else g7)"

definition action_checked ::
  "'r gateway_env \<Rightarrow> string \<Rightarrow> string \<Rightarrow> string \<Rightarrow> game_action \<Rightarrow> ('s, 'r) gateway \<Rightarrow> ('s, 'r) gateway" where
  "action_checked env sid actionId tableId action g =
     (if switched_off env ''dealing'' tableId then refuse env sid actionId (ErrorMsg ''dealing disabled'') g
      else if switched_off env ''settlement'' tableId then refuse env sid actionId (ErrorMsg ''settlement disabled'') g
      else case map_of (g_engines g) tableId of
             None \<Rightarrow> refuse env sid actionId (ErrorMsg ''engine not started'') g
           | Some e \<Rightarrow>
               (case applyAction (gateway_engine_env env) action (engine_world e g) of
                  (Inl err, _) \<Rightarrow> refuse env sid actionId (EngineErrorMsg err) g
                | (Inr st, t) \<Rightarrow> action_applied env sid actionId tableId (acting_player action) st t g))"

definition mismatch :: "socket \<Rightarrow> game_action \<Rightarrow> ('s, 'r) gateway \<Rightarrow> bool" where
  "mismatch so action g \<longleftrightarrow>
     (case acting_player action of
        None \<Rightarrow> False
      | Some p \<Rightarrow> map_of (g_socketPlayers g) (so_id so) \<noteq> Some p)"

text \<open>The handler up to the answer of \<open>hget\<close>: it ends there (\<open>Inl\<close>, saying whether it threw because
  the action did not parse), or goes on with an action not seen before. The rest starts with \<open>hset\<close>; another
  handler may run between the two.\<close>

definition action_begin ::
  "'r gateway_env \<Rightarrow> socket \<Rightarrow> wire_action \<Rightarrow> ('s, 'r) gateway
   \<Rightarrow> (bool \<times> ('s, 'r) gateway) + ((string \<times> game_action) \<times> ('s, 'r) gateway)" where
  "action_begin env so a g =
     (case isRateLimited env so g of
        (True, g1) \<Rightarrow> Inl (False, g1)
      | (False, g1) \<Rightarrow>
          (case GameActionSchema_parse a of
             None \<Rightarrow> Inl (True, enqueue env (so_id so) (AckMsg ''action'' (wa_actionId a) False) False g1)
           | Some (tableId, action) \<Rightarrow>
               if mismatch so action g1
               then Inl (False, refuse env (so_id so) (wa_actionId a) (ErrorMsg ''player mismatch'') g1)
               else if is_repeated env (wa_actionId a) g1
               then Inl (False, enqueue env (so_id so) (AckMsg ''action'' (wa_actionId a) True) False g1)
               else Inr ((tableId, action), g1)))"

definition action_finish ::
  "'r gateway_env \<Rightarrow> socket \<Rightarrow> string \<Rightarrow> string \<times> game_action \<Rightarrow> ('s, 'r) gateway \<Rightarrow> ('s, 'r) gateway" where
  "action_finish env so actionId x g =
     (case x of (tableId, action) \<Rightarrow>
        let g1 = remember env actionId g;
            g2 = (case acting_player action of
                    None \<Rightarrow> g1
                  | Some p \<Rightarrow> g1\<lparr>g_timers := clearTimer p tableId (g_timers g1)\<rparr>)
        in action_checked env (so_id so) actionId tableId action g2)"

definition handleAction :: "'r gateway_env \<Rightarrow> socket \<Rightarrow> wire_action \<Rightarrow> ('s, 'r) gateway \<Rightarrow> bool \<times> ('s, 'r) gateway" where
  "handleAction env so a g =
     (case action_begin env so a g of
        Inl r \<Rightarrow> r
      | Inr (x, g1) \<Rightarrow> (False, action_finish env so (wa_actionId a) x g1))"

section \<open>Proofs, replay, timeouts\<close>

definition handleProof :: "'r gateway_env \<Rightarrow> socket \<Rightarrow> string \<Rightarrow> ('s, 'r) gateway \<Rightarrow> ('s, 'r) gateway" where
  "handleProof env so handId g =
     (case isRateLimited env so g of
        (True, g1) \<Rightarrow> g1
      | (False, g1) \<Rightarrow>
          let unavailable = enqueue env (so_id so) (ErrorMsg ''proof unavailable'') False g1
          in if \<not> ge_hands env then unavailable
             else case List.find (\<lambda>r. hr_id r = handId) (g_hands g1) of
                    None \<Rightarrow> unavailable
                  | Some r \<Rightarrow>
                      (case (hr_seed r, hr_nonce r) of
                         (Some sd, Some nn) \<Rightarrow>
                           if sd = [] \<or> nn = [] then unavailable
                           else enqueue env (so_id so) (ProofMsg (hr_commitment r) sd nn) True g1
                       | _ \<Rightarrow> unavailable))"

text \<open>\<open>handleReplay\<close> and \<open>handleResume\<close>: what the room of the table \<open>default\<close> answers is an argument.\<close>

definition handleReplay :: "'r gateway_env \<Rightarrow> socket \<Rightarrow> public_state \<Rightarrow> ('s, 'r) gateway \<Rightarrow> ('s, 'r) gateway" where
  "handleReplay env so answer g =
     (if switched_off env ''dealing'' ''default'' then enqueue env (so_id so) (ErrorMsg ''dealing disabled'') False g
      else enqueue env (so_id so) (StateMsg (sanitize_public answer) (g_tick g)) False g)"

definition handleResume :: "'r gateway_env \<Rightarrow> socket \<Rightarrow> (nat \<times> game_state) list \<Rightarrow> ('s, 'r) gateway \<Rightarrow> ('s, 'r) gateway" where
  "handleResume env so answer g =
     (if switched_off env ''dealing'' ''default'' then enqueue env (so_id so) (ErrorMsg ''dealing disabled'') False g
      else fold (\<lambda>(index, st). enqueue env (so_id so) (StateMsg (sanitize st None) (index + 1)) False) answer g)"

text \<open>\<open>handleTimeout\<close>: the room folds for the player and answers with a public state (\<open>None\<close> if it fails).\<close>

definition handleTimeout ::
  "'r gateway_env \<Rightarrow> string \<Rightarrow> string \<Rightarrow> public_state option \<Rightarrow> ('s, 'r) gateway \<Rightarrow> ('s, 'r) gateway" where
  "handleTimeout env playerId tableId answer g =
     (let g0 = g\<lparr>g_roomFolds := g_roomFolds g @ [(tableId, playerId)]\<rparr>
      in case answer of
           None \<Rightarrow> g0
         | Some st \<Rightarrow>
             if \<not> ge_server env then g0
             else let g1 = g0\<lparr>g_tick := g_tick g0 + 1\<rparr>;
                      g2 = cache_state env tableId (Public st) g1;
                      g3 = g2\<lparr>g_roomEmits := g_roomEmits g2 @ [(tableId, sanitize_public st, g_tick g1)]\<rparr>
                  in if ps_phase st = NEXT_HAND then forget_state env tableId g3 else g3)"

text \<open>A tick of the clock: the timers that are due run one after the other.\<close>

definition gateway_tick ::
  "'r gateway_env \<Rightarrow> (string \<times> string \<Rightarrow> public_state option) \<Rightarrow> ('s, 'r) gateway \<Rightarrow> ('s, 'r) gateway" where
  "gateway_tick env answers g =
     (case clock_tick (ge_hrtime env) (g_timers g) of
        (due, rest) \<Rightarrow> fold (\<lambda>(p, tb). handleTimeout env p tb (answers (p, tb))) due (g\<lparr>g_timers := rest\<rparr>))"

section \<open>The gateway at work\<close>

text \<open>Everything that reaches the gateway: the events of the sockets, the clock, the hourly trim, the queue of a
  socket, the retry timer of a frame, and the start of a session.\<close>

datatype gw_event =
    Connect socket
  | Disconnect socket
  | Action socket wire_action
  | Simple string socket string
  | Proof socket string
  | FrameAck socket string
  | Replay socket public_state
  | Resume socket "(nat \<times> game_state) list"
  | ClockTick "string \<times> string \<Rightarrow> public_state option"
  | Trim
  | SendNext string string
  | Retry string string
  | StartSession string hand_rng string "string list"

fun gw_step :: "'r gateway_env \<times> gw_event \<Rightarrow> ('s, 'r) gateway \<Rightarrow> ('s, 'r) gateway" where
  "gw_step (env, Connect so) g = handleConnection env so g"
| "gw_step (env, Disconnect so) g = handleDisconnect so g"
| "gw_step (env, Action so a) g = snd (handleAction env so a g)"
| "gw_step (env, Simple ev so i) g = handle_simple env ev so i g"
| "gw_step (env, Proof so h) g = handleProof env so h g"
| "gw_step (env, FrameAck so f) g = handleFrameAck (so_id so) f g"
| "gw_step (env, Replay so st) g = handleReplay env so st g"
| "gw_step (env, Resume so sts) g = handleResume env so sts g"
| "gw_step (env, ClockTick answers) g = gateway_tick env answers g"
| "gw_step (env, Trim) g = trimActionHashes env g"
| "gw_step (env, SendNext f sid) g = send_next f sid g"
| "gw_step (env, Retry sid f) g = frame_timeout sid f g"
| "gw_step (env, StartSession h rng tb ids) g = startSession env h rng tb ids g"

end
