(* ===== verification/GatewayProps.thy ===== *)
theory GatewayProps
  imports Gateway
begin

text \<open>
  Properties of the socket gateway. The locale \<open>gateway_redis\<close> is what the gateway relies on of Redis, as
  documented for the commands it uses, interpreted on an in-memory client in the manner of
  \<open>backend/test/utils/mock-redis.ts\<close>. The locale \<open>store_frame\<close> collects, once, what the handlers leave alone
  in the store. A run is a sequence of events with the environment (time, flags, limits) each of them meets.
\<close>

section \<open>Contract of the store\<close>

locale gateway_redis =
  fixes c :: "'r gateway_client"
  assumes hget_hset: "g_hget c k f (g_hset c k' f' v s) = (if k = k' \<and> f = f' then Some v else g_hget c k f s)"
    and hget_hdel: "g_hget c k f (g_hdel c k' f' s) = (if k = k' \<and> f = f' then None else g_hget c k f s)"
    and hgetall: "(f, v) \<in> set (g_hgetall c k s) \<Longrightarrow> g_hget c k f s = Some v"
    and hget_set: "k \<noteq> k' \<Longrightarrow> g_hget c k f (g_set c k' v' s) = g_hget c k f s"
    and hget_del: "k \<noteq> k' \<Longrightarrow> g_hget c k f (g_del c k' s) = g_hget c k f s"
    and hget_incr: "k \<noteq> k' \<Longrightarrow> g_hget c k f (snd (g_incr c k' s)) = g_hget c k f s"
    and hget_expire: "g_hget c k f (g_expire c k' n s) = g_hget c k f s"
    and get_set: "g_get c k (g_set c k' v' s) = (if k = k' then Some v' else g_get c k s)"
    and get_del: "g_get c k (g_del c k' s) = (if k = k' then None else g_get c k s)"
    and get_hset: "k \<noteq> k' \<Longrightarrow> g_get c k (g_hset c k' f v s) = g_get c k s"
    and get_hdel: "k \<noteq> k' \<Longrightarrow> g_get c k (g_hdel c k' f s) = g_get c k s"
    and get_incr: "k \<noteq> k' \<Longrightarrow> g_get c k (snd (g_incr c k' s)) = g_get c k s"
    and get_expire: "g_get c k (g_expire c k' n s) = g_get c k s"
    and incr: "g_get c k s = (if n = 0 then None else Some (GText (int_to_string (int n)))) \<Longrightarrow>
      fst (g_incr c k s) = int (Suc n) \<and> g_get c k (snd (g_incr c k s)) = Some (GText (int_to_string (int (Suc n))))"
    and keys_match: "k \<in> set (g_keys c p s) \<Longrightarrow> take (length p) k = p"
    and keys_all: "take (length p) k = p \<Longrightarrow> g_get c k s \<noteq> None \<Longrightarrow> k \<in> set (g_keys c p s)"

text \<open>The in-memory client: texts and hashes in two association lists.\<close>

type_synonym mock_gateway = "(string \<times> gval) list \<times> ((string \<times> string) \<times> string) list"

definition mock_count :: "gval option \<Rightarrow> int" where
  "mock_count v = (case v of Some (GText t) \<Rightarrow> (case parseInt10 t of Some n \<Rightarrow> n | None \<Rightarrow> 0) | _ \<Rightarrow> 0)"

definition mock_gateway_client :: "mock_gateway gateway_client" where
  "mock_gateway_client =
     \<lparr>g_get = (\<lambda>k s. map_of (fst s) k),
      g_set = (\<lambda>k v s. (AList.update k v (fst s), snd s)),
      g_del = (\<lambda>k s. (AList.delete k (fst s), snd s)),
      g_keys = (\<lambda>p s. filter (\<lambda>k. take (length p) k = p) (map fst (fst s))),
      g_incr = (\<lambda>k s. let n = mock_count (map_of (fst s) k) + 1
                      in (n, (AList.update k (GText (int_to_string n)) (fst s), snd s))),
      g_expire = (\<lambda>k n s. s),
      g_hget = (\<lambda>k f s. map_of (snd s) (k, f)),
      g_hset = (\<lambda>k f v s. (fst s, AList.update (k, f) v (snd s))),
      g_hgetall = (\<lambda>k s. map (\<lambda>((_, f), v). (f, v)) (filter (\<lambda>((k', f), v). k' = k \<and> map_of (snd s) (k', f) = Some v) (snd s))),
      g_hdel = (\<lambda>k f s. (fst s, AList.delete (k, f) (snd s)))\<rparr>"

interpretation mock_gateway: gateway_redis mock_gateway_client
  by unfold_locales
    (auto simp: mock_gateway_client_def update_conv' delete_conv' mock_count_def Let_def map_of_eq_None_iff algebra_simps)

section \<open>What the handlers leave alone\<close>

lemma emit_now_frame [simp]:
  "g_store (emit_now sid m g) = g_store g" "g_engines (emit_now sid m g) = g_engines g"
  "g_tick (emit_now sid m g) = g_tick g" "g_timers (emit_now sid m g) = g_timers g"
  "g_socketPlayers (emit_now sid m g) = g_socketPlayers g" "g_states (emit_now sid m g) = g_states g"
  "g_hands (emit_now sid m g) = g_hands g" "g_frames (emit_now sid m g) = g_frames g"
  "g_queues (emit_now sid m g) = g_queues g" "g_bank (emit_now sid m g) = g_bank g"
  by (simp_all add: emit_now_def)

lemma enqueue_frame [simp]:
  "g_store (enqueue env sid m cr g) = g_store g" "g_engines (enqueue env sid m cr g) = g_engines g"
  "g_tick (enqueue env sid m cr g) = g_tick g" "g_timers (enqueue env sid m cr g) = g_timers g"
  "g_socketPlayers (enqueue env sid m cr g) = g_socketPlayers g" "g_states (enqueue env sid m cr g) = g_states g"
  "g_hands (enqueue env sid m cr g) = g_hands g" "g_frames (enqueue env sid m cr g) = g_frames g"
  "g_bank (enqueue env sid m cr g) = g_bank g"
  by (simp_all add: enqueue_def Let_def)

lemma refuse_frame [simp]:
  "g_store (refuse env sid i m g) = g_store g" "g_engines (refuse env sid i m g) = g_engines g"
  "g_tick (refuse env sid i m g) = g_tick g" "g_timers (refuse env sid i m g) = g_timers g"
  "g_states (refuse env sid i m g) = g_states g" "g_hands (refuse env sid i m g) = g_hands g"
  by (simp_all add: refuse_def)

lemma isRateLimited_frame [simp]:
  "g_engines (snd (isRateLimited env so g)) = g_engines g" "g_tick (snd (isRateLimited env so g)) = g_tick g"
  "g_timers (snd (isRateLimited env so g)) = g_timers g" "g_states (snd (isRateLimited env so g)) = g_states g"
  "g_socketPlayers (snd (isRateLimited env so g)) = g_socketPlayers g" "g_bank (snd (isRateLimited env so g)) = g_bank g"
  "g_hands (snd (isRateLimited env so g)) = g_hands g"
  by (simp_all add: isRateLimited_def Let_def split: prod.splits)

lemma isRateLimited_engines: "isRateLimited env so g = (b, g1) \<Longrightarrow> g_engines g1 = g_engines g"
  using isRateLimited_frame(1) [of env so g] by simp

lemma remember_frame [simp]:
  "g_engines (remember env i g) = g_engines g" "g_tick (remember env i g) = g_tick g"
  "g_timers (remember env i g) = g_timers g" "g_states (remember env i g) = g_states g"
  "g_hands (remember env i g) = g_hands g" "g_bank (remember env i g) = g_bank g"
  by (simp_all add: remember_def)

lemma cache_state_frame [simp]:
  "g_engines (cache_state env tb st g) = g_engines g" "g_tick (cache_state env tb st g) = g_tick g"
  "g_timers (cache_state env tb st g) = g_timers g" "g_hands (cache_state env tb st g) = g_hands g"
  "g_store (cache_state env tb st g) =
     g_set (ge_client env) tickKey (GText (int_to_string (int (g_tick g)))) (g_set (ge_client env) (state_key tb) (GCached st) (g_store g))"
  "g_states (cache_state env tb st g) = AList.update tb st (g_states g)"
  by (simp_all add: cache_state_def maybeSnapshot_def Let_def)

lemma forget_state_frame [simp]:
  "g_engines (forget_state env tb g) = g_engines g" "g_tick (forget_state env tb g) = g_tick g"
  "g_timers (forget_state env tb g) = g_timers g" "g_hands (forget_state env tb g) = g_hands g"
  "g_store (forget_state env tb g) = g_del (ge_client env) (state_key tb) (g_store g)"
  "g_states (forget_state env tb g) = AList.delete tb (g_states g)"
  by (simp_all add: forget_state_def)

lemma set_frames_frame [simp]:
  "g_store (set_frames sid fs g) = g_store g" "g_engines (set_frames sid fs g) = g_engines g"
  "g_tick (set_frames sid fs g) = g_tick g" "g_states (set_frames sid fs g) = g_states g"
  by (simp_all add: set_frames_def)

lemma outbound_frame [simp]:
  "g_store (send_next f sid g) = g_store g" "g_engines (send_next f sid g) = g_engines g"
  "g_store (frame_timeout sid f g) = g_store g" "g_engines (frame_timeout sid f g) = g_engines g"
  "g_store (handleFrameAck sid f g) = g_store g" "g_engines (handleFrameAck sid f g) = g_engines g"
  by (simp_all add: send_next_def frame_timeout_def handleFrameAck_def trackFrame_def Let_def split: list.splits option.splits)

lemma reply_frame [simp]:
  "g_store (handleReplay env so st g) = g_store g" "g_engines (handleReplay env so st g) = g_engines g"
  "g_store (handleResume env so sts g) = g_store g" "g_engines (handleResume env so sts g) = g_engines g"
proof -
  show "g_store (handleReplay env so st g) = g_store g" "g_engines (handleReplay env so st g) = g_engines g"
    by (simp_all add: handleReplay_def)
  have "g_store (fold (\<lambda>(i, st). enqueue env (so_id so) (StateMsg (sanitize st None) (i + 1)) False) sts h) = g_store h"
       "g_engines (fold (\<lambda>(i, st). enqueue env (so_id so) (StateMsg (sanitize st None) (i + 1)) False) sts h) = g_engines h" for h :: "('b, 'a) gateway"
    by (induction sts arbitrary: h) auto
  then show "g_store (handleResume env so sts g) = g_store g" "g_engines (handleResume env so sts g) = g_engines g"
    by (simp_all add: handleResume_def)
qed

lemma handleProof_frame [simp]:
  "g_engines (handleProof env so h g) = g_engines g"
  "g_store (handleProof env so h g) = g_store (snd (isRateLimited env so g))"
proof -
  obtain b g1 where r: "isRateLimited env so g = (b, g1)" by (cases "isRateLimited env so g")
  then have "g_engines g1 = g_engines g" using isRateLimited_frame(1) [of env so g] by simp
  then show "g_engines (handleProof env so h g) = g_engines g"
    "g_store (handleProof env so h g) = g_store (snd (isRateLimited env so g))"
    using r by (simp_all add: handleProof_def Let_def split: bool.splits option.splits)
qed

lemma connection_frame [simp]:
  "g_store (handleConnection env so g) = g_store g" "g_engines (handleConnection env so g) = g_engines g"
  "g_store (handleDisconnect so g) = g_store g" "g_engines (handleDisconnect so g) = g_engines g"
  by (simp_all add: handleConnection_def handleDisconnect_def Let_def split: option.splits)

lemma trim_frame [simp]: "g_engines (trimActionHashes env g) = g_engines g"
  by (simp add: trimActionHashes_def Let_def)

lemma startSession_frame [simp]: "g_store (startSession env h rng tb ids g) = g_store g"
  by (simp add: startSession_def Let_def)

section \<open>What the handlers do to the store\<close>

definition counter_key :: "string \<Rightarrow> bool" where
  "counter_key k \<longleftrightarrow> take 19 k = ''game:action_counter''"

lemma counter_keys: "counter_key (getRateLimitKey so)" "counter_key globalActionCounterKey"
  by (simp_all add: counter_key_def getRateLimitKey_def globalActionCounterKey_def)

lemma counter_key_other [simp]:
  "counter_key k \<Longrightarrow> k \<noteq> state_key tb" "counter_key k \<Longrightarrow> k \<noteq> tickKey" "counter_key k \<Longrightarrow> k \<noteq> actionHashKey"
  by (auto simp: counter_key_def state_key_def stateKeyPrefix_def tickKey_def actionHashKey_def)

lemma store_keys_distinct [simp]:
  "actionHashKey \<noteq> state_key tb" "actionHashKey \<noteq> tickKey" "state_key tb \<noteq> tickKey" "state_key tb = state_key tb' \<longleftrightarrow> tb = tb'"
  "tickKey \<noteq> state_key tb" "tickKey \<noteq> actionHashKey" "state_key tb \<noteq> actionHashKey"
  by (auto simp: state_key_def stateKeyPrefix_def tickKey_def actionHashKey_def)

text \<open>A fact about the store that survives caching and forgetting a state survives everything but the rate limiter,
  the memory of requests and the trim.\<close>

locale store_frame =
  fixes c :: "'r gateway_client" and P :: "'r \<Rightarrow> bool"
  assumes set_state: "P s \<Longrightarrow> P (g_set c (state_key tb) v s)"
    and set_tick: "P s \<Longrightarrow> P (g_set c tickKey v s)"
    and del_state: "P s \<Longrightarrow> P (g_del c (state_key tb) s)"
begin

lemma cached: "ge_client env = c \<Longrightarrow> P (g_store g) \<Longrightarrow> P (g_store (cache_state env tb st g))"
  by (simp add: set_tick set_state)

lemma forgotten: "ge_client env = c \<Longrightarrow> P (g_store g) \<Longrightarrow> P (g_store (forget_state env tb g))"
  by (simp add: del_state)

lemma applied:
  assumes "ge_client env = c" "P (g_store g)"
  shows "P (g_store (action_applied env sid i tb acting st t g))"
  using assms by (simp add: action_applied_def Let_def set_tick set_state del_state split: option.splits)

lemma checked:
  assumes "ge_client env = c" "P (g_store g)"
  shows "P (g_store (action_checked env sid i tb action g))"
  using assms by (auto simp: action_checked_def applied split: option.splits sum.splits prod.splits)

lemma finished:
  assumes "ge_client env = c" "P (g_store (remember env i g))"
  shows "P (g_store (action_finish env so i x g))"
  using assms by (cases x) (auto simp: action_finish_def Let_def intro!: checked split: option.splits)

lemma timeout:
  assumes "ge_client env = c" "P (g_store g)"
  shows "P (g_store (handleTimeout env p tb answer g))"
  using assms by (simp add: handleTimeout_def Let_def set_tick set_state del_state split: option.splits)

lemma ticked:
  fixes g :: "('s, 'r) gateway"
  assumes "ge_client env = c" "P (g_store g)"
  shows "P (g_store (gateway_tick env answers g))"
proof -
  have "P (g_store (fold (\<lambda>(p, tb). handleTimeout env p tb (answers (p, tb))) xs h))" if "P (g_store h)"
    for xs and h :: "('s, 'r) gateway"
    using that by (induction xs arbitrary: h) (auto intro: timeout [OF assms(1)])
  then show ?thesis using assms(2) by (simp add: gateway_tick_def split: prod.splits)
qed

lemma limited:
  assumes "ge_client env = c" "P (g_store g)" "\<And>k s. counter_key k \<Longrightarrow> P s \<Longrightarrow> P (snd (g_incr c k s))"
    "\<And>k s. counter_key k \<Longrightarrow> P s \<Longrightarrow> P (g_expire c k 10 s)"
  shows "P (g_store (snd (isRateLimited env so g)))"
proof -
  obtain n1 s1 n2 s2 where s: "g_incr c (getRateLimitKey so) (g_store g) = (n1, s1)" "g_incr c globalActionCounterKey s1 = (n2, s2)"
    by (metis prod.exhaust_sel)
  have "P s2" using assms(2,3) s counter_keys by (metis snd_conv)
  then show ?thesis
    using assms(1,4) s counter_keys by (simp add: isRateLimited_def Let_def)
qed

lemma begun:
  "action_begin env so a g = Inr (x, g1) \<Longrightarrow> g1 = snd (isRateLimited env so g)"
  "action_begin env so a g = Inl (b, g1) \<Longrightarrow> g_store g1 = g_store (snd (isRateLimited env so g))"
  by (auto simp: action_begin_def split: prod.splits bool.splits option.splits if_splits)

end

section \<open>At most once\<close>

text \<open>The requests a step acts upon: the actions that get past the rate limit, the schema, the check of the
  player and the memory of requests.\<close>

fun acted :: "'r gateway_env \<times> gw_event \<Rightarrow> ('s, 'r) gateway \<Rightarrow> string list" where
  "acted (env, Action so a) g = (case action_begin env so a g of Inl _ \<Rightarrow> [] | Inr _ \<Rightarrow> [wa_actionId a])"
| "acted _ g = []"

fun acted_run :: "('r gateway_env \<times> gw_event) list \<Rightarrow> ('s, 'r) gateway \<Rightarrow> string list" where
  "acted_run [] g = []"
| "acted_run (x # xs) g = acted x g @ acted_run xs (gw_step x g)"

definition same_day :: "'r gateway_client \<Rightarrow> (string \<Rightarrow> string) \<Rightarrow> int \<Rightarrow> 'r gateway_env \<Rightarrow> bool" where
  "same_day c h t0 env \<longleftrightarrow> ge_client env = c \<and> ge_sha256 env = h
     \<and> t0 \<le> int (ge_now env) \<and> int (ge_now env) < t0 + actionRetentionMs"

definition remembers :: "'r gateway_client \<Rightarrow> (string \<Rightarrow> string) \<Rightarrow> int \<Rightarrow> string \<Rightarrow> 'r \<Rightarrow> bool" where
  "remembers c h t0 i s \<longleftrightarrow> (\<exists>t \<ge> t0. g_hget c actionHashKey (h i) s = Some (int_to_string t))"

lemma int_to_string_nonempty [simp]: "int_to_string z \<noteq> []"
  by (simp add: int_to_string_def nat_digits_props(1))

lemma remembers_repeated:
  assumes "same_day c h t0 env" "remembers c h t0 i (g_store g)"
  shows "is_repeated env i g"
  using assms by (auto simp: remembers_def same_day_def is_repeated_def hashAction_def)

context gateway_redis
begin

lemma remembers_frame: "store_frame c (remembers c h t0 i)"
  by unfold_locales (auto simp: remembers_def hget_set hget_del)

lemma limited_remembers:
  assumes "ge_client env = c" "remembers c h t0 i (g_store g)"
  shows "remembers c h t0 i (g_store (snd (isRateLimited env so g)))"
  by (rule store_frame.limited [OF remembers_frame assms])
    (auto simp: remembers_def hget_expire hget_incr counter_key_other(3) [symmetric] simp del: counter_key_other dest: counter_key_other(3))

lemma remember_remembers:
  assumes "same_day c h t0 env"
  shows "remembers c h t0 i (g_store (remember env i g))"
    and "remembers c h t0 j (g_store g) \<Longrightarrow> remembers c h t0 j (g_store (remember env i g))"
  using assms by (auto simp: remembers_def remember_def same_day_def hashAction_def hget_hset)

lemma trim_remembers:
  assumes "same_day c h t0 env" "remembers c h t0 i (g_store g)"
  shows "remembers c h t0 i (g_store (trimActionHashes env g))"
proof -
  obtain t where t: "t0 \<le> t" "g_hget c actionHashKey (h i) (g_store g) = Some (int_to_string t)"
    using assms(2) by (auto simp: remembers_def)
  let ?drop = "\<lambda>(field, ts) s. case js_number ts of
       Some n \<Rightarrow> if n < int (ge_now env) - actionRetentionMs then g_hdel c actionHashKey field s else s
     | None \<Rightarrow> s"
  have "g_hget c actionHashKey (h i) (fold ?drop xs s) = Some (int_to_string t)"
    if "set xs \<subseteq> set (g_hgetall c actionHashKey (g_store g))" "g_hget c actionHashKey (h i) s = Some (int_to_string t)" for xs s
    using that
  proof (induction xs arbitrary: s)
    case (Cons x xs)
    obtain f v where x: "x = (f, v)" by (cases x)
    then have "g_hget c actionHashKey f (g_store g) = Some v" using Cons.prems(1) by (auto intro: hgetall)
    then have "g_hget c actionHashKey (h i) (?drop x s) = Some (int_to_string t)"
      using Cons.prems(2) t assms(1) x by (auto simp: hget_hdel same_day_def split: option.splits)
    then show ?case using Cons by simp
  qed simp
  then show ?thesis
    using t assms(1) by (auto simp: remembers_def trimActionHashes_def same_day_def Let_def)
qed

lemma acknowledge_remembers:
  assumes "same_day c h t0 env" "remembers c h t0 i (g_store g)"
  shows "remembers c h t0 i (g_store (acknowledge env ev sid j g))"
  using assms(2) by (auto simp: acknowledge_def intro: remember_remembers(2) [OF assms(1)])

lemma step_remembers:
  assumes "same_day c h t0 env" "remembers c h t0 i (g_store g)"
  shows "remembers c h t0 i (g_store (gw_step (env, ev) g))"
proof -
  have c: "ge_client env = c" using assms(1) by (simp add: same_day_def)
  note lim = limited_remembers [OF c assms(2)]
  show ?thesis
  proof (cases ev)
    case (Action so a)
    show ?thesis
    proof (cases "action_begin env so a g")
      case (Inl r)
      then show ?thesis
        using Action lim [of so] store_frame.begun(2) [OF remembers_frame, of env so a g "fst r" "snd r"] by (simp add: handleAction_def)
    next
      case (Inr r)
      then have "snd r = snd (isRateLimited env so g)"
        using store_frame.begun(1) [OF remembers_frame, of env so a g "fst r" "snd r"] by simp
      then show ?thesis
        using Action Inr lim [of so]
        by (auto simp: handleAction_def intro!: store_frame.finished [OF remembers_frame c] intro: remember_remembers(2) [OF assms(1)]
            split: prod.splits)
    qed
  next
    case (Simple e so j)
    then show ?thesis
      using lim [of so] by (auto simp: handle_simple_def intro: acknowledge_remembers [OF assms(1)] split: prod.splits bool.splits)
  qed (use assms lim in \<open>auto intro: trim_remembers store_frame.ticked [OF remembers_frame c]\<close>)
qed

lemma acted_remembers:
  assumes "same_day c h t0 env"
  shows "i \<in> set (acted (env, ev) g) \<Longrightarrow> remembers c h t0 i (g_store (gw_step (env, ev) g))"
    and "i \<in> set (acted (env, ev) g) \<Longrightarrow> \<not> remembers c h t0 i (g_store g)"
proof -
  have c: "ge_client env = c" using assms by (simp add: same_day_def)
  assume i: "i \<in> set (acted (env, ev) g)"
  then obtain so a x where a: "ev = Action so a" "wa_actionId a = i" "action_begin env so a g = Inr x"
    by (cases ev) (auto split: sum.splits dest: sym)
  show "remembers c h t0 i (g_store (gw_step (env, ev) g))"
    using a by (auto simp: handleAction_def intro!: store_frame.finished [OF remembers_frame c] remember_remembers(1) [OF assms]
        split: prod.splits)
  have "\<not> is_repeated env i (snd (isRateLimited env so g))"
    using a by (auto simp: action_begin_def split: prod.splits bool.splits option.splits if_splits)
  then show "\<not> remembers c h t0 i (g_store g)"
    by (blast intro: remembers_repeated [OF assms] limited_remembers [OF c])
qed

lemma run_remembers:
  assumes "\<forall>x\<in>set run. same_day c h t0 (fst x)"
  shows "distinct (acted_run run g) \<and> (\<forall>i. remembers c h t0 i (g_store g) \<longrightarrow> i \<notin> set (acted_run run g))"
  using assms
proof (induction run arbitrary: g)
  case (Cons x run)
  obtain env ev where x: "x = (env, ev)" by (cases x)
  have day: "same_day c h t0 env" using Cons.prems x by simp
  let ?g = "gw_step x g"
  have IH: "distinct (acted_run run ?g)" "\<And>i. remembers c h t0 i (g_store ?g) \<Longrightarrow> i \<notin> set (acted_run run ?g)"
    using Cons by auto
  have "distinct (acted x g)" using x by (cases ev) (auto split: sum.splits)
  moreover have "set (acted x g) \<inter> set (acted_run run ?g) = {}"
    using IH(2) acted_remembers(1) [OF day] x by auto
  moreover have "i \<notin> set (acted_run (x # run) g)" if "remembers c h t0 i (g_store g)" for i
    using step_remembers [OF day that] acted_remembers(2) [OF day, of i ev g] that IH(2) x by auto
  ultimately show ?case using IH(1) by auto
qed simp

end

interpretation memory_frame: store_frame mock_gateway_client "remembers mock_gateway_client h t0 i" for h t0 i
  by (rule mock_gateway.remembers_frame)

text \<open>Engines are touched by the actions acted upon and by new sessions only.\<close>

lemma timeout_engines [simp]: "g_engines (handleTimeout env p tb answer g) = g_engines g"
  by (simp add: handleTimeout_def Let_def split: option.splits)

lemma tick_engines [simp]:
  fixes g :: "('s, 'r) gateway"
  shows "g_engines (gateway_tick env answers g) = g_engines g"
proof -
  have "g_engines (fold (\<lambda>(p, tb). handleTimeout env p tb (answers (p, tb))) xs h) = g_engines h" for xs and h :: "('s, 'r) gateway"
    by (induction xs arbitrary: h) auto
  then show ?thesis by (simp add: gateway_tick_def split: prod.splits)
qed

lemma simple_engines [simp]: "g_engines (handle_simple env ev so i g) = g_engines g"
  by (auto simp: handle_simple_def acknowledge_def isRateLimited_engines split: prod.splits bool.splits)

lemma begin_engines:
  "action_begin env so a g = Inl r \<Longrightarrow> g_engines (snd r) = g_engines g"
  "action_begin env so a g = Inr (x, g1) \<Longrightarrow> g1 = snd (isRateLimited env so g) \<and> \<not> mismatch so (snd x) g
     \<and> GameActionSchema_parse a = Some x"
proof -
  have m: "mismatch so y (snd (isRateLimited env so g)) = mismatch so y g" for y
    by (simp add: mismatch_def split: option.splits)
  show "action_begin env so a g = Inl r \<Longrightarrow> g_engines (snd r) = g_engines g"
    by (auto simp: action_begin_def isRateLimited_engines split: prod.splits bool.splits option.splits if_splits)
  show "action_begin env so a g = Inr (x, g1) \<Longrightarrow> g1 = snd (isRateLimited env so g) \<and> \<not> mismatch so (snd x) g
     \<and> GameActionSchema_parse a = Some x"
    using m by (auto simp: action_begin_def split: prod.splits bool.splits option.splits if_splits)
qed

definition is_session :: "gw_event \<Rightarrow> bool" where
  "is_session ev = (case ev of StartSession _ _ _ _ \<Rightarrow> True | _ \<Rightarrow> False)"

lemma idle_engines:
  assumes "acted (env, ev) g = []" "\<not> is_session ev"
  shows "g_engines (gw_step (env, ev) g) = g_engines g"
  using assms begin_engines(1) by (cases ev) (auto simp: handleAction_def is_session_def split: sum.splits)

text \<open>A gateway for the witnesses: one table with the engine of the demonstration table, two sockets.\<close>

definition demo_gateway_env :: "nat \<Rightarrow> mock_gateway gateway_env" where
  "demo_gateway_env now =
     \<lparr>ge_client = mock_gateway_client, ge_sha256 = id, ge_sha_array = (\<lambda>_. replicate 32 0), ge_now = now, ge_hrtime = now,
      ge_hands = False, ge_server = True, ge_flag = (\<lambda>_. None), ge_roomFlag = (\<lambda>_ _. None), ge_queueLimit = 100,
      ge_globalLimit = 1000, ge_actionTimeoutMs = 30000\<rparr>"

definition demo_socket :: "string \<Rightarrow> socket" where
  "demo_socket p =
     \<lparr>so_id = p, so_dataUser = Some p, so_dataPlayer = Some p, so_remoteAddress = None,
      so_handshake = \<lparr>hs_userId = None, hs_playerId = None, hs_queryPlayer = None, hs_forwardedFor = None, hs_address = None\<rparr>\<rparr>"

definition demo_gateway :: "(mock_redis, mock_gateway) gateway" where
  "demo_gateway =
     \<lparr>g_states = [], g_lastSnapshot = [], g_tick = 0, g_engines = [(''t'', eng demo_world)],
      g_socketPlayers = [(''p1'', ''p1''), (''p2'', ''p2'')], g_queues = [], g_frames = [], g_timers = [], g_hands = [],
      g_snapshots = [], g_emitted = [], g_roomEmits = [], g_roomFolds = [], g_bank = demo_wallet, g_store = ([], [])\<rparr>"

definition blind_request :: "string \<Rightarrow> rat \<Rightarrow> wire_action" where
  "blind_request i n = \<lparr>wa_type = ''postBlind'', wa_tableId = Some ''t'', wa_playerId = Some ''p1'', wa_amount = Some n, wa_actionId = i\<rparr>"

lemmas demo_gateway_defs =
  demo_gateway_env_def demo_socket_def demo_gateway_def blind_request_def mock_gateway_client_def mock_count_def

section \<open>Properties\<close>


definition demo_requests :: "(mock_gateway gateway_env \<times> gw_event) list" where
  "demo_requests =
     [(demo_gateway_env 10, Action (demo_socket ''p1'') (blind_request ''a'' 1)),
      (demo_gateway_env 20, Trim),
      (demo_gateway_env 30, Action (demo_socket ''p1'') (blind_request ''a'' 1))]"

lemma demo_blind_begins:
  "\<exists>x g. action_begin (demo_gateway_env 10) (demo_socket ''p1'') (blind_request ''a'' 1) demo_gateway = Inr (x, g)"
  by (simp add: action_begin_def isRateLimited_def getRateLimitKey_def globalActionCounterKey_def first_some_def
      GameActionSchema_parse_def player_action_def with_amount_def positive_int_def mismatch_def is_repeated_def
      demo_gateway_defs Let_def)


text \<open>The rate limiter does not change what the store remembers of requests.\<close>

lemma limited_repeated:
  assumes "gateway_redis (ge_client env)"
  shows "is_repeated env i (snd (isRateLimited env so g)) = is_repeated env i g"
proof -
  let ?c = "ge_client env"
  have "g_hget ?c actionHashKey f (g_store (snd (isRateLimited env so g))) = g_hget ?c actionHashKey f (g_store g)" for f
  proof (rule store_frame.limited)
    show "store_frame ?c (\<lambda>s. g_hget ?c actionHashKey f s = g_hget ?c actionHashKey f (g_store g))"
      by unfold_locales (simp_all add: gateway_redis.hget_set [OF assms] gateway_redis.hget_del [OF assms])
  qed (auto simp: gateway_redis.hget_expire [OF assms] gateway_redis.hget_incr [OF assms] dest: counter_key_other(3))
  then show ?thesis by (simp add: is_repeated_def)
qed

lemma begin_Inr_iff:
  assumes "gateway_redis (ge_client env)"
  shows "action_begin env so a g = Inr (x, g1) \<longleftrightarrow>
    isRateLimited env so g = (False, g1) \<and> GameActionSchema_parse a = Some x \<and> \<not> mismatch so (snd x) g
    \<and> \<not> is_repeated env (wa_actionId a) g"
proof -
  obtain b h where r: "isRateLimited env so g = (b, h)" by (cases "isRateLimited env so g")
  have m: "mismatch so y h = mismatch so y g" for y
    using isRateLimited_frame(5) [of env so g] r by (simp add: mismatch_def split: option.splits)
  have i: "is_repeated env (wa_actionId a) h = is_repeated env (wa_actionId a) g"
    using limited_repeated [OF assms, of "wa_actionId a" so g] r by simp
  show ?thesis
    unfolding action_begin_def r prod.case m i by (cases b; cases "GameActionSchema_parse a") (auto split: prod.splits)
qed

text \<open>the check for repeated requests races. When a client sends the same request twice and the second
  copy reaches the store before the first has been recorded, the second is let through as well, unless the rate limit
  stops it: \<open>hget\<close> and \<open>hset\<close> are separate commands. The witness posts the same blind twice.\<close>

theorem duplicate_race:
  assumes "gateway_redis (ge_client env)" "action_begin env so a g = Inr (x, g1)" "\<not> fst (isRateLimited env so g1)"
  shows "\<exists>g2. action_begin env so a g1 = Inr (x, g2) \<and> g_engines g2 = g_engines g"
proof -
  have g1: "g1 = snd (isRateLimited env so g)" using begin_engines(2) [OF assms(2)] by simp
  have "\<not> is_repeated env (wa_actionId a) g1" "\<not> mismatch so (snd x) g1" "GameActionSchema_parse a = Some x"
    using assms(2) limited_repeated [OF assms(1)] unfolding g1
    by (auto simp: begin_Inr_iff [OF assms(1)] mismatch_def split: option.splits)
  then have "action_begin env so a g1 = Inr (x, snd (isRateLimited env so g1))"
    using assms(3) by (subst begin_Inr_iff [OF assms(1)]) (metis prod.collapse)
  then show ?thesis unfolding g1 by simp
qed

definition table_stacks :: "('s, 'r) gateway \<Rightarrow> int list" where
  "table_stacks g = concat (map (\<lambda>(_, e). map stack (players (estate e))) (g_engines g))"

theorem duplicate_race_witness:
  "\<exists>x g1 g2. action_begin (demo_gateway_env 10) (demo_socket ''p1'') (blind_request ''a'' 1) demo_gateway = Inr (x, g1)
     \<and> action_begin (demo_gateway_env 10) (demo_socket ''p1'') (blind_request ''a'' 1) g1 = Inr (x, g2)
     \<and> table_stacks (action_finish (demo_gateway_env 10) (demo_socket ''p1'') ''a'' x
          (action_finish (demo_gateway_env 10) (demo_socket ''p1'') ''a'' x g2)) = [98, 100]"
proof -
  let ?env = "demo_gateway_env 10" and ?so = "demo_socket ''p1''" and ?a = "blind_request ''a'' 1"
  obtain x g1 where b: "action_begin ?env ?so ?a demo_gateway = Inr (x, g1)" using demo_blind_begins by blast
  have x: "x = (''t'', PostBlind ''p1'' 1)"
    using begin_engines(2) [OF b]
    by (simp add: GameActionSchema_parse_def player_action_def with_amount_def positive_int_def blind_request_def)
  have "\<not> fst (isRateLimited ?env ?so g1)"
    using begin_engines(2) [OF b]
    by (simp add: isRateLimited_def getRateLimitKey_def globalActionCounterKey_def first_some_def demo_gateway_defs Let_def)
  with duplicate_race [OF _ b] obtain g2 where g2: "action_begin ?env ?so ?a g1 = Inr (x, g2)" "g_engines g2 = g_engines demo_gateway"
    using mock_gateway.gateway_redis_axioms by (auto simp: demo_gateway_env_def)
  have "table_stacks (action_finish ?env ?so ''a'' x (action_finish ?env ?so ''a'' x g2)) = [98, 100]"
    unfolding x
    by (simp add: action_finish_def action_checked_def switched_off_def table_stacks_def g2(2)
        action_applied_def engine_world_def gateway_engine_env_def
        demo_gateway_env_def demo_gateway_def demo_world_def applyAction_def engine_step_def step_machine_def force_showdown_def
        new_machine_def new_player_def machine_apply_def apply_blinds_def findPlayer_def or_fail_def placeBet_def
        upt_rec activePlayers_def Let_def)
  then show ?thesis using b g2(1) by blast
qed


definition check_request :: wire_action where
  "check_request = (blind_request ''a'' 1)\<lparr>wa_type := ''check''\<rparr>"

lemmas demo_eval =
  action_finish_def action_checked_def switched_off_def action_applied_def engine_world_def gateway_engine_env_def
  demo_world_def applyAction_def engine_step_def step_machine_def force_showdown_def new_machine_def new_player_def machine_apply_def
  apply_blinds_def findPlayer_def or_fail_def placeBet_def upt_rec activePlayers_def Let_def


text \<open>What a handler that changes an engine has done.\<close>

lemma applied_engines [simp]:
  "g_engines (action_applied env sid i tb acting st t g) = AList.update tb (eng t) (g_engines g)"
  "g_tick (action_applied env sid i tb acting st t g) = Suc (g_tick g)"
  by (simp_all add: action_applied_def Let_def split: option.splits)

lemma checked_engines:
  assumes "g_engines (action_checked env sid i tb action g) \<noteq> g_engines g"
  shows "\<exists>e st t. map_of (g_engines g) tb = Some e \<and> applyAction (gateway_engine_env env) action (engine_world e g) = (Inr st, t)
     \<and> action_checked env sid i tb action g = action_applied env sid i tb (acting_player action) st t g"
  using assms by (auto simp: action_checked_def split: option.splits sum.splits prod.splits if_splits)

lemma isRateLimited_passes:
  assumes "isRateLimited env so g = (False, g1)"
  shows "\<exists>s. g1 = g\<lparr>g_store := s\<rparr>"
  using assms by (auto simp: isRateLimited_def Let_def split: prod.splits if_splits)

lemma begin_passes:
  assumes "action_begin env so a g = Inr (x, g1)"
  shows "\<exists>s. g1 = g\<lparr>g_store := s\<rparr>"
  using assms isRateLimited_passes [of env so g]
  by (fastforce simp: action_begin_def split: prod.splits bool.splits option.splits if_splits)

text \<open>The state in which an action reaches the engine differs from the one the handler met in the store and in
  the acting player's timer.\<close>

lemma handled_by_check:
  assumes "action_begin env so a g = Inr ((tb, action), g1)"
  shows "\<exists>s. handleAction env so a g = (False, action_checked env (so_id so) (wa_actionId a) tb action
      (g\<lparr>g_store := s, g_timers := (case acting_player action of None \<Rightarrow> g_timers g | Some p \<Rightarrow> clearTimer p tb (g_timers g))\<rparr>))"
  using assms begin_passes [OF assms]
  by (auto simp: handleAction_def action_finish_def remember_def split: option.splits)

lemma action_applies:
  assumes "handleAction env so a g = (thrown, g')" "g_engines g' \<noteq> g_engines g"
  obtains tb action e st t s where "GameActionSchema_parse a = Some (tb, action)" "\<not> mismatch so action g"
    "map_of (g_engines g) tb = Some e" "applyAction (gateway_engine_env env) action (engine_world e g) = (Inr st, t)"
    "g' = action_applied env (so_id so) (wa_actionId a) tb (acting_player action) st t
       (g\<lparr>g_store := s, g_timers := (case acting_player action of None \<Rightarrow> g_timers g | Some p \<Rightarrow> clearTimer p tb (g_timers g))\<rparr>)"
proof -
  obtain x g1 where b: "action_begin env so a g = Inr (x, g1)"
    using assms begin_engines(1) [of env so a g] by (fastforce simp: handleAction_def split: sum.splits)
  obtain tb action where x: "x = (tb, action)" by (cases x)
  note b' = begin_engines(2) [OF b, unfolded x]
  obtain s where s: "g' = action_checked env (so_id so) (wa_actionId a) tb action
      (g\<lparr>g_store := s, g_timers := (case acting_player action of None \<Rightarrow> g_timers g | Some p \<Rightarrow> clearTimer p tb (g_timers g))\<rparr>)"
    using handled_by_check [OF b [unfolded x]] assms(1) by auto
  then have "g_engines g' \<noteq> g_engines (g\<lparr>g_store := s, g_timers := (case acting_player action of None \<Rightarrow> g_timers g
      | Some p \<Rightarrow> clearTimer p tb (g_timers g))\<rparr>)"
    using assms(2) by simp
  from checked_engines [OF this [unfolded s]] show thesis
    using that b' unfolding s [symmetric] by (auto simp: engine_world_def)
qed

text \<open>C14: the gateway refines the engine. A request changes the engines only if it names no player or the player
  registered for its socket, and then it does to the engine of its table what the engine's own \<open>applyAction\<close> does, accepted,
  and nothing to the other tables; the tick goes up by one.\<close>

theorem action_refines_engine:
  assumes "handleAction env so a g = (thrown, g')" "g_engines g' \<noteq> g_engines g"
  shows "\<exists>tb action e st t. GameActionSchema_parse a = Some (tb, action)
     \<and> acting_player action \<in> {None, map_of (g_socketPlayers g) (so_id so)}
     \<and> map_of (g_engines g) tb = Some e
     \<and> applyAction (gateway_engine_env env) action \<lparr>eng = e, bank = g_bank g, hands = g_hands g, published = []\<rparr> = (Inr st, t)
     \<and> g_engines g' = AList.update tb (eng t) (g_engines g) \<and> g_tick g' = Suc (g_tick g)"
  using assms
  by (rule action_applies) (auto simp: engine_world_def mismatch_def split: option.splits)

text \<open>The first blind of the demonstration table is accepted.\<close>

lemma demo_blind_accepted:
  obtains g' st t s where
    "handleAction (demo_gateway_env 10) (demo_socket ''p1'') (blind_request ''a'' 1) demo_gateway = (False, g')"
    "g' = action_applied (demo_gateway_env 10) ''p1'' ''a'' ''t'' (Some ''p1'') st t (demo_gateway\<lparr>g_store := s, g_timers := []\<rparr>)"
    "map stack (players (estate (eng t))) = [99, 100]" "phase (estate (eng t)) = WAIT_BLINDS"
    "phase st = WAIT_BLINDS" "g_engines g' \<noteq> g_engines demo_gateway"
proof -
  let ?env = "demo_gateway_env 10" and ?so = "demo_socket ''p1''" and ?a = "blind_request ''a'' 1"
  obtain x g1 where b: "action_begin ?env ?so ?a demo_gateway = Inr (x, g1)" using demo_blind_begins by blast
  have x: "x = (''t'', PostBlind ''p1'' 1)"
    using begin_engines(2) [OF b]
    by (simp add: GameActionSchema_parse_def player_action_def with_amount_def positive_int_def blind_request_def)
  obtain s where h: "handleAction ?env ?so ?a demo_gateway
      = (False, action_checked ?env ''p1'' ''a'' ''t'' (PostBlind ''p1'' 1) (demo_gateway\<lparr>g_store := s, g_timers := []\<rparr>))"
    using handled_by_check [OF b [unfolded x]]
    by (auto simp: clearTimer_def demo_gateway_def demo_socket_def blind_request_def)
  obtain st t where c: "action_checked ?env ''p1'' ''a'' ''t'' (PostBlind ''p1'' 1) (demo_gateway\<lparr>g_store := s, g_timers := []\<rparr>)
      = action_applied ?env ''p1'' ''a'' ''t'' (Some ''p1'') st t (demo_gateway\<lparr>g_store := s, g_timers := []\<rparr>)"
    and t: "map stack (players (estate (eng t))) = [99, 100]" "phase (estate (eng t)) = WAIT_BLINDS" "phase st = WAIT_BLINDS"
    by (simp add: action_checked_def switched_off_def engine_world_def gateway_engine_env_def demo_world_def applyAction_def engine_step_def
        step_machine_def force_showdown_def new_machine_def new_player_def machine_apply_def apply_blinds_def findPlayer_def or_fail_def
        placeBet_def upt_rec activePlayers_def demo_gateway_env_def demo_gateway_def Let_def)
  have "g_engines (snd (handleAction ?env ?so ?a demo_gateway)) \<noteq> g_engines demo_gateway"
    unfolding h c using t by (auto simp: demo_gateway_def demo_world_def new_machine_def new_player_def)
  then show thesis using that h c t by auto
qed

theorem action_refines_engine_witness:
  "\<exists>g'. handleAction (demo_gateway_env 10) (demo_socket ''p1'') (blind_request ''a'' 1) demo_gateway = (False, g')
     \<and> table_stacks g' = [99, 100] \<and> g_tick g' = 1"
proof -
  obtain g' st t s where g':
    "handleAction (demo_gateway_env 10) (demo_socket ''p1'') (blind_request ''a'' 1) demo_gateway = (False, g')"
    "g' = action_applied (demo_gateway_env 10) ''p1'' ''a'' ''t'' (Some ''p1'') st t (demo_gateway\<lparr>g_store := s, g_timers := []\<rparr>)"
    "map stack (players (estate (eng t))) = [99, 100]" "g_engines g' \<noteq> g_engines demo_gateway"
    by (rule demo_blind_accepted)
  have "g_tick g' = 1" using action_refines_engine [OF g'(1,4)] by (auto simp: demo_gateway_def)
  moreover have "table_stacks g' = [99, 100]" using g'(2,3) by (simp add: table_stacks_def demo_gateway_def)
  ultimately show ?thesis using g'(1) by blast
qed

end
