(* ===== verification/GatewayRuns.thy ===== *)
theory GatewayRuns
  imports GatewayProps
begin

text \<open>
  The gateway over time: the clock and the player it watches, the retransmission of frames, what reaches which
  socket over any run, the rate limit over any run, and what a restart finds again.
\<close>

section \<open>The clock\<close>

lemma applied_timers [simp]:
  "g_timers (action_applied env sid i tb acting st t g) =
     (case acting of
        None \<Rightarrow> g_timers g
      | Some p \<Rightarrow> if phase st = NEXT_HAND then g_timers g
                  else setTimer (ge_hrtime env) (ge_actionTimeoutMs env) p tb (g_timers g))"
  by (simp add: action_applied_def Let_def split: option.splits)

lemma cache_state_folds [simp]:
  "g_roomFolds (cache_state env tb st g) = g_roomFolds g" "g_roomFolds (forget_state env tb g) = g_roomFolds g"
  "g_roomFolds (enqueue env sid m cr g) = g_roomFolds g"
  by (simp_all add: cache_state_def maybeSnapshot_def forget_state_def enqueue_def emit_now_def Let_def)

lemma applied_folds [simp]: "g_roomFolds (action_applied env sid i tb acting st t g) = g_roomFolds g"
  by (simp add: action_applied_def Let_def split: option.splits)

lemma timeout_folds [simp]: "g_roomFolds (handleTimeout env p tb answer g) = g_roomFolds g @ [(tb, p)]"
  by (simp add: handleTimeout_def Let_def split: option.splits)

lemma tick_folds:
  fixes g :: "('s, 'r) gateway"
  shows "g_roomFolds (gateway_tick env answers g)
    = g_roomFolds g @ map (\<lambda>(p, tb). (tb, p)) (fst (clock_tick (ge_hrtime env) (g_timers g)))"
proof -
  have "g_roomFolds (fold (\<lambda>(p, tb). handleTimeout env p tb (answers (p, tb))) xs h) = g_roomFolds h @ map (\<lambda>(p, tb). (tb, p)) xs"
    for xs and h :: "('s, 'r) gateway"
    by (induction xs arbitrary: h) auto
  then show ?thesis by (simp add: gateway_tick_def split: prod.splits)
qed

lemma applyAction_state:
  assumes "applyAction env a t = (Inr st, t')"
  shows "estate (eng t') = st"
proof -
  obtain e s where e: "st = estate e" "t' = (if s then snd (settle_rest env (t\<lparr>eng := e\<rparr>)) else t\<lparr>eng := e\<rparr>)"
    using assms by (auto simp: applyAction_def Let_def split: sum.splits)
  then have "same_game e (eng t')"
    using settle_rest_same [of e env] by (auto simp: keeps_def)
  then show ?thesis using e(1) by (simp add: same_game_def)
qed

text \<open>the clock watches the player who has just acted. After an accepted action of a player that does not end the
  hand, the only timer of the gateway that differs is the one of this same player, started anew: nothing is started for the
  player whose turn it is. And when timers run out, the fold is asked of the room's worker, which plays a game of
  its own: no engine of the gateway changes, whatever the timers.\<close>

theorem clock_watches_actor:
  assumes "handleAction env so a g = (thrown, g')" "g_engines g' \<noteq> g_engines g"
    and "GameActionSchema_parse a = Some (tb, action)" "acting_player action = Some p"
    and "map_of (g_engines g') tb = Some e'" "phase (estate e') \<noteq> NEXT_HAND"
  shows "map_of (g_timers g') = (map_of (g_timers g))
       (timer_key p tb \<mapsto> \<lparr>tm_deadline = ge_hrtime env + ge_actionTimeoutMs env * 1000000, tm_player = p, tm_table = tb\<rparr>)
     \<and> g_engines (gateway_tick env' answers g') = g_engines g'
     \<and> g_roomFolds (gateway_tick env' answers g')
         = g_roomFolds g' @ map (\<lambda>(p, tb). (tb, p)) (fst (clock_tick (ge_hrtime env') (g_timers g')))"
proof -
  from assms(1,2) obtain e st t s where a: "applyAction (gateway_engine_env env) action (engine_world e g) = (Inr st, t)"
    "g' = action_applied env (so_id so) (wa_actionId a) tb (Some p) st t
       (g\<lparr>g_store := s, g_timers := clearTimer p tb (g_timers g)\<rparr>)"
    by (rule action_applies) (use assms(3,4) in auto)
  have "e' = eng t" using a(2) assms(5) by (simp add: update_conv')
  then have "phase st \<noteq> NEXT_HAND" using applyAction_state [OF a(1)] assms(6) by simp
  then have "map_of (g_timers g') = (map_of (g_timers g))
       (timer_key p tb \<mapsto> \<lparr>tm_deadline = ge_hrtime env + ge_actionTimeoutMs env * 1000000, tm_player = p, tm_table = tb\<rparr>)"
    by (simp add: a(2) setTimer_def clearTimer_def update_conv' delete_conv')
  then show ?thesis by (simp add: tick_folds)
qed

text \<open>The first blind of the demonstration table is accepted; 30 seconds later the room is asked to fold for its player.\<close>

theorem clock_watches_actor_witness:
  "\<exists>g'. handleAction (demo_gateway_env 10) (demo_socket ''p1'') (blind_request ''a'' 1) demo_gateway = (False, g')
     \<and> map fst (g_timers g') = [''t:p1'']
     \<and> g_roomFolds (gateway_tick (demo_gateway_env 30000000010) (\<lambda>_. None) g') = [(''t'', ''p1'')]
     \<and> g_engines (gateway_tick (demo_gateway_env 30000000010) (\<lambda>_. None) g') = g_engines g'"
proof -
  obtain g' st t s where g':
    "handleAction (demo_gateway_env 10) (demo_socket ''p1'') (blind_request ''a'' 1) demo_gateway = (False, g')"
    "g' = action_applied (demo_gateway_env 10) ''p1'' ''a'' ''t'' (Some ''p1'') st t (demo_gateway\<lparr>g_store := s, g_timers := []\<rparr>)"
    "phase (estate (eng t)) = WAIT_BLINDS" "phase st = WAIT_BLINDS" "g_engines g' \<noteq> g_engines demo_gateway"
    by (rule demo_blind_accepted)
  have e: "map_of (g_engines g') ''t'' = Some (eng t)" using g'(2) by (simp add: update_conv')
  have p: "GameActionSchema_parse (blind_request ''a'' 1) = Some (''t'', PostBlind ''p1'' 1)"
    by (simp add: GameActionSchema_parse_def player_action_def with_amount_def positive_int_def blind_request_def)
  note c = clock_watches_actor [OF g'(1,5) p _ e, of "''p1''"]
  have "acting_player (PostBlind ''p1'' 1) = Some ''p1''" by simp
  note c = c [OF this, unfolded g'(3)]
  have "g_timers g' = [(''t:p1'', \<lparr>tm_deadline = 30000000010, tm_player = ''p1'', tm_table = ''t''\<rparr>)]"
    using g'(2,4) by (simp add: setTimer_def timer_key_def demo_gateway_env_def)
  moreover from this have "fst (clock_tick (ge_hrtime (demo_gateway_env 30000000010)) (g_timers g')) = [(''p1'', ''t'')]"
    by (simp add: clock_tick_def demo_gateway_env_def)
  moreover have "g_roomFolds g' = []" using g'(2) by (simp add: demo_gateway_def)
  ultimately show ?thesis
    using c [of "demo_gateway_env 30000000010" "\<lambda>_. None"] g'(1) by auto
qed

section \<open>Frames\<close>

lemma frames_of_simps [simp]:
  "frames_of sid (set_frames sid fs g) = fs" "frames_of sid (emit_now sid' m g) = frames_of sid g"
  by (simp_all add: frames_of_def set_frames_def update_conv')

lemma emitted_simps [simp]:
  "g_emitted (set_frames sid fs g) = g_emitted g" "g_emitted (emit_now sid m g) = g_emitted g @ [(sid, m)]"
  by (simp_all add: set_frames_def emit_now_def)

lemma retry_gone: "map_of (frames_of sid g) f = None \<Longrightarrow> (frame_timeout sid f ^^ n) g = g"
  by (induction n) (simp_all add: frame_timeout_def)

lemma retry_attempts:
  assumes "map_of (frames_of sid g) f = Some fr" "fr_attempt fr < maxFrameAttempts"
  shows "let h = (frame_timeout sid f ^^ n) g; left = maxFrameAttempts - fr_attempt fr
     in g_emitted h = g_emitted g @ replicate (min n left) (sid, fr_msg fr)
        \<and> map_of (frames_of sid h) f = (if n < left then Some (fr\<lparr>fr_attempt := fr_attempt fr + n\<rparr>) else None)"
proof (induction n)
  case 0
  then show ?case using assms by (simp add: Let_def)
next
  case (Suc n)
  define h where "h = (frame_timeout sid f ^^ n) g"
  note IH = Suc [folded h_def, unfolded Let_def]
  have "g_emitted (frame_timeout sid f h) = g_emitted g @ replicate (min (Suc n) (maxFrameAttempts - fr_attempt fr)) (sid, fr_msg fr)"
    using IH by (cases "n < maxFrameAttempts - fr_attempt fr")
      (auto simp: frame_timeout_def Let_def min_def replicate_append_same)
  moreover have "map_of (frames_of sid (frame_timeout sid f h)) f =
      (if Suc n < maxFrameAttempts - fr_attempt fr then Some (fr\<lparr>fr_attempt := fr_attempt fr + Suc n\<rparr>) else None)"
    using IH by (cases "n < maxFrameAttempts - fr_attempt fr")
      (auto simp: frame_timeout_def Let_def update_conv' delete_conv')
  ultimately show ?case by (simp add: h_def Let_def)
qed

text \<open>a frame is sent at most five times and never after its acknowledgement. When a critical message comes to
  the head of a socket's queue it is sent, each expiry of its timer sends it once more until it has been sent five times, and after the
  client has acknowledged the frame further expiries send nothing.\<close>

theorem frame_retries:
  assumes "queue_of sid g = \<lparr>q_msg = m, q_critical = True\<rparr> # rest"
  shows "let g1 = send_next f sid g; gn = (frame_timeout sid f ^^ n) g1
     in g_emitted gn = g_emitted g @ replicate (1 + min n 4) (sid, m)
        \<and> g_emitted ((frame_timeout sid f ^^ k) (handleFrameAck sid f gn)) = g_emitted gn"
proof -
  define g1 where "g1 = send_next f sid g"
  define gn where "gn = (frame_timeout sid f ^^ n) g1"
  have g1: "map_of (frames_of sid g1) f = Some \<lparr>fr_msg = m, fr_attempt = 1\<rparr>" "g_emitted g1 = g_emitted g @ [(sid, m)]"
    using assms by (simp_all add: g1_def send_next_def trackFrame_def update_conv' Let_def)
  have "g_emitted gn = g_emitted g1 @ replicate (min n 4) (sid, m)"
    using retry_attempts [OF g1(1), of n] by (simp add: gn_def maxFrameAttempts_def Let_def)
  moreover have "map_of (frames_of sid (handleFrameAck sid f gn)) f = None"
    by (auto simp: handleFrameAck_def delete_conv')
  moreover have "g_emitted (handleFrameAck sid f gn) = g_emitted gn" by (simp add: handleFrameAck_def)
  ultimately show ?thesis
    using g1(2) by (simp add: g1_def [symmetric] gn_def [symmetric] retry_gone Let_def)
qed

theorem frame_retries_witness:
  "let g = enqueue (demo_gateway_env 10) ''p1'' (ProofMsg ''c'' ''s'' ''n'') True demo_gateway
   in g_emitted ((frame_timeout ''p1'' ''f'' ^^ 7) (send_next ''f'' ''p1'' g)) = replicate 5 (''p1'', ProofMsg ''c'' ''s'' ''n'')"
proof -
  let ?g = "enqueue (demo_gateway_env 10) ''p1'' (ProofMsg ''c'' ''s'' ''n'') True demo_gateway"
  have "queue_of ''p1'' ?g = [\<lparr>q_msg = ProofMsg ''c'' ''s'' ''n'', q_critical = True\<rparr>]" "g_emitted ?g = []"
    by (simp_all add: enqueue_def queue_of_def demo_gateway_def demo_gateway_env_def)
  with frame_retries [of "''p1''" ?g _ _ "''f''" 7] show ?thesis by (simp add: Let_def)
qed

section \<open>Who sees what\<close>

definition shows_only :: "string option \<Rightarrow> public_state \<Rightarrow> bool" where
  "shows_only who st \<longleftrightarrow> (\<forall>p\<in>set (ps_players st). pp_holeCards p \<noteq> None \<longrightarrow> who = Some (pp_id p))"

definition msg_private :: "string option \<Rightarrow> gw_msg \<Rightarrow> bool" where
  "msg_private who m = (case m of StateMsg st _ \<Rightarrow> shows_only who st | _ \<Rightarrow> True)"

text \<open>\<open>owner sid\<close> is the player a socket belongs to. Everything that is on its way to a socket, waits for its
  acknowledgement or has been sent shows no cards but its owner's, and what goes to a room shows no cards.\<close>

definition private_inv :: "(string \<Rightarrow> string option) \<Rightarrow> ('s, 'r) gateway \<Rightarrow> bool" where
  "private_inv owner g \<longleftrightarrow>
     (\<forall>sid p. map_of (g_socketPlayers g) sid = Some p \<longrightarrow> owner sid = Some p)
   \<and> (\<forall>sid. \<forall>t\<in>set (queue_of sid g). msg_private (owner sid) (q_msg t))
   \<and> (\<forall>sid f fr. map_of (frames_of sid g) f = Some fr \<longrightarrow> msg_private (owner sid) (fr_msg fr))
   \<and> (\<forall>(sid, m)\<in>set (g_emitted g). msg_private (owner sid) m)
   \<and> (\<forall>(tb, st, tk)\<in>set (g_roomEmits g). shows_only None st)"

lemma sanitize_shows: "shows_only who (sanitize st who)"
  by (auto simp: shows_only_def sanitize_def public_of_def split: if_splits)

lemma sanitize_none_shows: "shows_only who (sanitize st None)" "shows_only who (sanitize_public st')"
  by (auto simp: shows_only_def sanitize_def sanitize_public_def public_of_def)

lemma private_emit: "private_inv owner g \<Longrightarrow> msg_private (owner sid) m \<Longrightarrow> private_inv owner (emit_now sid m g)"
  by (auto simp: private_inv_def emit_now_def queue_of_def frames_of_def)

lemma private_enqueue:
  assumes "private_inv owner g" "msg_private (owner sid) m"
  shows "private_inv owner (enqueue env sid m cr g)"
  using assms
  by (auto simp: private_inv_def enqueue_def emit_now_def queue_of_def frames_of_def msg_private_def update_conv' Let_def
      split: option.splits if_splits)

lemma private_set_frames:
  assumes "private_inv owner g" "\<And>f fr. map_of fs f = Some fr \<Longrightarrow> msg_private (owner sid) (fr_msg fr)"
  shows "private_inv owner (set_frames sid fs g)"
  using assms by (auto simp: private_inv_def set_frames_def frames_of_def queue_of_def update_conv' split: option.splits if_splits)

text \<open>Only these fields matter.\<close>

lemma private_cong:
  assumes "g_socketPlayers g' = g_socketPlayers g" "g_queues g' = g_queues g" "g_frames g' = g_frames g"
    "g_emitted g' = g_emitted g" "g_roomEmits g' = g_roomEmits g"
  shows "private_inv owner g' = private_inv owner g"
  using assms by (simp add: private_inv_def queue_of_def frames_of_def)

lemma private_cache [simp]:
  "private_inv owner (cache_state env tb st g) = private_inv owner g"
  "private_inv owner (forget_state env tb g) = private_inv owner g"
  "private_inv owner (remember env i g) = private_inv owner g"
  "private_inv owner (g\<lparr>g_store := s\<rparr>) = private_inv owner g"
  "private_inv owner (g\<lparr>g_timers := ts\<rparr>) = private_inv owner g"
  "private_inv owner (g\<lparr>g_hands := hs\<rparr>) = private_inv owner g"
  "private_inv owner (g\<lparr>g_engines := es\<rparr>) = private_inv owner g"
  "private_inv owner (g\<lparr>g_tick := tk\<rparr>) = private_inv owner g"
  "private_inv owner (g\<lparr>g_roomFolds := fs\<rparr>) = private_inv owner g"
  by (rule private_cong; simp add: cache_state_def maybeSnapshot_def forget_state_def remember_def Let_def)+

lemma private_room:
  "private_inv owner g \<Longrightarrow> shows_only None st \<Longrightarrow> private_inv owner (g\<lparr>g_roomEmits := g_roomEmits g @ [(tb, st, tk)]\<rparr>)"
  by (auto simp: private_inv_def queue_of_def frames_of_def)

lemma msg_private_simps [simp]:
  "msg_private who (AckMsg a b d)" "msg_private who (ErrorMsg e)" "msg_private who (EngineErrorMsg err)"
  "msg_private who (ProofMsg x y z)" "msg_private who (StateMsg st tk) = shows_only who st"
  by (simp_all add: msg_private_def)

lemma private_limited: "private_inv owner g \<Longrightarrow> private_inv owner (snd (isRateLimited env so g))"
  by (simp add: isRateLimited_def Let_def private_enqueue private_emit split: prod.splits)

lemma private_refuse: "private_inv owner g \<Longrightarrow> msg_private (owner sid) m \<Longrightarrow> private_inv owner (refuse env sid i m g)"
  by (simp add: refuse_def private_enqueue)

lemma private_applied:
  assumes "private_inv owner g" "shows_only (owner sid) (sanitize st acting)"
  shows "private_inv owner (action_applied env sid i tb acting st t g)"
  using assms
  by (cases acting) (simp_all add: action_applied_def Let_def private_enqueue private_room sanitize_none_shows)

lemma private_checked:
  assumes "private_inv owner g" "acting_player action \<in> {None, owner sid}"
  shows "private_inv owner (action_checked env sid i tb action g)"
proof -
  have "shows_only (owner sid) (sanitize st (acting_player action))" for st
    using assms(2) sanitize_shows [of "owner sid" st] sanitize_none_shows(1) [of "owner sid" st] by auto
  then show ?thesis
    using assms(1) by (auto simp: action_checked_def intro!: private_refuse private_applied split: option.splits sum.splits prod.splits)
qed

lemma private_action:
  assumes "private_inv owner g"
  shows "private_inv owner (snd (handleAction env so a g))"
proof (cases "action_begin env so a g")
  case (Inl r)
  moreover have "private_inv owner (snd r)"
    using Inl private_limited [OF assms, of env so]
    by (auto simp: action_begin_def private_enqueue private_refuse split: prod.splits bool.splits option.splits if_splits)
  ultimately show ?thesis by (simp add: handleAction_def)
next
  case (Inr r)
  obtain tb action g1 where r: "r = ((tb, action), g1)" by (metis prod.collapse)
  obtain s where h: "handleAction env so a g = (False, action_checked env (so_id so) (wa_actionId a) tb action
      (g\<lparr>g_store := s, g_timers := (case acting_player action of None \<Rightarrow> g_timers g | Some p \<Rightarrow> clearTimer p tb (g_timers g))\<rparr>))"
    using handled_by_check [OF Inr [unfolded r]] by blast
  have "acting_player action \<in> {None, owner (so_id so)}"
    using begin_engines(2) [OF Inr [unfolded r]] assms
    by (auto simp: mismatch_def private_inv_def split: option.splits)
  moreover have "private_inv owner (g\<lparr>g_store := s, g_timers := ts\<rparr>)" for ts
    using assms private_cong [of "g\<lparr>g_store := s, g_timers := ts\<rparr>" g owner] by simp
  ultimately show ?thesis unfolding h by (simp add: private_checked)
qed

lemma private_timeout:
  "private_inv owner g \<Longrightarrow> private_inv owner (handleTimeout env p tb answer g)"
  by (simp add: handleTimeout_def Let_def private_room sanitize_none_shows split: option.splits)

lemma private_tick:
  fixes g :: "('s, 'r) gateway"
  assumes "private_inv owner g"
  shows "private_inv owner (gateway_tick env answers g)"
proof -
  have "private_inv owner (fold (\<lambda>(p, tb). handleTimeout env p tb (answers (p, tb))) xs h)" if "private_inv owner h"
    for xs and h :: "('s, 'r) gateway"
    using that by (induction xs arbitrary: h) (auto intro: private_timeout)
  then show ?thesis using assms by (simp add: gateway_tick_def split: prod.splits)
qed

lemma private_resume:
  fixes g :: "('s, 'r) gateway"
  assumes "private_inv owner g"
  shows "private_inv owner (handleResume env so sts g)"
proof -
  have "private_inv owner (fold (\<lambda>(i, st). enqueue env (so_id so) (StateMsg (sanitize st None) (i + 1)) False) sts h)" if "private_inv owner h"
    for h :: "('s, 'r) gateway"
    using that by (induction sts arbitrary: h) (auto simp: private_enqueue sanitize_none_shows)
  then show ?thesis using assms by (simp add: handleResume_def private_enqueue)
qed

lemma private_outbound:
  fixes g :: "('a, 'b) gateway"
  assumes "private_inv owner g"
  shows "private_inv owner (send_next f sid g)" "private_inv owner (frame_timeout sid f g)" "private_inv owner (handleFrameAck sid f g)"
proof -
  have fr: "map_of (frames_of sid g) f' = Some fr \<Longrightarrow> msg_private (owner sid) (fr_msg fr)" for f' fr
    using assms by (auto simp: private_inv_def)
  have del: "private_inv owner (set_frames sid (AList.delete f (frames_of sid g)) h)" if "private_inv owner h" for h :: "('a, 'b) gateway"
    using that fr by (auto simp: delete_conv' intro!: private_set_frames split: if_splits)
  have upd: "private_inv owner (set_frames sid (AList.update f x (frames_of sid g)) h)"
    if "private_inv owner h" "msg_private (owner sid) (fr_msg x)" for h :: "('a, 'b) gateway" and x
    using that fr by (auto simp: update_conv' intro!: private_set_frames split: if_splits)
  show "private_inv owner (handleFrameAck sid f g)" using assms del by (simp add: handleFrameAck_def)
  show "private_inv owner (frame_timeout sid f g)"
  proof (cases "map_of (frames_of sid g) f")
    case (Some x)
    then show ?thesis
      using fr [OF Some] private_emit [OF assms] by (simp add: frame_timeout_def Let_def del upd)
  qed (use assms in \<open>simp add: frame_timeout_def\<close>)
  show "private_inv owner (send_next f sid g)"
  proof (cases "queue_of sid g")
    case (Cons t ts)
    have "private_inv owner (g\<lparr>g_queues := AList.update sid ts (g_queues g)\<rparr>)" "msg_private (owner sid) (q_msg t)"
      using assms Cons by (auto simp: private_inv_def queue_of_def frames_of_def update_conv' split: option.splits if_splits)
    moreover have "frames_of sid (g\<lparr>g_queues := qs\<rparr>) = frames_of sid g" for qs by (simp add: frames_of_def)
    ultimately show ?thesis
      using Cons by (simp add: send_next_def trackFrame_def Let_def upd private_emit)
  qed (use assms in \<open>simp add: send_next_def\<close>)
qed

text \<open>A socket keeps its identity: what its handshake says is the owner's name.\<close>

definition connects_as :: "(string \<Rightarrow> string option) \<Rightarrow> gw_event \<Rightarrow> bool" where
  "connects_as owner ev =
     (case ev of
        Connect so \<Rightarrow>
          (case first_some (so_dataPlayer so) (first_some (hs_playerId (so_handshake so)) (hs_queryPlayer (so_handshake so))) of
             None \<Rightarrow> True
           | Some p \<Rightarrow> p = [] \<or> owner (so_id so) = Some p)
      | _ \<Rightarrow> True)"

lemma private_connect:
  assumes "private_inv owner g" "connects_as owner (Connect so)"
  shows "private_inv owner (handleConnection env so g)"
proof -
  have "private_inv owner (g\<lparr>g_socketPlayers := AList.update (so_id so) p (g_socketPlayers g)\<rparr>)" if "owner (so_id so) = Some p" for p
    using assms(1) that by (auto simp: private_inv_def queue_of_def frames_of_def update_conv')
  then show ?thesis
    using assms by (auto simp: handleConnection_def connects_as_def Let_def split: option.splits)
qed

lemma private_disconnect: "private_inv owner g \<Longrightarrow> private_inv owner (handleDisconnect so g)"
  by (auto simp: handleDisconnect_def private_inv_def queue_of_def frames_of_def delete_conv' split: option.splits if_splits)

lemma private_others:
  assumes "private_inv owner g"
  shows "private_inv owner (handle_simple env ev so i g)" "private_inv owner (handleProof env so h g)"
    "private_inv owner (handleReplay env so st g)" "private_inv owner (trimActionHashes env g)"
    "private_inv owner (startSession env h rng tb ids g)"
  using assms private_limited [OF assms, of env so]
  by (auto simp: handle_simple_def acknowledge_def handleProof_def handleReplay_def trimActionHashes_def startSession_def Let_def
      private_enqueue sanitize_none_shows split: prod.splits bool.splits option.splits)

lemma private_step:
  assumes "private_inv owner g" "connects_as owner (snd x)"
  shows "private_inv owner (gw_step x g)"
proof -
  obtain env ev where x: "x = (env, ev)" by (cases x)
  show ?thesis
    using assms(2) unfolding x
    by (cases ev) (simp_all add: assms(1) private_connect private_disconnect private_action private_others private_outbound
        private_resume private_tick)
qed

text \<open>C8: nobody sees another player's cards. Over any run of the gateway in which every socket keeps the player its
  handshake named, every state that is queued for a socket, awaits its acknowledgement or has been sent to it shows hole cards of
  no player but the socket's own, and the states sent to rooms and spectators show none.\<close>

theorem gateway_private:
  assumes "private_inv owner g" "\<forall>x\<in>set run. connects_as owner (snd x)"
  shows "private_inv owner (fold gw_step run g)"
  using assms by (induction run arbitrary: g) (auto intro: private_step)

definition demo_private_run :: "(mock_gateway gateway_env \<times> gw_event) list" where
  "demo_private_run = (demo_gateway_env 1, Connect (demo_socket ''p3'')) # demo_requests @ [(demo_gateway_env 40, SendNext ''f'' ''p1'')]"

theorem gateway_private_witness:
  "private_inv Some (fold gw_step demo_private_run demo_gateway)"
  by (rule gateway_private)
    (auto simp: private_inv_def queue_of_def frames_of_def demo_gateway_def demo_private_run_def demo_requests_def connects_as_def
      first_some_def demo_socket_def split: if_splits)

end
