(* ===== verification/GatewayStore.thy ===== *)
theory GatewayStore
  imports GatewayProps
begin

text \<open>
  What the gateway keeps in Redis over any run: the counters of the rate limit, and the states and the tick a
  restart reads again.
\<close>

section \<open>The store of a step\<close>

text \<open>The requests that go through the rate limiter.\<close>

definition request_socket :: "gw_event \<Rightarrow> socket option" where
  "request_socket ev = (case ev of Action so _ \<Rightarrow> Some so | Simple _ so _ \<Rightarrow> Some so | Proof so _ \<Rightarrow> Some so | _ \<Rightarrow> None)"

definition limited_store :: "'r gateway_env \<times> gw_event \<Rightarrow> ('s, 'r) gateway \<Rightarrow> 'r" where
  "limited_store x g = (case request_socket (snd x) of None \<Rightarrow> g_store g | Some so \<Rightarrow> g_store (snd (isRateLimited (fst x) so g)))"

context store_frame
begin

lemma stepped:
  assumes c: "ge_client (fst x) = c" and P: "P (limited_store x g)"
    and hset: "\<And>f v s. P s \<Longrightarrow> P (g_hset c actionHashKey f v s)" and hdel: "\<And>f s. P s \<Longrightarrow> P (g_hdel c actionHashKey f s)"
  shows "P (g_store (gw_step x g))"
proof -
  obtain env ev where x: "x = (env, ev)" by (cases x)
  have c: "ge_client env = c" using c x by simp
  have rem: "P (g_store (remember env i h))" if "P (g_store h)" for i and h :: "('b, 'r) gateway"
    using hset [OF that] c by (simp add: remember_def)
  show ?thesis
  proof (cases ev)
    case (Action so a)
    note lim = P [unfolded limited_store_def x Action, simplified request_socket_def, simplified]
    show ?thesis
    proof (cases "action_begin env so a g")
      case (Inl r)
      then show ?thesis using Action x lim begun(2) [of env so a g "fst r" "snd r"] by (simp add: handleAction_def)
    next
      case (Inr r)
      then have "snd r = snd (isRateLimited env so g)" using begun(1) [of env so a g "fst r" "snd r"] by simp
      then show ?thesis
        using Action Inr lim x by (auto simp: handleAction_def intro!: finished [OF c] rem split: prod.splits)
    qed
  next
    case (Simple e so j)
    note lim = P [unfolded limited_store_def x Simple, simplified request_socket_def, simplified]
    then show ?thesis
      using Simple x by (auto simp: handle_simple_def acknowledge_def intro: rem split: prod.splits bool.splits)
  next
    case (ClockTick answers)
    then show ?thesis using P x ticked [OF c, of g answers] by (simp add: limited_store_def request_socket_def)
  next
    case Trim
    have "P (fold (\<lambda>(field, ts) s. case js_number ts of
             Some n \<Rightarrow> if n < int (ge_now env) - actionRetentionMs then g_hdel c actionHashKey field s else s
           | None \<Rightarrow> s) xs s)" if "P s" for xs s
      using that by (induction xs arbitrary: s) (auto simp: hdel split: option.splits)
    then show ?thesis
      using P x Trim c by (simp add: limited_store_def request_socket_def trimActionHashes_def Let_def)
  qed (use P x in \<open>simp_all add: limited_store_def request_socket_def\<close>)
qed

end

section \<open>The rate limit\<close>

definition passed :: "'r gateway_env \<times> gw_event \<Rightarrow> ('s, 'r) gateway \<Rightarrow> string list" where
  "passed x g = (case request_socket (snd x) of
     None \<Rightarrow> [] | Some so \<Rightarrow> if fst (isRateLimited (fst x) so g) then [] else [getRateLimitKey so])"

fun passed_run :: "('r gateway_env \<times> gw_event) list \<Rightarrow> ('s, 'r) gateway \<Rightarrow> string list" where
  "passed_run [] g = []"
| "passed_run (x # xs) g = passed x g @ passed_run xs (gw_step x g)"

definition counts :: "'r gateway_client \<Rightarrow> string \<Rightarrow> nat \<Rightarrow> 'r \<Rightarrow> bool" where
  "counts c k n s \<longleftrightarrow> g_get c k s = (if n = 0 then None else Some (GText (int_to_string (int n))))"

context gateway_redis
begin

lemma counts_step:
  assumes "ge_client (fst x) = c" "counter_key k" "counts c k n (limited_store x g)"
  shows "counts c k n (g_store (gw_step x g))"
proof -
  have "store_frame c (counts c k n)"
    using assms(2) by unfold_locales (auto simp: counts_def get_set get_del dest: counter_key_other)
  then show ?thesis
    by (rule store_frame.stepped) (use assms counter_key_other(3) [OF assms(2)] in \<open>auto simp: counts_def get_hset get_hdel\<close>)
qed

lemma counts_incr:
  assumes "counts c k n s"
  shows "fst (g_incr c k s) = int (Suc n)" "counts c k (Suc n) (snd (g_incr c k s))"
  using incr [of k s n] assms by (simp_all add: counts_def)

lemma counts_incr_other:
  "k \<noteq> k' \<Longrightarrow> counts c k n s \<Longrightarrow> counts c k n (snd (g_incr c k' s))"
  "counts c k n s \<Longrightarrow> counts c k n (g_expire c k' m s)"
  by (simp_all add: counts_def get_incr get_expire)

lemma limited_counts:
  assumes "ge_client env = c"
  shows "k \<noteq> globalActionCounterKey \<Longrightarrow> counts c k n (g_store g) \<Longrightarrow>
      counts c k (if getRateLimitKey so = k then Suc n else n) (g_store (snd (isRateLimited env so g)))
      \<and> (getRateLimitKey so = k \<longrightarrow> \<not> fst (isRateLimited env so g) \<longrightarrow> n < 30)"
    and "counts c globalActionCounterKey n (g_store g) \<Longrightarrow>
      (\<exists>n' > n. counts c globalActionCounterKey n' (g_store (snd (isRateLimited env so g)))
         \<and> (\<not> fst (isRateLimited env so g) \<longrightarrow> int n' \<le> ge_globalLimit env))"
proof -
  obtain n1 s1 n2 s2 where s: "g_incr c (getRateLimitKey so) (g_store g) = (n1, s1)" "g_incr c globalActionCounterKey s1 = (n2, s2)"
    by (metis prod.exhaust_sel)
  define s3 where "s3 = (if n1 = 1 then g_expire c (getRateLimitKey so) 10 s2 else s2)"
  define s4 where "s4 = (if n2 = 1 then g_expire c globalActionCounterKey 10 s3 else s3)"
  have r: "g_store (snd (isRateLimited env so g)) = s4" "fst (isRateLimited env so g) = (n2 > ge_globalLimit env \<or> n1 > 30)"
    using assms s by (simp_all add: isRateLimited_def s3_def s4_def Let_def)
  have keep: "counts c k m s2 \<Longrightarrow> counts c k m s4" for k m
    by (simp add: s3_def s4_def counts_incr_other(2))
  { assume k: "k \<noteq> globalActionCounterKey" "counts c k n (g_store g)"
    have "counts c k (if getRateLimitKey so = k then Suc n else n) s1 \<and> (getRateLimitKey so = k \<longrightarrow> n1 = int (Suc n))"
      using counts_incr [OF k(2)] counts_incr_other(1) [OF _ k(2), of "getRateLimitKey so"] s(1) by auto
    then show "counts c k (if getRateLimitKey so = k then Suc n else n) (g_store (snd (isRateLimited env so g)))
      \<and> (getRateLimitKey so = k \<longrightarrow> \<not> fst (isRateLimited env so g) \<longrightarrow> n < 30)"
      using counts_incr_other(1) [OF k(1), of _ s1] s(2) keep by (auto simp: r) }
  { assume k: "counts c globalActionCounterKey n (g_store g)"
    obtain m where m: "n \<le> m" "counts c globalActionCounterKey m s1"
      using counts_incr(2) [OF k] counts_incr_other(1) [OF _ k, of "getRateLimitKey so"] s(1) that [of n] that [of "Suc n"]
      by (cases "getRateLimitKey so = globalActionCounterKey") auto
    show "\<exists>n' > n. counts c globalActionCounterKey n' (g_store (snd (isRateLimited env so g)))
         \<and> (\<not> fst (isRateLimited env so g) \<longrightarrow> int n' \<le> ge_globalLimit env)"
      using counts_incr [OF m(2)] m(1) s(2) keep by (intro exI [of _ "Suc m"]) (auto simp: r) }
qed

end

context gateway_redis
begin

text \<open>What is left of a limit.\<close>

lemma step_counts:
  assumes "ge_client (fst x) = c" "counter_key k" "k \<noteq> globalActionCounterKey" "counts c k n (g_store g)"
  shows "\<exists>n'. counts c k n' (g_store (gw_step x g)) \<and> count_list (passed x g) k + (30 - n') \<le> 30 - n"
proof (cases "request_socket (snd x)")
  case None
  then show ?thesis
    using counts_step [OF assms(1,2), of n g] assms(4) by (auto simp: limited_store_def passed_def intro!: exI [of _ n])
next
  case (Some so)
  let ?n = "if getRateLimitKey so = k then Suc n else n"
  note l = limited_counts(1) [OF assms(1,3,4), of so]
  have "counts c k ?n (g_store (gw_step x g))"
    by (rule counts_step [OF assms(1,2)]) (use l Some in \<open>simp add: limited_store_def\<close>)
  then show ?thesis using l Some by (intro exI [of _ ?n]) (auto simp: passed_def)
qed

lemma step_counts_global:
  assumes "ge_client (fst x) = c" "ge_globalLimit (fst x) \<le> L" "counts c globalActionCounterKey n (g_store g)"
  shows "\<exists>n'. counts c globalActionCounterKey n' (g_store (gw_step x g)) \<and> length (passed x g) + nat (L - int n') \<le> nat (L - int n)"
proof (cases "request_socket (snd x)")
  case None
  then show ?thesis
    using counts_step [OF assms(1) counter_keys(2), of n g] assms(3) by (auto simp: limited_store_def passed_def intro!: exI [of _ n])
next
  case (Some so)
  obtain n' where n': "n' > n" "counts c globalActionCounterKey n' (g_store (snd (isRateLimited (fst x) so g)))"
    "\<not> fst (isRateLimited (fst x) so g) \<longrightarrow> int n' \<le> ge_globalLimit (fst x)"
    using limited_counts(2) [OF assms(1,3)] by blast
  then have "counts c globalActionCounterKey n' (g_store (gw_step x g))"
    by (intro counts_step [OF assms(1) counter_keys(2)]) (simp add: limited_store_def Some)
  then show ?thesis using n' assms(2) Some by (intro exI [of _ n']) (auto simp: passed_def)
qed

lemma run_counts:
  assumes "\<forall>x\<in>set run. ge_client (fst x) = c" "counter_key k" "k \<noteq> globalActionCounterKey" "counts c k n (g_store g)"
  shows "count_list (passed_run run g) k \<le> 30 - n"
  using assms(1,4)
proof (induction run arbitrary: n g)
  case (Cons x run)
  obtain n' where "counts c k n' (g_store (gw_step x g))" "count_list (passed x g) k + (30 - n') \<le> 30 - n"
    using step_counts [OF _ assms(2,3) Cons.prems(2), of x] Cons.prems(1) by auto
  then show ?case using Cons.IH [of n' "gw_step x g"] Cons.prems(1) by simp
qed simp

lemma run_counts_global:
  assumes "\<forall>x\<in>set run. ge_client (fst x) = c \<and> ge_globalLimit (fst x) \<le> L" "counts c globalActionCounterKey n (g_store g)"
  shows "length (passed_run run g) \<le> nat (L - int n)"
  using assms
proof (induction run arbitrary: n g)
  case (Cons x run)
  obtain n' where "counts c globalActionCounterKey n' (g_store (gw_step x g))" "length (passed x g) + nat (L - int n') \<le> nat (L - int n)"
    using step_counts_global [OF _ _ Cons.prems(2), of x L] Cons.prems(1) by auto
  then show ?case using Cons.IH [of n' "gw_step x g"] Cons.prems(1) by simp
qed simp

end

text \<open>C23: the rate limit holds over any run. From fresh counters and until they expire, at most 30 requests of any one
  client (user, or address) and at most \<open>L\<close> requests in all get past the rate limiter, whatever else the gateway does in between,
  if \<open>L\<close> bounds the configured limit. (A client is its counter's key; a user called \<open>global\<close> shares the
  counter of all.)\<close>

theorem rate_limit_holds:
  assumes "gateway_redis c" "\<forall>x\<in>set run. ge_client (fst x) = c \<and> ge_globalLimit (fst x) \<le> L"
    and "g_get c globalActionCounterKey (g_store g) = None" "g_get c (getRateLimitKey so) (g_store g) = None"
    and "getRateLimitKey so \<noteq> globalActionCounterKey"
  shows "count_list (passed_run run g) (getRateLimitKey so) \<le> 30 \<and> int (length (passed_run run g)) \<le> max 0 L"
proof -
  have "counts c globalActionCounterKey 0 (g_store g)" "counts c (getRateLimitKey so) 0 (g_store g)"
    using assms(3,4) by (simp_all add: counts_def)
  then show ?thesis
    using gateway_redis.run_counts [OF assms(1) _ counter_keys(1) assms(5), of run 0 g]
      gateway_redis.run_counts_global [OF assms(1,2), of 0 g] assms(2) by auto
qed

definition demo_flood :: "(mock_gateway gateway_env \<times> gw_event) list" where
  "demo_flood = replicate 40 (demo_gateway_env 10, Simple ''join'' (demo_socket ''p1'') ''a'')"

theorem rate_limit_holds_witness:
  "count_list (passed_run demo_flood demo_gateway) ''game:action_counter:p1'' \<le> 30
   \<and> int (length (passed_run demo_flood demo_gateway)) \<le> 1000"
proof -
  have k: "getRateLimitKey (demo_socket ''p1'') = ''game:action_counter:p1''"
    by (simp add: getRateLimitKey_def demo_socket_def first_some_def)
  show ?thesis
    using rate_limit_holds [OF mock_gateway.gateway_redis_axioms, of demo_flood 1000 demo_gateway "demo_socket ''p1''"]
    by (simp add: k demo_flood_def demo_gateway_env_def demo_gateway_def mock_gateway_client_def globalActionCounterKey_def)
qed

section \<open>Restart\<close>

lemma snapshots_frame [simp]:
  "g_snapshots (emit_now sid m g) = g_snapshots g" "g_snapshots (enqueue env sid m cr g) = g_snapshots g"
  "g_snapshots (remember env i g) = g_snapshots g" "g_snapshots (refuse env sid i m g) = g_snapshots g"
  "g_snapshots (set_frames sid fs g) = g_snapshots g" "g_snapshots (forget_state env tb g) = g_snapshots g"
  by (simp_all add: emit_now_def enqueue_def remember_def refuse_def set_frames_def forget_state_def Let_def)

lemma cache_state_snapshots: "set (g_snapshots (cache_state env tb st g)) \<subseteq> insert (tb, g_tick g, st) (set (g_snapshots g))"
  by (auto simp: cache_state_def maybeSnapshot_def Let_def)

lemma isRateLimited_snapshots [simp]: "g_snapshots (snd (isRateLimited env so g)) = g_snapshots g"
  by (simp add: isRateLimited_def Let_def split: prod.splits)

text \<open>The states cached in memory are the ones in the store, and no snapshot is ahead of the tick; with the tick, the
  store has everything.\<close>

definition states_synced :: "'r gateway_client \<Rightarrow> ('s, 'r) gateway \<Rightarrow> bool" where
  "states_synced c g \<longleftrightarrow> (\<forall>tb. g_get c (state_key tb) (g_store g) = map_option GCached (map_of (g_states g) tb))
     \<and> (\<forall>(tb, tk, st)\<in>set (g_snapshots g). tk \<le> g_tick g)"

definition gateway_synced :: "'r gateway_client \<Rightarrow> ('s, 'r) gateway \<Rightarrow> bool" where
  "gateway_synced c g \<longleftrightarrow> states_synced c g
     \<and> (g_get c tickKey (g_store g) = Some (GText (int_to_string (int (g_tick g)))) \<or> g_get c tickKey (g_store g) = None \<and> g_tick g = 0)"

definition same_cache :: "'r gateway_client \<Rightarrow> ('s, 'r) gateway \<Rightarrow> ('s, 'r) gateway \<Rightarrow> bool" where
  "same_cache c g g' \<longleftrightarrow> g_states g' = g_states g \<and> g_tick g' = g_tick g \<and> g_snapshots g' = g_snapshots g
     \<and> (\<forall>tb. g_get c (state_key tb) (g_store g') = g_get c (state_key tb) (g_store g))
     \<and> g_get c tickKey (g_store g') = g_get c tickKey (g_store g)"

lemma synced_cong: "same_cache c g g' \<Longrightarrow> gateway_synced c g' = gateway_synced c g"
  by (simp add: same_cache_def gateway_synced_def states_synced_def)

lemma same_cache_trans: "same_cache c g h \<Longrightarrow> same_cache c h k \<Longrightarrow> same_cache c g k"
  by (simp add: same_cache_def)

lemma not_counter_key: "\<not> counter_key (state_key tb)" "\<not> counter_key tickKey"
  using counter_key_other by blast+

context gateway_redis
begin

lemma synced_cache:
  assumes "ge_client env = c" "states_synced c g"
  shows "gateway_synced c (cache_state env tb st g)"
proof -
  have "tk \<le> g_tick g" if "(tb', tk, st') \<in> set (g_snapshots (cache_state env tb st g))" for tb' tk st'
    using cache_state_snapshots that assms(2) by (fastforce simp: states_synced_def)
  then show ?thesis
    using assms by (auto simp: gateway_synced_def states_synced_def get_set update_conv')
qed

lemma synced_forget:
  assumes "ge_client env = c" "gateway_synced c g"
  shows "gateway_synced c (forget_state env tb g)"
  using assms by (auto simp: gateway_synced_def states_synced_def get_del delete_conv')

lemma synced_updates [simp]:
  "gateway_synced c (g\<lparr>g_hands := hs\<rparr>) = gateway_synced c g" "gateway_synced c (g\<lparr>g_timers := ts\<rparr>) = gateway_synced c g"
  "gateway_synced c (g\<lparr>g_roomEmits := rs\<rparr>) = gateway_synced c g" "gateway_synced c (enqueue env sid m cr g) = gateway_synced c g"
  "states_synced c (enqueue env sid m cr g) = states_synced c g"
  by (simp_all add: gateway_synced_def states_synced_def)

lemma synced_later: "gateway_synced c g \<Longrightarrow> g_states g' = g_states g \<Longrightarrow> g_store g' = g_store g \<Longrightarrow>
    g_snapshots g' = g_snapshots g \<Longrightarrow> g_tick g \<le> g_tick g' \<Longrightarrow> states_synced c g'"
  by (fastforce simp: gateway_synced_def states_synced_def)

lemma synced_applied:
  assumes "ge_client env = c" "gateway_synced c g"
  shows "gateway_synced c (action_applied env sid i tb acting st t g)"
  by (cases acting)
    (simp_all add: action_applied_def Let_def synced_forget [OF assms(1)] synced_cache [OF assms(1)] synced_later [OF assms(2)])

lemma synced_checked:
  assumes "ge_client env = c" "gateway_synced c g"
  shows "gateway_synced c (action_checked env sid i tb action g)"
proof -
  have "gateway_synced c (refuse env sid i m g)" for m using assms(2) by (simp add: refuse_def)
  then show ?thesis
    using synced_applied [OF assms] by (auto simp: action_checked_def split: option.splits sum.splits prod.splits)
qed

lemma synced_timeout:
  assumes "ge_client env = c" "gateway_synced c g"
  shows "gateway_synced c (handleTimeout env p tb answer g)"
proof -
  have "gateway_synced c (g\<lparr>g_roomFolds := fs\<rparr>)" for fs
    using assms(2) by (simp add: gateway_synced_def states_synced_def)
  then show ?thesis
    by (simp add: handleTimeout_def Let_def synced_forget [OF assms(1)] synced_cache [OF assms(1)] synced_later [OF assms(2)] split: option.splits)
qed

lemma synced_tick:
  fixes g :: "('s, 'r) gateway"
  assumes "ge_client env = c" "gateway_synced c g"
  shows "gateway_synced c (gateway_tick env answers g)"
proof -
  have "gateway_synced c (fold (\<lambda>(p, tb). handleTimeout env p tb (answers (p, tb))) xs h)" if "gateway_synced c h"
    for xs and h :: "('s, 'r) gateway"
    using that by (induction xs arbitrary: h) (auto intro: synced_timeout [OF assms(1)])
  then show ?thesis using assms(2) by (simp add: gateway_tick_def split: prod.splits)
qed

lemma limited_get:
  assumes "ge_client env = c" "\<not> counter_key k"
  shows "g_get c k (g_store (snd (isRateLimited env so g))) = g_get c k (g_store g)"
proof -
  obtain n1 s1 n2 s2 where s: "g_incr c (getRateLimitKey so) (g_store g) = (n1, s1)" "g_incr c globalActionCounterKey s1 = (n2, s2)"
    by (metis prod.exhaust_sel)
  have "k \<noteq> getRateLimitKey so" "k \<noteq> globalActionCounterKey" using assms(2) counter_keys by auto
  then have "g_get c k s2 = g_get c k (g_store g)" using get_incr s by (metis snd_conv)
  then show ?thesis using assms(1) s by (simp add: isRateLimited_def Let_def get_expire)
qed

lemma limited_cache: "ge_client env = c \<Longrightarrow> same_cache c g (snd (isRateLimited env so g))"
  by (simp add: same_cache_def limited_get not_counter_key)

lemma remember_cache: "ge_client env = c \<Longrightarrow> same_cache c g (remember env i g)"
  by (simp add: same_cache_def) (simp add: remember_def get_hset)

end

context gateway_redis
begin

lemma synced_request:
  assumes "ge_client env = c" "gateway_synced c g"
  shows "gateway_synced c (snd (isRateLimited env so g))" "gateway_synced c (remember env i g)"
  using assms(2) synced_cong [OF limited_cache [OF assms(1)]] synced_cong [OF remember_cache [OF assms(1)]] by auto

lemma synced_action:
  assumes "ge_client env = c" "gateway_synced c g"
  shows "gateway_synced c (snd (handleAction env so a g))"
proof (cases "action_begin env so a g")
  case (Inl r)
  moreover have "gateway_synced c (snd r)"
    using Inl synced_request(1) [OF assms, of so]
    by (auto simp: action_begin_def refuse_def split: prod.splits bool.splits option.splits if_splits)
  ultimately show ?thesis by (simp add: handleAction_def)
next
  case (Inr r)
  obtain tb action g1 where r: "r = ((tb, action), g1)" by (metis prod.collapse)
  have "gateway_synced c (remember env (wa_actionId a) g1)"
    using begin_engines(2) [OF Inr [unfolded r]] by (intro synced_request(2) [OF assms(1)]) (simp add: synced_request(1) [OF assms])
  then show ?thesis
    using Inr r by (auto simp: handleAction_def action_finish_def Let_def intro!: synced_checked [OF assms(1)] split: option.splits)
qed

lemma synced_trim:
  assumes "ge_client env = c"
  shows "same_cache c g (trimActionHashes env g)"
proof -
  have "g_get c k (fold (\<lambda>(field, ts) s. case js_number ts of
             Some n \<Rightarrow> if n < th then g_hdel c actionHashKey field s else s
           | None \<Rightarrow> s) xs s) = g_get c k s" if "k \<noteq> actionHashKey" for th xs s k
    using that by (induction xs arbitrary: s) (auto simp: get_hdel split: option.splits)
  then show ?thesis using assms by (simp add: same_cache_def trimActionHashes_def Let_def)
qed

lemma same_cacheI:
  "g_states g' = g_states g \<Longrightarrow> g_tick g' = g_tick g \<Longrightarrow> g_snapshots g' = g_snapshots g \<Longrightarrow> g_store g' = g_store g \<Longrightarrow> same_cache c g g'"
  by (simp add: same_cache_def)

lemma synced_connect: "same_cache c g (handleConnection env so g)"
  by (rule same_cacheI) (simp_all add: handleConnection_def Let_def split: option.splits)

lemma synced_disconnect: "same_cache c g (handleDisconnect so g)"
  by (rule same_cacheI) (simp_all add: handleDisconnect_def)

lemma synced_send: "same_cache c g (send_next f sid g)"
  by (rule same_cacheI) (simp_all add: send_next_def trackFrame_def Let_def split: list.splits)

lemma synced_retry: "same_cache c g (frame_timeout sid f g)"
  by (rule same_cacheI) (simp_all add: frame_timeout_def Let_def split: option.splits)

lemma synced_ack: "same_cache c g (handleFrameAck sid f g)" "same_cache c g (handleReplay env so st g)"
  by (rule same_cacheI; simp add: handleFrameAck_def handleReplay_def)+

lemma synced_start: "same_cache c g (startSession env h rng tb ids g)"
  by (rule same_cacheI) (simp_all add: startSession_def Let_def)

lemmas synced_quiet = synced_connect synced_disconnect synced_send synced_retry synced_ack synced_start

lemma synced_resume:
  fixes g :: "('s, 'r) gateway"
  shows "gateway_synced c (handleResume env so sts g) = gateway_synced c g"
proof -
  have "gateway_synced c (fold (\<lambda>(i, st). enqueue env (so_id so) (StateMsg (sanitize st None) (i + 1)) False) sts h) = gateway_synced c h"
    for h :: "('s, 'r) gateway"
    by (induction sts arbitrary: h) (simp_all add: split_def)
  then show ?thesis by (simp add: handleResume_def)
qed

lemma synced_step:
  assumes "ge_client (fst x) = c" "gateway_synced c g"
  shows "gateway_synced c (gw_step x g)"
proof -
  obtain env ev where x: "x = (env, ev)" by (cases x)
  have c: "ge_client env = c" using assms(1) x by simp
  note lim = synced_request(1) [OF c assms(2)]
  show ?thesis
  proof (cases ev)
    case (Simple e so i)
    then show ?thesis
      using x lim [of so] by (auto simp: handle_simple_def acknowledge_def synced_request(2) [OF c] split: prod.splits bool.splits)
  next
    case (Proof so h)
    then show ?thesis
      using x lim [of so] by (auto simp: handleProof_def Let_def split: prod.splits bool.splits option.splits)
  qed (use assms(2) in \<open>simp_all add: x synced_action [OF c] synced_tick [OF c] synced_resume synced_cong [OF synced_trim [OF c]]
      synced_quiet [THEN synced_cong]\<close>)
qed

lemma synced_run: "\<forall>x\<in>set run. ge_client (fst x) = c \<Longrightarrow> gateway_synced c g \<Longrightarrow> gateway_synced c (fold gw_step run g)"
  by (induction run arbitrary: g) (auto simp: synced_step)

end

text \<open>A new process: the store, the tables and what has been sent stay, the memory of the gateway is gone.\<close>

definition restarted :: "('s, 'r) gateway \<Rightarrow> ('s, 'r) gateway" where
  "restarted g = g\<lparr>g_states := [], g_lastSnapshot := [], g_tick := 0, g_engines := [], g_socketPlayers := [], g_queues := [],
     g_frames := [], g_timers := []\<rparr>"

lemma restore_snapshots:
  "g_store (fold restore_snapshot xs g) = g_store g" "g_engines (fold restore_snapshot xs g) = g_engines g"
  "\<forall>(tb, tk, st)\<in>set xs. tk \<le> m \<Longrightarrow> g_tick g \<le> m \<Longrightarrow> g_tick (fold restore_snapshot xs g) \<le> m"
  by (induction xs arbitrary: g) (auto simp: restore_snapshot_def)

definition state_key_like :: "string \<Rightarrow> bool" where
  "state_key_like k \<longleftrightarrow> take (length (stateKeyPrefix @ '':'')) k = stateKeyPrefix @ '':''"

lemma state_key_drop: "state_key_like k \<Longrightarrow> state_key (drop (length stateKeyPrefix + 1) k) = k"
  unfolding state_key_def state_key_like_def
  by (metis append_assoc append_take_drop_id length_append length_Cons list.size(3) One_nat_def)

lemma drop_state_key: "drop (length stateKeyPrefix + 1) (state_key tb) = tb" "state_key_like (state_key tb)"
  by (simp_all add: state_key_def state_key_like_def)

lemma restore_cached_step:
  assumes "state_key tb' = k"
  shows "map_of (g_states (restore_cached env k g)) tb =
     (case g_get (ge_client env) (state_key tb) (g_store g) of
        Some (GCached st) \<Rightarrow> if isInternalGameState st \<and> tb = tb' then Some st else map_of (g_states g) tb
      | _ \<Rightarrow> map_of (g_states g) tb)"
proof -
  have "drop (length stateKeyPrefix + 1) k = tb'" using assms drop_state_key(1) by blast
  then show ?thesis
    unfolding restore_cached_def using assms by (auto simp: update_conv' split: option.splits gval.splits)
qed

lemma restore_cached_frame [simp]:
  "g_store (restore_cached env k g) = g_store g" "g_tick (restore_cached env k g) = g_tick g"
  "g_engines (restore_cached env k g) = g_engines g"
  by (simp_all add: restore_cached_def split: option.splits gval.splits)

lemma restore_all:
  assumes "\<forall>k\<in>set ks. state_key_like k"
  shows "map_of (g_states (fold (restore_cached env) ks g)) tb =
     (case g_get (ge_client env) (state_key tb) (g_store g) of
        Some (GCached st) \<Rightarrow> if isInternalGameState st \<and> state_key tb \<in> set ks then Some st else map_of (g_states g) tb
      | _ \<Rightarrow> map_of (g_states g) tb)"
    and "g_tick (fold (restore_cached env) ks g) = g_tick g" "g_engines (fold (restore_cached env) ks g) = g_engines g"
proof -
  show "map_of (g_states (fold (restore_cached env) ks g)) tb =
     (case g_get (ge_client env) (state_key tb) (g_store g) of
        Some (GCached st) \<Rightarrow> if isInternalGameState st \<and> state_key tb \<in> set ks then Some st else map_of (g_states g) tb
      | _ \<Rightarrow> map_of (g_states g) tb)"
    using assms
  proof (induction ks arbitrary: g)
    case (Cons k ks)
    let ?tb = "drop (length stateKeyPrefix + 1) k"
    have k: "state_key ?tb = k" by (rule state_key_drop) (use Cons.prems in simp)
    then have "tb = ?tb \<longleftrightarrow> state_key tb = k" by auto
    moreover have ks: "\<forall>k\<in>set ks. state_key_like k" using Cons.prems by simp
    ultimately show ?case
      using Cons.IH [OF ks, of "restore_cached env k g"] restore_cached_step [OF k, of env g tb]
      by (auto split: option.splits gval.splits)
  qed (simp split: option.splits gval.splits)
  show "g_tick (fold (restore_cached env) ks g) = g_tick g" "g_engines (fold (restore_cached env) ks g) = g_engines g"
    by (induction ks arbitrary: g) simp_all
qed

lemma no_engines_no_action: "g_engines g = [] \<Longrightarrow> g_engines (snd (handleAction env so a g)) = []"
  using action_applies [of env so a g "fst (handleAction env so a g)" "snd (handleAction env so a g)"] by fastforce

text \<open>C24: what a restart finds again. After any run from an empty store, a new process that runs \<open>restoreState\<close> on the
  same store has the tick of the old one and every state the old one had cached from one of its engines. But it has no engine: whatever is
  sent, no action is ever applied to a restored table, because nothing makes an engine of a restored state.\<close>

theorem restart_restores:
  assumes "gateway_redis c" "\<forall>x\<in>set run. ge_client (fst x) = c" "ge_client env = c" "gateway_synced c g0"
  shows "let g = fold gw_step run g0; r = restoreState env (restarted g)
     in g_tick r = g_tick g
        \<and> (\<forall>tb st. map_of (g_states g) tb = Some (Full st) \<longrightarrow> map_of (g_states r) tb = Some (Full st))
        \<and> g_engines r = [] \<and> (\<forall>env so a. g_engines (snd (handleAction env so a r)) = [])"
proof -
  define g where "g = fold gw_step run g0"
  define g1 where "g1 = fold restore_snapshot (js_sort (\<lambda>a b. fst (snd b) \<le> fst (snd a)) (g_snapshots (restarted g))) (restarted g)"
  define g2 where "g2 = (case g_get c tickKey (g_store g1) of
      Some (GText t) \<Rightarrow> (case js_number t of Some n \<Rightarrow> if t = [] then g1 else g1\<lparr>g_tick := nat n\<rparr> | None \<Rightarrow> g1) | _ \<Rightarrow> g1)"
  let ?r = "fold (restore_cached env) (g_keys c (stateKeyPrefix @ '':'') (g_store g2)) g2"
  have r: "restoreState env (restarted g) = ?r"
    unfolding restoreState_def Let_def assms(3) g2_def g1_def by (rule refl)
  have sync: "gateway_synced c g" unfolding g_def by (rule gateway_redis.synced_run [OF assms(1,2,4)])
  have g1: "g_store g1 = g_store g" "g_engines g1 = []"
    by (simp_all add: g1_def restore_snapshots restarted_def)
  have "\<forall>(tb, tk, st)\<in>set (g_snapshots g). tk \<le> g_tick g" using sync by (simp add: gateway_synced_def states_synced_def)
  then have "g_tick g1 \<le> g_tick g"
    unfolding g1_def by (intro restore_snapshots(3)) (auto simp: restarted_def)
  then have g2: "g_tick g2 = g_tick g" "g_store g2 = g_store g" "g_engines g2 = []"
    using sync g1 by (auto simp: g2_def gateway_synced_def)
  have ks: "\<forall>k\<in>set (g_keys c (stateKeyPrefix @ '':'') (g_store g2)). state_key_like k"
    unfolding state_key_like_def using gateway_redis.keys_match [OF assms(1)] by blast
  have "map_of (g_states ?r) tb = Some (Full st)" if "map_of (g_states g) tb = Some (Full st)" for tb st
  proof -
    have get: "g_get c (state_key tb) (g_store g2) = Some (GCached (Full st))"
      using that sync g2(2) by (simp add: gateway_synced_def states_synced_def)
    then have "state_key tb \<in> set (g_keys c (stateKeyPrefix @ '':'') (g_store g2))"
      using gateway_redis.keys_all [OF assms(1)] drop_state_key(2) unfolding state_key_like_def by (metis option.distinct(1))
    then show ?thesis using restore_all(1) [OF ks, of env g2 tb] get assms(3) by (simp add: isInternalGameState_def)
  qed
  moreover have "g_tick ?r = g_tick g" "g_engines ?r = []"
    using restore_all(2,3) [OF ks, of env g2] g2 by simp_all
  ultimately show ?thesis
    unfolding g_def [symmetric] Let_def r by (simp add: no_engines_no_action)
qed

theorem restart_restores_witness:
  "let g = fold gw_step demo_requests demo_gateway; r = restoreState (demo_gateway_env 50) (restarted g)
   in g_tick r = g_tick g \<and> g_engines r = []"
proof -
  have "gateway_synced mock_gateway_client demo_gateway"
    by (simp add: gateway_synced_def states_synced_def demo_gateway_def mock_gateway_client_def)
  from restart_restores [OF mock_gateway.gateway_redis_axioms _ _ this, of demo_requests "demo_gateway_env 50"]
  show ?thesis by (simp add: demo_requests_def demo_gateway_env_def Let_def)
qed

end
