(* ===== verification/Sessions.thy ===== *)
theory Sessions
  imports Wallet
begin

text \<open>
  Accounts and sessions: \<open>backend/src/auth/auth.service.ts\<close> and \<open>backend/src/session/session.service.ts\<close>.

  The state is the table of users, the Redis store and the mails sent. Signing and checking of access tokens
  (\<open>jsonwebtoken\<close>), the hashes of passwords (\<open>bcrypt\<close>) and of reset codes are functions of the environment; random
  tokens and codes are arguments. A refresh value that is not an object is the identifier of a user, as the code
  writes it; identifiers are not themselves texts of objects. Login events and metrics are left out.
\<close>

section \<open>State\<close>

datatype user_role = PlayerRole | AdminRole

record auth_user =
  au_id :: string
  au_username :: string
  au_email :: "string option"
  au_password :: "string option"
  au_role :: user_role

record tokens =
  accessToken :: string
  refreshToken :: string

datatype auth_error = ConflictException | SecretsNotConfigured | BufferLengthMismatch

record 's auth_env =
  ae_rd :: "'s redis_client"
  ae_keys :: "string \<Rightarrow> 's \<Rightarrow> string list"
  ae_secrets :: "string option list option"
  ae_accessTtl :: nat
  ae_refreshTtl :: nat
  ae_resetReqLimit :: int
  ae_resetReqWindow :: nat
  ae_resetTtl :: nat
  ae_sign :: "string \<Rightarrow> bool \<Rightarrow> string \<Rightarrow> nat \<Rightarrow> string"
  ae_verify :: "string \<Rightarrow> string \<Rightarrow> string option"
  ae_bcrypt :: "string \<Rightarrow> string"
  ae_compare :: "string \<Rightarrow> string \<Rightarrow> bool"
  ae_sha256hex :: "string \<Rightarrow> string"
  ae_fromHex :: "string \<Rightarrow> nat list"
  ae_stringify :: "json \<Rightarrow> string"
  ae_now :: nat

record 's accounts =
  acc_users :: "auth_user list"
  acc_store :: 's
  acc_mails :: "(string \<times> string) list"

type_synonym ('s, 'a) auth_act = "('s accounts, auth_error, 'a) act"

definition au_get :: "'s auth_env \<Rightarrow> string \<Rightarrow> ('s, rtext option) auth_act" where
  "au_get env key = gets (\<lambda>a. r_get (ae_rd env) key (acc_store a))"

definition au_del :: "'s auth_env \<Rightarrow> string \<Rightarrow> ('s, unit) auth_act" where
  "au_del env key = upd (\<lambda>a. a\<lparr>acc_store := r_del (ae_rd env) key (acc_store a)\<rparr>)"

definition au_set :: "'s auth_env \<Rightarrow> string \<Rightarrow> rtext \<Rightarrow> nat \<Rightarrow> ('s, unit) auth_act" where
  "au_set env key v ttl =
     upd (\<lambda>a. a\<lparr>acc_store := snd (setWithOptions (ae_rd env) (ae_now env) key v (Some (Some ttl, False)) (acc_store a))\<rparr>)"

section \<open>Sessions\<close>

definition refreshKey :: "string \<Rightarrow> string" where "refreshKey t = ''refresh:'' @ t"

text \<open>\<open>parseRefreshValue\<close>: the user and whether the role is \<open>admin\<close>.\<close>

definition parseRefreshValue :: "'s auth_env \<Rightarrow> rtext option \<Rightarrow> string option \<times> bool" where
  "parseRefreshValue env v =
     (case v of
        None \<Rightarrow> (None, False)
      | Some (Raw s) \<Rightarrow> if s = [] then (None, False) else (Some s, False)
      | Some (Json j) \<Rightarrow>
          (case j of
             JObj fs \<Rightarrow> (case map_of fs ''userId'' of
                 Some (JStr u) \<Rightarrow> (Some u, map_of fs ''role'' = Some (JStr ''admin''))
               | _ \<Rightarrow> (Some (ae_stringify env j), False))
           | _ \<Rightarrow> (Some (ae_stringify env j), False)))"

definition availableSecrets :: "'s auth_env \<Rightarrow> string list" where
  "availableSecrets env =
     (case ae_secrets env of
        None \<Rightarrow> []
      | Some ss \<Rightarrow> filter (\<lambda>v. v \<noteq> []) (map trim (List.map_filter id ss)))"

definition refreshValue :: "string \<Rightarrow> bool \<Rightarrow> rtext" where
  "refreshValue userId admin =
     (if admin then Json (JObj [(''userId'', JStr userId), (''role'', JStr ''admin'')]) else Raw userId)"

definition issueTokens :: "'s auth_env \<Rightarrow> string \<Rightarrow> string \<Rightarrow> bool \<Rightarrow> ('s, tokens) auth_act" where
  "issueTokens env newToken userId admin =
     seq (raise_if (availableSecrets env = []) SecretsNotConfigured)
    (seq (au_set env (refreshKey newToken) (refreshValue userId admin) (ae_refreshTtl env))
         (ret \<lparr>accessToken = ae_sign env userId admin (hd (availableSecrets env)) (ae_accessTtl env), refreshToken = newToken\<rparr>))"

fun first_verified :: "(string \<Rightarrow> string \<Rightarrow> string option) \<Rightarrow> string \<Rightarrow> string option list \<Rightarrow> string option" where
  "first_verified verify token [] = None"
| "first_verified verify token (raw # rest) =
     (case raw of
        None \<Rightarrow> first_verified verify token rest
      | Some s \<Rightarrow>
          if trim s = [] then first_verified verify token rest
          else case verify token (trim s) of Some sub \<Rightarrow> Some sub | None \<Rightarrow> first_verified verify token rest)"

definition verifyAccessToken :: "'s auth_env \<Rightarrow> string \<Rightarrow> string option" where
  "verifyAccessToken env token =
     first_verified (ae_verify env) token (case ae_secrets env of None \<Rightarrow> [] | Some ss \<Rightarrow> ss)"

definition rotate_session :: "'s auth_env \<Rightarrow> string \<Rightarrow> string \<Rightarrow> ('s, tokens option) auth_act" where
  "rotate_session env newToken token =
     bnd (au_get env (refreshKey token)) (\<lambda>stored.
       case parseRefreshValue env stored of
         (None, _) \<Rightarrow> ret None
       | (Some userId, admin) \<Rightarrow>
           if userId = [] then ret None
           else seq (au_del env (refreshKey token)) (bnd (issueTokens env newToken userId admin) (\<lambda>t. ret (Some t))))"

definition revoke :: "'s auth_env \<Rightarrow> string \<Rightarrow> ('s, unit) auth_act" where
  "revoke env token = au_del env (refreshKey token)"

definition revokeAll :: "'s auth_env \<Rightarrow> string \<Rightarrow> ('s, unit) auth_act" where
  "revokeAll env userId =
     bnd (gets (\<lambda>a. ae_keys env ''refresh:'' (acc_store a))) (\<lambda>keys.
       each (\<lambda>key. bnd (au_get env key) (\<lambda>v.
         if fst (parseRefreshValue env v) = Some userId then au_del env key else ret ())) keys)"

section \<open>Accounts\<close>

definition revokedKey :: "string \<Rightarrow> string" where "revokedKey t = ''revoked:'' @ t"
definition resetKey :: "string \<Rightarrow> string" where "resetKey e = ''reset:'' @ e"
definition resetReqKey :: "string \<Rightarrow> string" where "resetReqKey e = ''reset-req:'' @ e"

definition find_email :: "string \<Rightarrow> ('s, auth_user option) auth_act" where
  "find_email email = gets (\<lambda>a. List.find (\<lambda>u. au_email u = Some email) (acc_users a))"

definition save_user :: "auth_user \<Rightarrow> auth_user list \<Rightarrow> auth_user list" where
  "save_user u us = (if au_id u \<in> au_id ` set us then map (\<lambda>x. if au_id x = au_id u then u else x) us else us @ [u])"

definition register :: "'s auth_env \<Rightarrow> string \<Rightarrow> string \<Rightarrow> string \<Rightarrow> ('s, string) auth_act" where
  "register env newId email password =
     bnd (find_email email) (\<lambda>existing.
     seq (raise_if (existing \<noteq> None) ConflictException)
    (seq (upd (\<lambda>a. a\<lparr>acc_users := save_user \<lparr>au_id = newId, au_username = email, au_email = Some email,
            au_password = Some (ae_bcrypt env password), au_role = PlayerRole\<rparr> (acc_users a)\<rparr>))
         (ret newId)))"

definition validateUser :: "'s auth_env \<Rightarrow> string \<Rightarrow> string \<Rightarrow> ('s, auth_user option) auth_act" where
  "validateUser env email password =
     bnd (find_email email) (\<lambda>user.
       case user of
         None \<Rightarrow> ret None
       | Some u \<Rightarrow>
           (case au_password u of
              None \<Rightarrow> ret None
            | Some h \<Rightarrow> if h = [] \<or> \<not> ae_compare env password h then ret None else ret (Some u)))"

definition login :: "'s auth_env \<Rightarrow> string \<Rightarrow> string \<Rightarrow> string \<Rightarrow> ('s, tokens option) auth_act" where
  "login env newToken email password =
     bnd (validateUser env email password) (\<lambda>user.
       case user of
         None \<Rightarrow> ret None
       | Some u \<Rightarrow> bnd (issueTokens env newToken (au_id u) (au_role u = AdminRole)) (\<lambda>t. ret (Some t)))"

definition truthy_text :: "rtext option \<Rightarrow> bool" where
  "truthy_text v = (case v of None \<Rightarrow> False | Some (Raw s) \<Rightarrow> s \<noteq> [] | Some (Json _) \<Rightarrow> True)"

definition refresh :: "'s auth_env \<Rightarrow> string \<Rightarrow> string \<Rightarrow> ('s, tokens option) auth_act" where
  "refresh env newToken token =
     bnd (au_get env (revokedKey token)) (\<lambda>revoked.
       if truthy_text revoked then ret None
       else bnd (rotate_session env newToken token) (\<lambda>rotated.
         case rotated of
           None \<Rightarrow> ret None
         | Some t \<Rightarrow> seq (au_set env (revokedKey token) (Raw ''1'') (ae_refreshTtl env)) (ret (Some t))))"

definition logout :: "'s auth_env \<Rightarrow> string \<Rightarrow> ('s, unit) auth_act" where
  "logout env token = seq (au_set env (revokedKey token) (Raw ''1'') (ae_refreshTtl env)) (revoke env token)"

text \<open>A counter with a window: the count, with the expiry set by the first.\<close>

definition counted :: "'s auth_env \<Rightarrow> string \<Rightarrow> ('s, int option) auth_act" where
  "counted env key =
     bnd (gets (\<lambda>a. fst (r_incrby (ae_rd env) key 1 (acc_store a)))) (\<lambda>n.
     seq (upd (\<lambda>a. a\<lparr>acc_store := snd (r_incrby (ae_rd env) key 1 (acc_store a))\<rparr>))
    (seq (do_when (n = Some 1)
            (upd (\<lambda>a. a\<lparr>acc_store := snd (r_expire (ae_rd env) (ae_now env) key (ae_resetReqWindow env) (acc_store a))\<rparr>)))
         (ret n)))"

definition over_limit :: "int \<Rightarrow> int option \<Rightarrow> bool" where
  "over_limit limit n = (case n of None \<Rightarrow> False | Some k \<Rightarrow> k > limit)"

definition requestPasswordReset :: "'s auth_env \<Rightarrow> string \<Rightarrow> string \<Rightarrow> string option \<Rightarrow> ('s, unit) auth_act" where
  "requestPasswordReset env code email ip =
     bnd (find_email email) (\<lambda>user.
       if user = None then ret ()
       else bnd (counted env (resetReqKey email)) (\<lambda>emailCount.
         if over_limit (ae_resetReqLimit env) emailCount then ret ()
         else bnd (case ip of
                     None \<Rightarrow> ret False
                   | Some i \<Rightarrow> if i = [] then ret False
                               else bnd (counted env (resetReqKey i)) (\<lambda>n. ret (over_limit (ae_resetReqLimit env) n))) (\<lambda>stop.
           if stop then ret ()
           else seq (au_set env (resetKey email) (Raw (ae_sha256hex env code)) (ae_resetTtl env))
                    (upd (\<lambda>a. a\<lparr>acc_mails := acc_mails a @ [(email, code)]\<rparr>)))))"

text \<open>\<open>timingSafeEqual\<close> throws on buffers of different lengths.\<close>

definition verifyResetCode :: "'s auth_env \<Rightarrow> string \<Rightarrow> string \<Rightarrow> ('s, bool) auth_act" where
  "verifyResetCode env email code =
     bnd (au_get env (resetKey email)) (\<lambda>v.
       case v of
         Some (Raw stored) \<Rightarrow>
           let hashed = ae_sha256hex env code; a = ae_fromHex env stored; b = ae_fromHex env hashed
           in if stored = [] \<or> length stored \<noteq> length hashed then ret False
              else seq (raise_if (length a \<noteq> length b) BufferLengthMismatch) (ret (a = b))
       | _ \<Rightarrow> ret False)"

definition resetPassword :: "'s auth_env \<Rightarrow> string \<Rightarrow> string \<Rightarrow> string \<Rightarrow> ('s, bool) auth_act" where
  "resetPassword env email code password =
     bnd (verifyResetCode env email code) (\<lambda>valid.
       if \<not> valid then ret False
       else bnd (find_email email) (\<lambda>user.
         case user of
           None \<Rightarrow> ret False
         | Some u \<Rightarrow>
             seq (upd (\<lambda>a. a\<lparr>acc_users := save_user (u\<lparr>au_password := Some (ae_bcrypt env password)\<rparr>) (acc_users a)\<rparr>))
            (seq (revokeAll env (au_id u))
            (seq (au_del env (resetKey email)) (ret True)))))"

section \<open>Contract\<close>

locale session_redis = redis rd for rd :: "'s redis_client" +
  fixes keys :: "string \<Rightarrow> 's \<Rightarrow> string list"
  assumes keys_match: "k \<in> set (keys p s) \<Longrightarrow> take (length p) k = p"
    and keys_all: "take (length p) k = p \<Longrightarrow> r_get rd k s \<noteq> None \<Longrightarrow> k \<in> set (keys p s)"
    and incrby_other: "k \<noteq> k' \<Longrightarrow> r_get rd k (snd (r_incrby rd k' n s)) = r_get rd k s"

definition mock_session_keys :: "string \<Rightarrow> mock_redis \<Rightarrow> string list" where
  "mock_session_keys p m = filter (\<lambda>k. take (length p) k = p) (map fst (mr_store m))"

interpretation mock_session: session_redis mock_client mock_session_keys
proof (unfold_locales, goal_cases)
  case (2 p k s)
  then show ?case
    by (cases "map_of (mr_store s) k") (auto simp: mock_session_keys_def mock_client_def mock_get_def map_of_eq_None_iff dest: map_of_SomeD intro!: image_eqI)
next
  case (3 k k' n s)
  then show ?case by (simp add: mock_client_def mock_incrby_def mock_get_def update_conv' Let_def)
qed (auto simp: mock_session_keys_def)

text \<open>What a step of the service may be: a request with the environment it meets and the random values it draws.\<close>

datatype auth_op =
    Register string string string
  | Login string string string
  | Refresh string string
  | Logout string
  | RequestReset string string "string option"
  | ResetPassword string string string

fun auth_step :: "'s auth_env \<times> auth_op \<Rightarrow> 's accounts \<Rightarrow> 's accounts" where
  "auth_step (env, Register i e p) a = snd (register env i e p a)"
| "auth_step (env, Login u e p) a = snd (login env u e p a)"
| "auth_step (env, Refresh u t) a = snd (refresh env u t a)"
| "auth_step (env, Logout t) a = snd (logout env t a)"
| "auth_step (env, RequestReset c e ip) a = snd (requestPasswordReset env c e ip a)"
| "auth_step (env, ResetPassword e c p) a = snd (resetPassword env e c p a)"

text \<open>The tokens that were exchanged for new ones.\<close>

fun refreshed :: "'s auth_env \<times> auth_op \<Rightarrow> 's accounts \<Rightarrow> string list" where
  "refreshed (env, Refresh u t) a = (case fst (refresh env u t a) of Inr (Some _) \<Rightarrow> [t] | _ \<Rightarrow> [])"
| "refreshed _ a = []"

fun refreshed_run :: "('s auth_env \<times> auth_op) list \<Rightarrow> 's accounts \<Rightarrow> string list" where
  "refreshed_run [] a = []"
| "refreshed_run (x # xs) a = refreshed x a @ refreshed_run xs (auth_step x a)"

definition uses :: "'s redis_client \<Rightarrow> (string \<Rightarrow> 's \<Rightarrow> string list) \<Rightarrow> 's auth_env \<Rightarrow> bool" where
  "uses rd keys env \<longleftrightarrow> ae_rd env = rd \<and> ae_keys env = keys"

definition revoked :: "'s redis_client \<Rightarrow> string \<Rightarrow> 's accounts \<Rightarrow> bool" where
  "revoked rd t a = truthy_text (r_get rd (revokedKey t) (acc_store a))"

lemma session_keys_distinct [simp]:
  "refreshKey t \<noteq> revokedKey t'" "resetKey e \<noteq> revokedKey t'" "resetReqKey e \<noteq> revokedKey t'" "revokedKey t' \<noteq> refreshKey t"
  "revokedKey t' \<noteq> resetKey e" "revokedKey t' \<noteq> resetReqKey e" "refreshKey t \<noteq> resetKey e" "resetKey e \<noteq> refreshKey t"
  "revokedKey t = revokedKey t' \<longleftrightarrow> t = t'" "refreshKey t = refreshKey t' \<longleftrightarrow> t = t'" "resetKey e = resetKey e' \<longleftrightarrow> e = e'"
  by (auto simp: refreshKey_def revokedKey_def resetKey_def resetReqKey_def)

definition refresh_like :: "string \<Rightarrow> bool" where
  "refresh_like k \<longleftrightarrow> take (length ''refresh:'') k = ''refresh:''"

lemma refresh_like_keys: "refresh_like (refreshKey t)" "refresh_like k \<Longrightarrow> k \<noteq> revokedKey t" "refresh_like k \<Longrightarrow> k \<noteq> resetReqKey e"
  by (auto simp: refresh_like_def refreshKey_def revokedKey_def resetReqKey_def)

text \<open>What every request but the one for a reset code leaves alone: a fact about the state that survives the writes
  to the tokens, their marks, the codes and the users.\<close>

locale auth_frame = session_redis rd keys
  for rd :: "'s redis_client" and keys :: "string \<Rightarrow> 's \<Rightarrow> string list" +
  fixes P :: "'s accounts \<Rightarrow> bool"
  assumes keeps_store: "uses rd keys env \<Longrightarrow> keeps P (au_set env (refreshKey t) v ttl)"
    and keeps_mark: "uses rd keys env \<Longrightarrow> keeps P (au_set env (revokedKey t) (Raw ''1'') ttl)"
    and keeps_drop: "uses rd keys env \<Longrightarrow> refresh_like k \<Longrightarrow> keeps P (au_del env k)"
    and keeps_code: "uses rd keys env \<Longrightarrow> keeps P (au_del env (resetKey e))"
    and keeps_users: "keeps P (upd (\<lambda>a. a\<lparr>acc_users := f a\<rparr>) :: ('s, unit) auth_act)"
begin

lemma keeps_issue: "uses rd keys env \<Longrightarrow> keeps P (issueTokens env u i ad)"
  unfolding issueTokens_def by (intro keeps_intros keeps_store)

lemma keeps_rotate: "uses rd keys env \<Longrightarrow> keeps P (rotate_session env u t)"
  unfolding rotate_session_def au_get_def
  by (rule keeps_bnd, rule keeps_gets)
    (auto intro!: keeps_intros keeps_drop keeps_issue simp: refresh_like_keys split: prod.splits option.splits)

lemma keeps_refresh: "uses rd keys env \<Longrightarrow> keeps P (refresh env u t)"
  unfolding refresh_def au_get_def
  by (rule keeps_bnd, rule keeps_gets) (intro keeps_intros keeps_rotate keeps_mark)

lemma keeps_revokeAll:
  assumes "uses rd keys env"
  shows "keeps P (revokeAll env i)"
  unfolding revokeAll_def
proof (rule keeps_bnd_gets)
  fix a assume "P a"
  have "keeps P (each (\<lambda>key. bnd (au_get env key) (\<lambda>v.
      if fst (parseRefreshValue env v) = Some i then au_del env key else ret ())) (ae_keys env ''refresh:'' (acc_store a)))"
    unfolding au_get_def using keys_match [of _ "''refresh:''" "acc_store a"] assms
    by (intro keeps_intros keeps_drop assms) (auto simp: uses_def refresh_like_def)
  then show "P (snd (each (\<lambda>key. bnd (au_get env key) (\<lambda>v.
      if fst (parseRefreshValue env v) = Some i then au_del env key else ret ())) (ae_keys env ''refresh:'' (acc_store a)) a))"
    using \<open>P a\<close> by (simp add: keeps_def)
qed

lemma keeps_verify: "keeps P (verifyResetCode env e c)"
  unfolding verifyResetCode_def au_get_def Let_def
  by (rule keeps_bnd, rule keeps_gets) (auto intro!: keeps_intros split: option.splits rtext.splits)

lemma keeps_resetPassword: "uses rd keys env \<Longrightarrow> keeps P (resetPassword env e c p)"
  unfolding resetPassword_def find_email_def
  by (intro keeps_intros keeps_users keeps_revokeAll keeps_code keeps_verify)

lemma keeps_login: "uses rd keys env \<Longrightarrow> keeps P (login env u e p)"
  unfolding login_def validateUser_def find_email_def by (intro keeps_intros keeps_issue)

lemma keeps_logout: "uses rd keys env \<Longrightarrow> keeps P (logout env t)"
  unfolding logout_def revoke_def by (intro keeps_intros keeps_mark keeps_drop refresh_like_keys)

lemma keeps_register: "keeps P (register env i e p)"
  unfolding register_def find_email_def by (intro keeps_intros keeps_users)

lemma keeps_step:
  assumes "uses rd keys env" "\<And>c e ip. op = RequestReset c e ip \<Longrightarrow> keeps P (requestPasswordReset env c e ip)" "P a"
  shows "P (auth_step (env, op) a)"
  using keeps_refresh [OF assms(1)] keeps_login [OF assms(1)] keeps_logout [OF assms(1)] keeps_resetPassword [OF assms(1)]
    keeps_register assms(2,3)
  by (cases op) (auto simp: keeps_def)

end

context session_redis
begin

lemma revoked_frame: "auth_frame rd keys (revoked rd t)"
proof (unfold_locales, goal_cases)
  case (3 env k)
  then have "k \<noteq> revokedKey t" by (simp add: refresh_like_keys)
  then show ?case
    using 3 unfolding au_del_def by (intro keeps_upd) (auto simp: revoked_def uses_def get_del)
qed (simp_all add: au_set_def au_del_def keeps_def upd_def revoked_def uses_def setWithOptions_set get_set get_del truthy_text_def)

lemma keeps_revoked_request:
  assumes "uses rd keys env"
  shows "keeps (revoked rd t) (requestPasswordReset env c e ip)"
proof -
  have set: "keeps (revoked rd t) (au_set env (resetKey e) v ttl)" for v ttl
    using assms unfolding au_set_def by (intro keeps_upd) (auto simp: revoked_def uses_def setWithOptions_set get_set)
  have count: "keeps (revoked rd t) (counted env (resetReqKey k))" for k
    unfolding counted_def using assms
    by (intro keeps_intros keeps_upd) (auto simp: revoked_def uses_def incrby_other get_expire)
  have "keeps (revoked rd t) (upd (\<lambda>a. a\<lparr>acc_mails := f a\<rparr>) :: ('s, unit) auth_act)" for f
    by (intro keeps_upd) (simp add: revoked_def)
  then show ?thesis
    unfolding requestPasswordReset_def find_email_def by (intro keeps_intros set count)
qed

lemma step_revoked:
  assumes "uses rd keys (fst x)" "revoked rd t a"
  shows "revoked rd t (auth_step x a)"
  using auth_frame.keeps_step [OF revoked_frame assms(1) _ assms(2), of "snd x"] keeps_revoked_request [OF assms(1)] by simp

lemma refreshed_revoked:
  assumes "uses rd keys (fst x)" "t \<in> set (refreshed x a)"
  shows "revoked rd t (auth_step x a)" "\<not> revoked rd t a"
proof -
  obtain env u t1 where x: "x = (env, Refresh u t)" "fst (refresh env u t a) = Inr (Some t1)"
    using assms(2) by (cases "(x, a)" rule: refreshed.cases) (auto split: sum.splits option.splits dest: sym)
  have u: "ae_rd env = rd" using assms(1) x by (simp add: uses_def)
  show "\<not> revoked rd t a"
    using x(2) u by (auto simp: refresh_def au_get_def revoked_def run_simps)
  have w: "wp (refresh env u t) (\<lambda>r. \<lambda>a'. r \<noteq> None \<longrightarrow> revoked rd t a') (\<lambda>_. True) a"
  proof -
    have "wp (rotate_session env u t) (\<lambda>rotated. wp (case rotated of None \<Rightarrow> ret None
        | Some t' \<Rightarrow> seq (au_set env (revokedKey t) (Raw ''1'') (ae_refreshTtl env)) (ret (Some t')))
        (\<lambda>r a'. r \<noteq> None \<longrightarrow> revoked rd t a') (\<lambda>_. True)) (\<lambda>_. True) s" for s
      by (cases "rotate_session env u t s"; cases "fst (rotate_session env u t s)")
        (auto simp: wp_def ret_def au_set_def upd_def seq_def bnd_def revoked_def truthy_text_def setWithOptions_set get_set u split: option.splits)
    then show ?thesis by (simp add: refresh_def au_get_def wp_simps)
  qed
  have "refresh env u t a = (Inr (Some t1), auth_step x a)" using x(2) by (cases "refresh env u t a") (simp add: x(1))
  then show "revoked rd t (auth_step x a)" using wp_run(1) [OF w] by blast
qed

lemma refreshed_distinct: "distinct (refreshed x a)"
  by (cases "(x, a)" rule: refreshed.cases) (auto split: sum.splits option.splits)

lemma run_revoked:
  assumes "\<forall>x\<in>set run. uses rd keys (fst x)"
  shows "distinct (refreshed_run run a) \<and> (\<forall>t. revoked rd t a \<longrightarrow> t \<notin> set (refreshed_run run a))"
  using assms
proof (induction run arbitrary: a)
  case (Cons x run)
  have u: "uses rd keys (fst x)" using Cons.prems by simp
  have IH: "distinct (refreshed_run run (auth_step x a))"
    "\<And>t. revoked rd t (auth_step x a) \<Longrightarrow> t \<notin> set (refreshed_run run (auth_step x a))"
    using Cons by auto
  then show ?case
    using refreshed_revoked [OF u, of _ a] step_revoked [OF u, of _ a] refreshed_distinct [of x a] by auto
qed simp

lemma logout_revoked: "uses rd keys env \<Longrightarrow> revoked rd t (auth_step (env, Logout t) a)"
  by (simp add: logout_def revoke_def au_set_def au_del_def run_simps revoked_def truthy_text_def setWithOptions_set get_set get_del uses_def)

end

section \<open>Properties\<close>


text \<open>A stand-in for signatures: the user and the secret, told apart by a unary length.\<close>

definition demo_sign :: "string \<Rightarrow> bool \<Rightarrow> string \<Rightarrow> nat \<Rightarrow> string" where
  "demo_sign u ad s ttl = replicate (length u) (CHR '' '') @ ''.'' @ u @ s"

definition demo_verify :: "string \<Rightarrow> string \<Rightarrow> string option" where
  "demo_verify t s = (let n = length (takeWhile (\<lambda>c. c = CHR '' '') t); r = drop (n + 1) t
     in if drop n r = s then Some (take n r) else None)"

lemma demo_verify_sign: "demo_verify (demo_sign u ad s ttl) s' = (if s' = s then Some u else None)"
proof -
  have "takeWhile (\<lambda>c. c = CHR '' '') (demo_sign u ad s ttl) = replicate (length u) (CHR '' '')"
    unfolding demo_sign_def by (subst takeWhile_append2) auto
  then show ?thesis by (simp add: demo_verify_def demo_sign_def Let_def)
qed

definition demo_auth_env :: "mock_redis auth_env" where
  "demo_auth_env = \<lparr>ae_rd = mock_client, ae_keys = mock_session_keys, ae_secrets = Some [None, Some '' new '', Some ''old''],
     ae_accessTtl = 900, ae_refreshTtl = 604800, ae_resetReqLimit = 5, ae_resetReqWindow = 3600, ae_resetTtl = 900,
     ae_sign = demo_sign, ae_verify = demo_verify,
     ae_bcrypt = id, ae_compare = (=), ae_sha256hex = id, ae_fromHex = map of_char, ae_stringify = (\<lambda>_. ''{}''), ae_now = 0\<rparr>"

definition demo_user :: auth_user where
  "demo_user = \<lparr>au_id = ''u1'', au_username = ''a'', au_email = Some ''a'', au_password = Some ''pw'', au_role = PlayerRole\<rparr>"

definition demo_accounts :: "mock_redis accounts" where
  "demo_accounts = \<lparr>acc_users = [demo_user], acc_store = empty_mock, acc_mails = []\<rparr>"

lemmas demo_auth_defs = demo_auth_env_def demo_user_def demo_accounts_def mock_client_def mock_set_def mock_get_def mock_del_def
  mock_incrby_def mock_expire_def empty_mock_def

lemma demo_refreshed:
  "refreshed_run [(demo_auth_env, Login ''t1'' ''a'' ''pw''), (demo_auth_env, Refresh ''t2'' ''t1''), (demo_auth_env, Refresh ''t3'' ''t1'')]
     demo_accounts = [''t1'']"
  by (simp add: login_def validateUser_def find_email_def issueTokens_def availableSecrets_def refresh_def rotate_session_def au_get_def
      au_set_def au_del_def parseRefreshValue_def refreshValue_def refreshKey_def revokedKey_def truthy_text_def setWithOptions_def
      trim_def js_space_def List.map_filter_simps bnd_def seq_def gets_def upd_def ret_def raise_if_def demo_auth_defs Let_def)


section \<open>Password resets\<close>

definition held_by :: "'s auth_env \<Rightarrow> string \<Rightarrow> string \<Rightarrow> 's accounts \<Rightarrow> bool" where
  "held_by env i k a \<longleftrightarrow> fst (parseRefreshValue env (r_get (ae_rd env) k (acc_store a))) = Some i"

lemma held_by_some: "held_by env i k a \<Longrightarrow> r_get (ae_rd env) k (acc_store a) \<noteq> None"
  by (cases "r_get (ae_rd env) k (acc_store a)") (auto simp: held_by_def parseRefreshValue_def)

lemma run_seq_unit: "m s = (Inr (), s') \<Longrightarrow> seq m m' s = m' s'"
  by (simp add: seq_def bnd_def)

context session_redis
begin

lemma revoke_each:
  assumes "ae_rd env = rd"
  shows "\<exists>a'. each (\<lambda>key. bnd (au_get env key) (\<lambda>v.
      if fst (parseRefreshValue env v) = Some i then au_del env key else ret ())) ks a = (Inr (), a')
    \<and> acc_users a' = acc_users a \<and> acc_mails a' = acc_mails a
    \<and> (\<forall>k. r_get rd k (acc_store a') = (if k \<in> set ks \<and> held_by env i k a then None else r_get rd k (acc_store a)))"
proof (induction ks arbitrary: a)
  case (Cons key ks)
  let ?a = "if held_by env i key a then a\<lparr>acc_store := r_del rd key (acc_store a)\<rparr> else a"
  have first: "bnd (au_get env key) (\<lambda>v. if fst (parseRefreshValue env v) = Some i then au_del env key else ret ()) a = (Inr (), ?a)"
    using assms by (simp add: au_get_def au_del_def held_by_def run_simps)
  have get: "r_get rd k (acc_store ?a) = (if k = key \<and> held_by env i key a then None else r_get rd k (acc_store a))" for k
    by (simp add: get_del)
  have held: "held_by env i k ?a \<longleftrightarrow> held_by env i k a \<and> k \<noteq> key" for k
    using assms get [of k] by (auto simp: held_by_def parseRefreshValue_def)
  obtain a' where a': "each (\<lambda>key. bnd (au_get env key) (\<lambda>v.
      if fst (parseRefreshValue env v) = Some i then au_del env key else ret ())) ks ?a = (Inr (), a')"
    "acc_users a' = acc_users ?a" "acc_mails a' = acc_mails ?a"
    "\<forall>k. r_get rd k (acc_store a') = (if k \<in> set ks \<and> held_by env i k ?a then None else r_get rd k (acc_store ?a))"
    using Cons.IH [of ?a] by blast
  have "\<forall>k. r_get rd k (acc_store a') = (if k \<in> set (key # ks) \<and> held_by env i k a then None else r_get rd k (acc_store a))"
    using a'(4) get held by auto
  moreover have "acc_users a' = acc_users a" "acc_mails a' = acc_mails a" using a'(2,3) by simp_all
  ultimately show ?case using a'(1) by (auto simp: run_seq_unit [where m = "bnd (au_get env key) (\<lambda>v. if fst (parseRefreshValue env v) = Some i then au_del env key else ret ())",
        OF first])
qed (simp add: run_simps)

lemma revokeAll_run:
  assumes "uses rd keys env"
  shows "\<exists>a'. revokeAll env i a = (Inr (), a') \<and> acc_users a' = acc_users a \<and> acc_mails a' = acc_mails a
    \<and> (\<forall>t. \<not> held_by env i (refreshKey t) a') \<and> (\<forall>e. r_get rd (resetKey e) (acc_store a') = r_get rd (resetKey e) (acc_store a))"
proof -
  let ?ks = "keys ''refresh:'' (acc_store a)"
  have u: "ae_rd env = rd" "ae_keys env = keys" using assms by (simp_all add: uses_def)
  obtain a' where a': "each (\<lambda>key. bnd (au_get env key) (\<lambda>v.
      if fst (parseRefreshValue env v) = Some i then au_del env key else ret ())) ?ks a = (Inr (), a')"
    "acc_users a' = acc_users a" "acc_mails a' = acc_mails a"
    "\<And>k. r_get rd k (acc_store a') = (if k \<in> set ?ks \<and> held_by env i k a then None else r_get rd k (acc_store a))"
    using revoke_each [OF u(1), of i ?ks a] by blast
  have "refreshKey t \<in> set ?ks" if "r_get rd (refreshKey t) (acc_store a) \<noteq> None" for t
    by (rule keys_all [OF _ that]) (simp add: refreshKey_def)
  then have "\<not> held_by env i (refreshKey t) a'" for t
    using a'(4) [of "refreshKey t"] u(1) held_by_some [of env i "refreshKey t" a] held_by_some [of env i "refreshKey t" a']
    by (auto simp: held_by_def split: if_splits)
  moreover have "resetKey e \<notin> set ?ks" for e
    using keys_match [of "resetKey e" "''refresh:''" "acc_store a"] by (auto simp: resetKey_def)
  ultimately show ?thesis
    using a' u(2) by (intro exI [of _ a']) (simp add: revokeAll_def run_simps)
qed

end

text \<open>C25: a password reset ends every session. When \<open>resetPassword\<close> succeeds, the user of the address has the new password,
  no stored refresh token belongs to the user any more, so that none can be exchanged for tokens of this user, and the
  code that was used verifies no longer, nor does any other.\<close>

theorem reset_revokes:
  assumes "session_redis rd keys" "uses rd keys env" "resetPassword env email code password a = (Inr True, a')"
  shows "\<exists>u. List.find (\<lambda>u. au_email u = Some email) (acc_users a) = Some u
     \<and> acc_users a' = save_user (u\<lparr>au_password := Some (ae_bcrypt env password)\<rparr>) (acc_users a)
     \<and> (\<forall>t. fst (parseRefreshValue env (r_get rd (refreshKey t) (acc_store a'))) \<noteq> Some (au_id u))
     \<and> (\<forall>code'. verifyResetCode env email code' a' = (Inr False, a'))"
proof -
  note r = session_redis.axioms(1) [OF assms(1)]
  have u: "ae_rd env = rd" using assms(2) by (simp add: uses_def)
  have v: "snd (verifyResetCode env email code a) = a"
    by (auto simp: verifyResetCode_def au_get_def run_simps Let_def raise_if_def split: option.splits rtext.splits)
  obtain us where us: "List.find (\<lambda>u. au_email u = Some email) (acc_users a) = Some us"
    "seq (upd (\<lambda>a. a\<lparr>acc_users := save_user (us\<lparr>au_password := Some (ae_bcrypt env password)\<rparr>) (acc_users a)\<rparr>))
      (seq (revokeAll env (au_id us)) (seq (au_del env (resetKey email)) (ret True))) a = (Inr True, a')"
    using assms(3) v unfolding resetPassword_def find_email_def
    by (cases "verifyResetCode env email code a"; cases "fst (verifyResetCode env email code a)")
      (auto simp: bnd_def run_simps gets_def split: if_splits option.splits)
  let ?a = "a\<lparr>acc_users := save_user (us\<lparr>au_password := Some (ae_bcrypt env password)\<rparr>) (acc_users a)\<rparr>"
  obtain b where b: "revokeAll env (au_id us) ?a = (Inr (), b)" "acc_users b = acc_users ?a"
    "\<forall>t. \<not> held_by env (au_id us) (refreshKey t) b"
    using session_redis.revokeAll_run [OF assms(1,2), of "au_id us" ?a] by blast
  have a': "a' = b\<lparr>acc_store := r_del rd (resetKey email) (acc_store b)\<rparr>"
    using us(2) u by (simp add: au_del_def run_simps run_seq_unit [where m = "revokeAll env (au_id us)", OF b(1)])
  have "r_get rd (resetKey email) (acc_store a') = None" "\<And>t. r_get rd (refreshKey t) (acc_store a') = r_get rd (refreshKey t) (acc_store b)"
    using redis.get_del [OF r] by (simp_all add: a')
  then show ?thesis
    using us(1) b(2,3) a' u by (simp add: held_by_def verifyResetCode_def au_get_def run_simps)
qed

definition demo_signed_in :: "mock_redis accounts" where
  "demo_signed_in = fold auth_step
     [(demo_auth_env, Login ''t1'' ''a'' ''pw''), (demo_auth_env, RequestReset ''123456'' ''a'' None)] demo_accounts"

lemmas auth_ops = login_def validateUser_def find_email_def issueTokens_def availableSecrets_def refresh_def rotate_session_def au_get_def
  au_set_def au_del_def parseRefreshValue_def refreshValue_def refreshKey_def revokedKey_def truthy_text_def setWithOptions_def
  requestPasswordReset_def counted_def over_limit_def resetReqKey_def resetKey_def resetPassword_def verifyResetCode_def revokeAll_def
  save_user_def mock_session_keys_def trim_def js_space_def

lemma int_to_string_one: "int_to_string 1 = ''1''"
  by code_simp

lemma parseInt10_one: "parseInt10 ''1'' = Some 1"
  by (metis int_to_string_one parseInt10_int_to_string)

lemma demo_signed_in_eval:
  "acc_users demo_signed_in = [demo_user]" "mr_store (acc_store demo_signed_in) = [(''refresh:t1'', Raw ''u1''), (''reset-req:a'', Raw ''1''), (''reset:a'', Raw ''123456'')]"
  by (simp_all add: demo_signed_in_def auth_ops List.map_filter_simps bnd_def seq_def gets_def upd_def ret_def raise_if_def do_when_def
      demo_auth_defs parseInt10_zero parseInt10_one int_to_string_one Let_def)

theorem reset_revokes_witness:
  "\<exists>a'. resetPassword demo_auth_env ''a'' ''123456'' ''new'' demo_signed_in = (Inr True, a')
     \<and> fst (parseRefreshValue demo_auth_env (r_get mock_client (refreshKey ''t1'') (acc_store demo_signed_in))) = Some ''u1''
     \<and> (\<forall>t. fst (parseRefreshValue demo_auth_env (r_get mock_client (refreshKey t) (acc_store a'))) \<noteq> Some ''u1'')"
proof -
  obtain a' where a': "resetPassword demo_auth_env ''a'' ''123456'' ''new'' demo_signed_in = (Inr True, a')"
    by (simp add: auth_ops bnd_def seq_def gets_def upd_def ret_def raise_if_def demo_auth_defs demo_signed_in_eval Let_def)
  have "fst (parseRefreshValue demo_auth_env (r_get mock_client (refreshKey ''t1'') (acc_store demo_signed_in))) = Some ''u1''"
    by (simp add: mock_client_def mock_get_def demo_signed_in_eval refreshKey_def parseRefreshValue_def)
  moreover have "uses mock_client mock_session_keys demo_auth_env" by (simp add: uses_def demo_auth_env_def)
  ultimately show ?thesis
    using reset_revokes [OF mock_session.session_redis_axioms _ a'] a' by (auto simp: demo_signed_in_eval demo_user_def)
qed

section \<open>Access tokens\<close>

lemma first_verified_found:
  assumes "Some s \<in> set ss" "trim s = s'" "s' \<noteq> []" "\<And>s2. verify token s2 = (if s2 = s' then Some sub else None)"
  shows "first_verified verify token ss = Some sub"
  using assms(1) by (induction ss) (auto simp: assms(2-4) split: option.splits)

lemma availableSecrets_mem:
  "x \<in> set (availableSecrets env) \<Longrightarrow> \<exists>ss s. ae_secrets env = Some ss \<and> Some s \<in> set ss \<and> trim s = x \<and> x \<noteq> []"
  by (cases "ae_secrets env") (auto simp: availableSecrets_def map_filter_def)

text \<open>access tokens verify across a change of secrets. A token issued under one configuration is accepted, for its own user,
  under any other that still lists the secret it was signed with, wherever it stands and with whatever white space around it, if a signature
  verifies under its own secret only.\<close>

theorem access_token_verifies:
  assumes "issueTokens env newToken userId admin a = (Inr t, a')"
    and "\<And>u ad s ttl s'. ae_verify env' (ae_sign env u ad s ttl) s' = (if s' = s then Some u else None)"
    and "set (availableSecrets env) \<subseteq> set (availableSecrets env')"
  shows "verifyAccessToken env' (accessToken t) = Some userId"
proof -
  let ?s = "hd (availableSecrets env)"
  have ne: "availableSecrets env \<noteq> []" and t: "accessToken t = ae_sign env userId admin ?s (ae_accessTtl env)"
    using assms(1) by (auto simp: issueTokens_def seq_def bnd_def raise_if_def ret_def raise_def au_set_def upd_def split: if_splits)
  have "?s \<in> set (availableSecrets env')" using ne assms(3) by (simp add: subset_iff)
  then obtain ss s where s: "ae_secrets env' = Some ss" "Some s \<in> set ss" "trim s = ?s" "?s \<noteq> []"
    using availableSecrets_mem by blast
  then show ?thesis
    unfolding verifyAccessToken_def t
    by (simp add: first_verified_found [OF s(2,3,4), of "ae_verify env'" _ userId] assms(2))
qed

theorem access_token_verifies_witness:
  "\<exists>t a'. issueTokens demo_auth_env ''t1'' ''u1'' False demo_accounts = (Inr t, a')
     \<and> verifyAccessToken (demo_auth_env\<lparr>ae_secrets := Some [Some ''newer'', Some ''new '', None, Some ''old'']\<rparr>) (accessToken t) = Some ''u1''"
proof -
  let ?env' = "demo_auth_env\<lparr>ae_secrets := Some [Some ''newer'', Some ''new '', None, Some ''old'']\<rparr>"
  obtain t a' where t: "issueTokens demo_auth_env ''t1'' ''u1'' False demo_accounts = (Inr t, a')"
    by (simp add: auth_ops List.map_filter_simps bnd_def seq_def gets_def upd_def ret_def raise_if_def demo_auth_defs)
  have "verifyAccessToken ?env' (accessToken t) = Some ''u1''"
    by (rule access_token_verifies [OF t])
      (simp_all add: demo_auth_env_def demo_verify_sign availableSecrets_def trim_def js_space_def List.map_filter_simps)
  then show ?thesis using t by blast
qed

interpretation revoked_marks: auth_frame mock_client mock_session_keys "revoked mock_client t" for t
  by (rule mock_session.revoked_frame)

section \<open>Reset codes\<close>

definition requests_left :: "'s redis_client \<Rightarrow> string \<Rightarrow> int \<Rightarrow> (string \<times> string) list \<Rightarrow> 's accounts \<Rightarrow> bool" where
  "requests_left rd e n mails a \<longleftrightarrow> counter_of (r_get rd (resetReqKey e) (acc_store a)) = Some n \<and> acc_mails a = mails"

definition mails_to :: "string \<Rightarrow> 's accounts \<Rightarrow> nat" where
  "mails_to e a = length (filter (\<lambda>m. fst m = e) (acc_mails a))"

lemma reset_keys_distinct [simp]:
  "resetReqKey e \<noteq> refreshKey t" "resetReqKey e \<noteq> revokedKey t" "resetReqKey e \<noteq> resetKey e'" "resetReqKey e = resetReqKey e' \<longleftrightarrow> e = e'"
  by (auto simp: refreshKey_def revokedKey_def resetKey_def resetReqKey_def)

context session_redis
begin

lemma requests_frame: "auth_frame rd keys (requests_left rd e n mails)"
proof (unfold_locales, goal_cases)
  case (3 env k)
  then have "resetReqKey e \<noteq> k" using refresh_like_keys(3) by blast
  then show ?case
    using 3 by (simp add: au_del_def keeps_def upd_def requests_left_def uses_def get_del)
qed (simp_all add: au_set_def au_del_def keeps_def upd_def requests_left_def uses_def setWithOptions_set get_set get_del)

lemma counted_run:
  assumes "ae_rd env = rd" "requests_left rd e n mails a"
  shows "\<exists>r a'. counted env (resetReqKey k) a = (Inr r, a') \<and> acc_users a' = acc_users a
     \<and> requests_left rd e (if k = e then n + 1 else n) mails a' \<and> (k = e \<longrightarrow> r = Some (n + 1))"
proof -
  let ?s = "acc_store a" and ?k = "resetReqKey k"
  have c: "counter_of (r_get rd (resetReqKey e) ?s) = Some n" "acc_mails a = mails" using assms(2) by (simp_all add: requests_left_def)
  have get: "counter_of (r_get rd (resetReqKey e) (snd (r_incrby rd ?k 1 ?s))) = Some (if k = e then n + 1 else n)"
    using c(1) by (cases "k = e") (simp_all add: incrby_get incrby_other counter_of_def)
  have "k = e \<Longrightarrow> fst (r_incrby rd ?k 1 ?s) = Some (n + 1)" using c(1) incrby_result by blast
  with get show ?thesis
    using assms(1) c(2) by (auto simp: counted_def run_simps do_when_def requests_left_def get_expire)
qed

lemma request_left:
  assumes u: "uses rd keys env" and a: "requests_left rd e n mails a" "ae_resetReqLimit env \<le> L"
  shows "\<exists>n' mails'. requests_left rd e n' mails' (snd (requestPasswordReset env c e' ip a))
     \<and> length (filter (\<lambda>m. fst m = e) mails') + nat (L - n') \<le> length (filter (\<lambda>m. fst m = e) mails) + nat (L - n)"
proof -
  let ?f = "\<lambda>xs. length (filter (\<lambda>m. fst m = e) xs)"
  let ?lim = "ae_resetReqLimit env"
  have rd: "ae_rd env = rd" using u by (simp add: uses_def)
  show ?thesis
  proof (cases "List.find (\<lambda>u. au_email u = Some e') (acc_users a)")
    case None
    then show ?thesis using a by (auto simp: requestPasswordReset_def find_email_def run_simps)
  next
    case (Some us)
    obtain r1 a1 where c1: "counted env (resetReqKey e') a = (Inr r1, a1)" "requests_left rd e (if e' = e then n + 1 else n) mails a1"
      "e' = e \<longrightarrow> r1 = Some (n + 1)"
      using counted_run [OF rd a(1), of e'] by blast
    define n1 where "n1 = (if e' = e then n + 1 else n)"
    have n1: "n \<le> n1" "requests_left rd e n1 mails a1" using c1(2) by (simp_all add: n1_def)
    let ?second = "case ip of None \<Rightarrow> ret False
      | Some i \<Rightarrow> if i = [] then ret False else bnd (counted env (resetReqKey i)) (\<lambda>n. ret (over_limit ?lim n))"
    obtain b a2 n2 where c2: "?second a1 = (Inr b, a2)" "requests_left rd e n2 mails a2" "n1 \<le> n2"
    proof (cases "ip = None \<or> ip = Some []")
      case True
      then show ?thesis using n1 that [of False a1 n1] by (auto simp: run_simps)
    next
      case False
      then obtain i where i: "ip = Some i" "i \<noteq> []" by auto
      obtain r a2 where "counted env (resetReqKey i) a1 = (Inr r, a2)" "requests_left rd e (if i = e then n1 + 1 else n1) mails a2"
        using counted_run [OF rd n1(2), of i] by blast
      then show ?thesis using i that [of "over_limit ?lim r" a2 "if i = e then n1 + 1 else n1"] by (simp add: bnd_def run_simps)
    qed
    let ?rest = "\<lambda>stop. if stop then ret () else seq (au_set env (resetKey e') (Raw (ae_sha256hex env c)) (ae_resetTtl env))
        (upd (\<lambda>a. a\<lparr>acc_mails := acc_mails a @ [(e', c)]\<rparr>))"
    have run: "snd (requestPasswordReset env c e' ip a) = (if over_limit ?lim r1 then a1 else snd (?rest b a2))"
      using Some c1(1) c2(1) unfolding requestPasswordReset_def find_email_def by (simp add: bnd_def run_simps)
    have sent: "requests_left rd e n2 (mails @ [(e', c)]) (snd (?rest False a2))"
      using c2(2) rd by (simp add: au_set_def run_simps requests_left_def setWithOptions_set get_set)
    show ?thesis
    proof (cases "over_limit ?lim r1 \<or> b")
      case True
      then show ?thesis using run n1 c2(2,3) by (cases "over_limit ?lim r1") (fastforce simp: run_simps)+
    next
      case False
      then have "e' = e \<Longrightarrow> n + 1 \<le> L" using c1(3) a(2) by (simp add: over_limit_def)
      then have "?f (mails @ [(e', c)]) + nat (L - n2) \<le> ?f mails + nat (L - n)"
        using n1(1) c2(3) by (auto simp: n1_def)
      then show ?thesis using run sent False by (intro exI [of _ n2] exI [of _ "mails @ [(e', c)]"]) simp
    qed
  qed
qed

lemma step_left:
  assumes "uses rd keys (fst x)" "requests_left rd e n mails a" "ae_resetReqLimit (fst x) \<le> L"
  shows "\<exists>n' mails'. requests_left rd e n' mails' (auth_step x a)
     \<and> length (filter (\<lambda>m. fst m = e) mails') + nat (L - n') \<le> length (filter (\<lambda>m. fst m = e) mails) + nat (L - n)"
proof (cases "\<exists>c e' ip. snd x = RequestReset c e' ip")
  case True
  then show ?thesis using request_left [OF assms] by (cases x) auto
next
  case False
  then have "requests_left rd e n mails (auth_step (fst x, snd x) a)"
    by (intro auth_frame.keeps_step [OF requests_frame assms(1) _ assms(2)]) auto
  then show ?thesis by auto
qed

lemma run_left:
  assumes "\<forall>x\<in>set run. uses rd keys (fst x) \<and> ae_resetReqLimit (fst x) \<le> L" "requests_left rd e n (acc_mails a) a"
  shows "mails_to e (fold auth_step run a) \<le> mails_to e a + nat (L - n)"
  using assms
proof (induction run arbitrary: n a)
  case (Cons x run)
  obtain n' mails' where s: "requests_left rd e n' mails' (auth_step x a)"
    "length (filter (\<lambda>m. fst m = e) mails') + nat (L - n') \<le> mails_to e a + nat (L - n)"
    using step_left [of x e n "acc_mails a" a L] Cons.prems by (auto simp: mails_to_def)
  moreover have m: "acc_mails (auth_step x a) = mails'" using s(1) by (simp add: requests_left_def)
  ultimately show ?case using Cons.IH [of n' "auth_step x a"] Cons.prems(1) by (simp add: mails_to_def)
qed (simp add: mails_to_def)

end

text \<open>the requests for reset codes are limited. From a fresh counter and until it expires, at most \<open>L\<close> codes are mailed
  to one address over any run of the service, if \<open>L\<close> bounds the configured limit.\<close>

theorem reset_codes_limited:
  assumes "session_redis rd keys" "\<forall>x\<in>set run. uses rd keys (fst x) \<and> ae_resetReqLimit (fst x) \<le> L"
    and "r_get rd (resetReqKey e) (acc_store a) = None"
  shows "mails_to e (fold auth_step run a) \<le> mails_to e a + nat L"
  using session_redis.run_left [OF assms(1,2), of e 0 a] assms(3) by (simp add: requests_left_def counter_of_def)

theorem reset_codes_limited_witness:
  "mails_to ''a'' (fold auth_step (replicate 9 (demo_auth_env, RequestReset ''123456'' ''a'' None)) demo_accounts) \<le> 5"
  using reset_codes_limited [OF mock_session.session_redis_axioms,
      of "replicate 9 (demo_auth_env, RequestReset ''123456'' ''a'' None)" 5 "''a''" demo_accounts]
  by (simp add: uses_def mails_to_def demo_auth_defs)

end
