(* ===== verification/Collusion.thy ===== *)
theory Collusion
  imports Prelude Doubles "HOL-Library.AList"
begin

text \<open>
  Detection of collusion: the detectors of \<open>shared/analytics/collusion.ts\<close>, the service of
  \<open>backend/src/analytics/collusion.service.ts\<close> with its review of flagged sessions, and the periodic job of
  \<open>backend/src/analytics/collusion.ts\<close>.

  Numbers the detectors compute with are rationals rounded to doubles after every operation; \<open>Math.sqrt\<close> is an argument.
  Maps and objects are association lists in order of insertion (their keys, identifiers and addresses, are not array
  indices). Redis is a record of the commands used on sets and lists. The events sent to the analytics service are left out.
\<close>

section \<open>Detectors\<close>

record session =
  ss_playerId :: string
  ss_ip :: string

record transfer =
  tf_from :: string
  tf_to :: string
  tf_amount :: rat

record bet_event =
  be_handId :: string
  be_playerId :: string
  be_timeMs :: rat

text \<open>\<open>map.get(k).add(x)\<close> on a \<open>Map\<close> of \<open>Set\<close>s.\<close>

definition add_to_group :: "'k \<Rightarrow> 'a \<Rightarrow> ('k \<times> 'a list) list \<Rightarrow> ('k \<times> 'a list) list" where
  "add_to_group k x m =
     (let old = (case map_of m k of None \<Rightarrow> [] | Some xs \<Rightarrow> xs)
      in AList.update k (if x \<in> set old then old else old @ [x]) m)"

definition detectSharedIP :: "session list \<Rightarrow> (string \<times> string list) list" where
  "detectSharedIP sessions =
     filter (\<lambda>(ip, players). length players > 1)
       (fold (\<lambda>s. add_to_group (ss_ip s) (ss_playerId s)) sessions [])"

definition clusterBySharedValues :: "(string \<times> string list) list \<Rightarrow> (string \<times> string list) list" where
  "clusterBySharedValues userValues =
     filter (\<lambda>(_, users). length users > 1)
       (fold (\<lambda>(user, vals). fold (\<lambda>v. add_to_group v user) vals) userValues [])"

definition balance_in :: "(string \<times> rat) list \<Rightarrow> string \<Rightarrow> rat" where
  "balance_in bs p = (case map_of bs p of None \<Rightarrow> 0 | Some b \<Rightarrow> b)"

definition add_transfer :: "transfer \<Rightarrow> (string \<times> rat) list \<Rightarrow> (string \<times> rat) list" where
  "add_transfer t bs =
     (let bs1 = AList.update (tf_from t) (fl (balance_in bs (tf_from t) - tf_amount t)) bs
      in AList.update (tf_to t) (fl (balance_in bs1 (tf_to t) + tf_amount t)) bs1)"

definition fl_sum :: "rat list \<Rightarrow> rat" where
  "fl_sum xs = foldl (\<lambda>a b. fl (a + b)) 0 xs"

fun max_of :: "rat \<Rightarrow> rat list \<Rightarrow> rat" where
  "max_of m [] = m"
| "max_of m (x # xs) = max_of (max m x) xs"

definition detectChipDump :: "transfer list \<Rightarrow> rat" where
  "detectChipDump transfers =
     (let imbalances = map (\<lambda>(_, b). \<bar>b\<bar>) (fold add_transfer transfers []);
          total = fl_sum imbalances
      in case imbalances of
           [] \<Rightarrow> 0
         | x # xs \<Rightarrow> if total = 0 then 0 else fl (max_of x xs / total))"

definition add_bet :: "bet_event \<Rightarrow> (string \<times> bet_event list) list \<Rightarrow> (string \<times> bet_event list) list" where
  "add_bet e m = AList.update (be_handId e) ((case map_of m (be_handId e) of None \<Rightarrow> [] | Some xs \<Rightarrow> xs) @ [e]) m"

definition detectSynchronizedBetting :: "rat \<Rightarrow> bet_event list \<Rightarrow> (string \<times> string list) list" where
  "detectSynchronizedBetting windowMs events =
     List.map_filter (\<lambda>(handId, es).
         let times = js_sort (\<le>) (map be_timeMs es)
         in if length times > 1 \<and> fl (last times - hd times) \<le> windowMs
            then Some (handId, map be_playerId es) else None)
       (fold add_bet events [])"

definition calculateVpipCorrelation :: "(rat \<Rightarrow> rat) \<Rightarrow> rat list \<Rightarrow> rat list \<Rightarrow> rat" where
  "calculateVpipCorrelation js_sqrt vpipA vpipB =
     (if length vpipA \<noteq> length vpipB \<or> vpipA = [] then 0
      else let n = of_nat (length vpipA);
               meanA = fl (fl_sum vpipA / n); meanB = fl (fl_sum vpipB / n);
               (numerator, denomA, denomB) =
                 foldl (\<lambda>(nu, da2, db2) (x, y).
                     let da = fl (x - meanA); db = fl (y - meanB)
                     in (fl (nu + fl (da * db)), fl (da2 + fl (da * da)), fl (db2 + fl (db * db))))
                   (0, 0, 0) (zip vpipA vpipB)
           in if denomA \<noteq> 0 \<and> denomB \<noteq> 0 then fl (numerator / js_sqrt (fl (denomA * denomB))) else 0)"

definition averageDiffSimilarity :: "rat list \<Rightarrow> rat list \<Rightarrow> rat" where
  "averageDiffSimilarity a b =
     (if length a \<noteq> length b \<or> a = [] then 0
      else let diff = foldl (\<lambda>d (x, y). fl (d + \<bar>fl (x - y)\<bar>)) 0 (zip a b);
               avgDiff = fl (diff / of_nat (length a))
           in fl (1 / fl (1 + avgDiff)))"

definition calculateTimingSimilarity :: "rat list \<Rightarrow> rat list \<Rightarrow> rat" where
  "calculateTimingSimilarity timesA timesB = averageDiffSimilarity timesA timesB"

definition calculateSeatProximity :: "rat list \<Rightarrow> rat list \<Rightarrow> rat" where
  "calculateSeatProximity seatsA seatsB = averageDiffSimilarity seatsA seatsB"

definition timeCorrelatedBetting :: "rat \<Rightarrow> rat list \<Rightarrow> rat list \<Rightarrow> rat" where
  "timeCorrelatedBetting windowMs timesA timesB =
     (if timesA = [] \<or> timesB = [] then 0
      else let matches = length (filter (\<lambda>tA. list_ex (\<lambda>tB. \<bar>fl (tA - tB)\<bar> \<le> windowMs) timesB) timesA)
           in fl (of_nat matches / of_nat (max (length timesA) (length timesB))))"

section \<open>The service\<close>

datatype review_status = Flagged | Warn | Restrict | Ban

record history_entry =
  he_action :: review_status
  he_timestamp :: nat
  he_reviewerId :: string

record features =
  fe_sharedDevices :: "string list"
  fe_sharedIps :: "string list"
  fe_ipClusterScore :: nat
  fe_vpipCorrelation :: rat
  fe_timingSimilarity :: rat
  fe_betCorrelation :: rat
  fe_seatProximity :: rat
  fe_chipDumpScore :: "rat option"
  fe_ipClusters :: "(string \<times> string list) list"

record collusion_audit =
  ca_sessionId :: string
  ca_users :: "string list"
  ca_status :: review_status
  ca_features :: features
  ca_history :: "history_entry list"

record 'r collusion_client =
  c_sadd :: "string \<Rightarrow> string \<Rightarrow> 'r \<Rightarrow> 'r"
  c_smembers :: "string \<Rightarrow> 'r \<Rightarrow> string list"
  c_scard :: "string \<Rightarrow> 'r \<Rightarrow> nat"
  c_rpush :: "string \<Rightarrow> string \<Rightarrow> 'r \<Rightarrow> 'r"
  c_lrange :: "string \<Rightarrow> 'r \<Rightarrow> string list"

record 'r collusion_env =
  ce_client :: "'r collusion_client"
  ce_sqrt :: "rat \<Rightarrow> rat"
  ce_number :: "string \<Rightarrow> rat"
  ce_flagText :: "string \<Rightarrow> string list \<Rightarrow> features \<Rightarrow> string"
  ce_now :: nat

record 'r collusion =
  co_audits :: "collusion_audit list"
  co_store :: 'r

definition deviceKey :: "string \<Rightarrow> string" where "deviceKey d = ''collusion:device:'' @ d"
definition ipKey :: "string \<Rightarrow> string" where "ipKey i = ''collusion:ip:'' @ i"
definition userDevicesKey :: "string \<Rightarrow> string" where "userDevicesKey u = ''collusion:user:devices:'' @ u"
definition userIpsKey :: "string \<Rightarrow> string" where "userIpsKey u = ''collusion:user:ips:'' @ u"
definition timesKey :: "string \<Rightarrow> string" where "timesKey u = ''collusion:times:'' @ u"

definition collusion_record ::
  "'r collusion_env \<Rightarrow> string \<Rightarrow> string \<Rightarrow> string \<Rightarrow> nat \<Rightarrow> 'r collusion \<Rightarrow> 'r collusion" where
  "collusion_record env userId deviceId ip timestamp w =
     (let c = ce_client env;
          s1 = c_sadd c (deviceKey deviceId) userId (co_store w);
          s2 = c_sadd c (ipKey ip) userId s1;
          s3 = c_sadd c (userDevicesKey userId) deviceId s2;
          s4 = c_sadd c (userIpsKey userId) ip s3
      in w\<lparr>co_store := c_rpush c (timesKey userId) (int_to_string (int timestamp)) s4\<rparr>)"

definition getDeviceCluster :: "'r collusion_env \<Rightarrow> string \<Rightarrow> 'r collusion \<Rightarrow> string list" where
  "getDeviceCluster env d w = c_smembers (ce_client env) (deviceKey d) (co_store w)"

definition getIpCluster :: "'r collusion_env \<Rightarrow> string \<Rightarrow> 'r collusion \<Rightarrow> string list" where
  "getIpCluster env i w = c_smembers (ce_client env) (ipKey i) (co_store w)"

fun fast_pair :: "rat \<Rightarrow> rat list \<Rightarrow> bool" where
  "fast_pair thresholdMs (x # y # r) = (fl (y - x) < thresholdMs \<or> fast_pair thresholdMs (y # r))"
| "fast_pair thresholdMs r = False"

definition hasFastActions :: "'r collusion_env \<Rightarrow> string \<Rightarrow> rat \<Rightarrow> 'r collusion \<Rightarrow> bool" where
  "hasFastActions env userId thresholdMs w =
     fast_pair thresholdMs (map (ce_number env) (c_lrange (ce_client env) (timesKey userId) (co_store w)))"

definition shared_members :: "'r collusion_env \<Rightarrow> string \<Rightarrow> string \<Rightarrow> 'r collusion \<Rightarrow> string list" where
  "shared_members env keyA keyB w =
     (let c = ce_client env; b = c_smembers c keyB (co_store w)
      in filter (\<lambda>v. v \<in> set b) (c_smembers c keyA (co_store w)))"

definition extractFeatures ::
  "'r collusion_env \<Rightarrow> string \<Rightarrow> string \<Rightarrow> rat list \<Rightarrow> rat list \<Rightarrow> rat list \<Rightarrow> rat list \<Rightarrow> 'r collusion \<Rightarrow> features" where
  "extractFeatures env userA userB vpipA vpipB seatsA seatsB w =
     (let c = ce_client env;
          sharedDevices = shared_members env (userDevicesKey userA) (userDevicesKey userB) w;
          sharedIps = shared_members env (userIpsKey userA) (userIpsKey userB) w;
          timesA = map (ce_number env) (c_lrange c (timesKey userA) (co_store w));
          timesB = map (ce_number env) (c_lrange c (timesKey userB) (co_store w))
      in \<lparr>fe_sharedDevices = sharedDevices, fe_sharedIps = sharedIps,
          fe_ipClusterScore = foldl max 0 (map (\<lambda>ip. c_scard c (ipKey ip) (co_store w)) sharedIps),
          fe_vpipCorrelation = calculateVpipCorrelation (ce_sqrt env) vpipA vpipB,
          fe_timingSimilarity = calculateTimingSimilarity timesA timesB,
          fe_betCorrelation = timeCorrelatedBetting 1000 timesA timesB,
          fe_seatProximity = calculateSeatProximity seatsA seatsB, fe_chipDumpScore = None, fe_ipClusters = []\<rparr>)"

text \<open>\<open>auditRepo.save\<close>: the session is the primary key.\<close>

definition save_audit :: "collusion_audit \<Rightarrow> collusion_audit list \<Rightarrow> collusion_audit list" where
  "save_audit a rows =
     (if ca_sessionId a \<in> ca_sessionId ` set rows then map (\<lambda>r. if ca_sessionId r = ca_sessionId a then a else r) rows
      else rows @ [a])"

definition flagged_row :: "'r collusion_env \<Rightarrow> string \<Rightarrow> string list \<Rightarrow> features \<Rightarrow> 'r collusion \<Rightarrow> collusion_audit" where
  "flagged_row env sessionId users fs w =
     (let ipMap = fold (\<lambda>u. AList.update u (c_smembers (ce_client env) (userIpsKey u) (co_store w))) users []
      in \<lparr>ca_sessionId = sessionId, ca_users = users, ca_status = Flagged,
          ca_features = fs\<lparr>fe_ipClusters := clusterBySharedValues ipMap\<rparr>, ca_history = []\<rparr>)"

definition flagSession :: "'r collusion_env \<Rightarrow> string \<Rightarrow> string list \<Rightarrow> features \<Rightarrow> 'r collusion \<Rightarrow> 'r collusion" where
  "flagSession env sessionId users fs w =
     (let audit = flagged_row env sessionId users fs w
      in w\<lparr>co_audits := save_audit audit (co_audits w),
           co_store := c_rpush (ce_client env) ''collusion:flags'' (ce_flagText env sessionId users (ca_features audit)) (co_store w)\<rparr>)"

definition listFlaggedSessions ::
  "nat \<Rightarrow> nat \<Rightarrow> review_status option \<Rightarrow> 'r collusion \<Rightarrow> (string \<times> string list \<times> review_status) list" where
  "listFlaggedSessions page pageSize status w =
     map (\<lambda>a. (ca_sessionId a, ca_users a, ca_status a))
       (take pageSize (drop ((page - 1) * pageSize)
         (filter (\<lambda>a. case status of None \<Rightarrow> True | Some s \<Rightarrow> ca_status a = s) (co_audits w))))"

fun review_index :: "review_status \<Rightarrow> nat" where
  "review_index Flagged = 0"
| "review_index Warn = 1"
| "review_index Restrict = 2"
| "review_index Ban = 3"

datatype review_error = SessionNotFound | InvalidReviewAction

definition find_audit :: "string \<Rightarrow> 'r collusion \<Rightarrow> collusion_audit option" where
  "find_audit sessionId w = List.find (\<lambda>a. ca_sessionId a = sessionId) (co_audits w)"

definition collusion_applyAction ::
  "'r collusion_env \<Rightarrow> string \<Rightarrow> review_status \<Rightarrow> string \<Rightarrow> 'r collusion \<Rightarrow> (review_error + history_entry) \<times> 'r collusion" where
  "collusion_applyAction env sessionId action reviewerId w =
     (case find_audit sessionId w of
        None \<Rightarrow> (Inl SessionNotFound, w)
      | Some audit \<Rightarrow>
          if review_index action \<noteq> review_index (ca_status audit) + 1 then (Inl InvalidReviewAction, w)
          else let entry = \<lparr>he_action = action, he_timestamp = ce_now env, he_reviewerId = reviewerId\<rparr>
               in (Inr entry,
                   w\<lparr>co_audits := save_audit (audit\<lparr>ca_status := action, ca_history := ca_history audit @ [entry]\<rparr>) (co_audits w)\<rparr>))"

definition getActionHistory :: "string \<Rightarrow> 'r collusion \<Rightarrow> history_entry list" where
  "getActionHistory sessionId w = (case find_audit sessionId w of None \<Rightarrow> [] | Some a \<Rightarrow> ca_history a)"

section \<open>The job\<close>

record game_event =
  gv_sessionId :: "string option"
  gv_userId :: "string option"
  gv_vpip :: "rat option"
  gv_seat :: "rat option"
  gv_timestamp :: "rat option"
  gv_transfer :: "transfer option"

record thresholds =
  th_sharedDevices :: nat
  th_sharedIps :: nat
  th_vpipCorrelation :: rat
  th_timingSimilarity :: rat
  th_seatProximity :: rat
  th_chipDumpScore :: rat

text \<open>The defaults of the constructor (the decimal constants are the nearest doubles).\<close>

definition defaultThresholds :: thresholds where
  "defaultThresholds = \<lparr>th_sharedDevices = 0, th_sharedIps = 0, th_vpipCorrelation = fl (9 / 10),
     th_timingSimilarity = fl (9 / 10), th_seatProximity = fl (9 / 10), th_chipDumpScore = fl (8 / 10)\<rparr>"

definition isCollusionGameEvent :: "game_event \<Rightarrow> bool" where
  "isCollusionGameEvent e \<longleftrightarrow> gv_sessionId e \<noteq> None \<and> gv_userId e \<noteq> None \<and> gv_vpip e \<noteq> None \<and> gv_seat e \<noteq> None
     \<and> gv_timestamp e \<noteq> None"

definition of_user :: "string \<Rightarrow> (game_event \<Rightarrow> rat option) \<Rightarrow> game_event list \<Rightarrow> rat list" where
  "of_user u f evts = map (\<lambda>e. the (f e)) (filter (\<lambda>e. gv_userId e = Some u) evts)"

definition pair_transfers :: "string \<Rightarrow> string \<Rightarrow> game_event list \<Rightarrow> transfer list" where
  "pair_transfers a b evts =
     filter (\<lambda>t. (tf_from t = a \<and> tf_to t = b) \<or> (tf_from t = b \<and> tf_to t = a)) (List.map_filter gv_transfer evts)"

definition is_flagged :: "thresholds \<Rightarrow> features \<Rightarrow> rat \<Rightarrow> bool" where
  "is_flagged th f dumpScore \<longleftrightarrow>
     length (fe_sharedDevices f) > th_sharedDevices th \<or> length (fe_sharedIps f) > th_sharedIps th
     \<or> fe_vpipCorrelation f > th_vpipCorrelation th \<or> fe_timingSimilarity f > th_timingSimilarity th
     \<or> fe_seatProximity f > th_seatProximity th \<or> dumpScore > th_chipDumpScore th"

definition check_pair ::
  "'r collusion_env \<Rightarrow> thresholds \<Rightarrow> string \<Rightarrow> game_event list \<Rightarrow> string \<times> string \<Rightarrow> 'r collusion \<Rightarrow> 'r collusion" where
  "check_pair env th sessionId evts = (\<lambda>(a, b) w.
     let f = extractFeatures env a b (of_user a gv_vpip evts) (of_user b gv_vpip evts)
               (of_user a gv_seat evts) (of_user b gv_seat evts) w;
         dumpScore = detectChipDump (pair_transfers a b evts)
     in if is_flagged th f dumpScore then flagSession env sessionId [a, b] (f\<lparr>fe_chipDumpScore := Some dumpScore\<rparr>) w else w)"

fun pairs_of :: "'a list \<Rightarrow> ('a \<times> 'a) list" where
  "pairs_of [] = []"
| "pairs_of (x # xs) = map (Pair x) xs @ pairs_of xs"

definition add_event :: "game_event \<Rightarrow> (string \<times> game_event list) list \<Rightarrow> (string \<times> game_event list) list" where
  "add_event e m =
     (let sid = the (gv_sessionId e) in AList.update sid ((case map_of m sid of None \<Rightarrow> [] | Some xs \<Rightarrow> xs) @ [e]) m)"

definition collusion_run :: "'r collusion_env \<Rightarrow> thresholds \<Rightarrow> game_event list \<Rightarrow> 'r collusion \<Rightarrow> 'r collusion" where
  "collusion_run env th stream w =
     (let sessions = fold add_event (filter isCollusionGameEvent stream) []
      in fold (\<lambda>(sessionId, evts).
           let users = js_unique (map (\<lambda>e. the (gv_userId e)) evts)
           in if length users < 2 then id else fold (check_pair env th sessionId evts) (pairs_of users)) sessions w)"

end
