(* ===== verification/CollusionProps.thy ===== *)
theory CollusionProps
  imports Collusion
begin

text \<open>
  Properties of the detection of collusion: what the detectors find, stated against the records they read, the ladder of
  reviews, and what the code misses. The locale \<open>collusion_redis\<close> is what the service relies on of Redis sets and lists.
\<close>

section \<open>Rounding is symmetric\<close>

lemma round_half_even_minus: "round_half_even (- q) = - round_half_even q"
proof (cases "q = of_int \<lfloor>q\<rfloor>")
  case True
  then have "\<lfloor>- q\<rfloor> = - \<lfloor>q\<rfloor>" by (metis floor_of_int of_int_minus)
  with True show ?thesis by (simp add: round_half_even_def Let_def)
next
  case False
  have "of_int \<lfloor>q\<rfloor> < q" using False of_int_floor_le [of q] by linarith
  then have f: "\<lfloor>- q\<rfloor> = - \<lfloor>q\<rfloor> - 1" by linarith
  define d where "d = q - of_int \<lfloor>q\<rfloor>"
  have "- q - of_int (- \<lfloor>q\<rfloor> - 1) = 1 - d" by (simp add: d_def)
  then show ?thesis
    unfolding round_half_even_def Let_def f d_def [symmetric] by (auto simp: field_simps)
qed

lemma fl_minus: "fl (- q) = - fl q"
  by (simp add: fl_def fl_exponent_def round_half_even_minus Let_def)

section \<open>Chip dumping\<close>

text \<open>Transfers between two players leave them with opposite balances.\<close>

definition opposite :: "string \<Rightarrow> string \<Rightarrow> (string \<times> rat) list \<Rightarrow> bool" where
  "opposite a b bs \<longleftrightarrow> bs = [] \<or> (\<exists>v. bs = [(a, v), (b, - v)] \<or> bs = [(b, v), (a, - v)])"

lemma opposite_step:
  assumes "a \<noteq> b" "(tf_from t = a \<and> tf_to t = b) \<or> (tf_from t = b \<and> tf_to t = a)" "opposite a b bs"
  shows "opposite a b (add_transfer t bs)"
proof -
  have m: "fl (x + y) = - fl (- x - y)" for x y :: rat using fl_minus [of "x + y"] by simp
  show ?thesis
    using assms m [of 0 "tf_amount t"]
    by (auto simp: opposite_def add_transfer_def balance_in_def Let_def algebra_simps fl_minus [symmetric])
qed

lemma opposite_fold:
  assumes "a \<noteq> b" "\<forall>t\<in>set ts. (tf_from t = a \<and> tf_to t = b) \<or> (tf_from t = b \<and> tf_to t = a)" "opposite a b bs"
  shows "opposite a b (fold add_transfer ts bs)"
  using assms(2,3)
proof (induction ts arbitrary: bs)
  case (Cons t ts)
  then have "opposite a b (add_transfer t bs)" by (intro opposite_step [OF assms(1)]) auto
  then show ?case using Cons by simp
qed simp

lemma half_share:
  assumes "0 < x"
  shows "fl (x / fl (fl x + x)) \<le> 3 / 5"
proof -
  have "x - x / 2 ^ 53 \<le> fl x" using fl_bounds(1) [of x] assms by simp
  then have s: "(2 - 1 / 2 ^ 53) * x \<le> fl x + x" by (simp add: algebra_simps)
  then have "0 < fl x + x" using assms fl_nonneg [of x] by simp
  then have "(fl x + x) * (1 - 1 / 2 ^ 53) \<le> fl (fl x + x)"
    using fl_bounds(1) [of "fl x + x"] by (simp add: field_simps)
  moreover have "(2 - 1 / 2 ^ 53) * x * (1 - 1 / 2 ^ 53) \<le> (fl x + x) * (1 - 1 / 2 ^ 53)"
    using s by (intro mult_right_mono) simp_all
  moreover have "19 / 10 * x \<le> (2 - 1 / 2 ^ 53) * x * (1 - 1 / 2 ^ 53)"
    using assms by (simp add: field_simps)
  ultimately have t: "19 / 10 * x \<le> fl (fl x + x)" by linarith
  then have "x / fl (fl x + x) \<le> 10 / 19" using assms by (simp add: field_simps)
  moreover have "0 \<le> x / fl (fl x + x)" using t assms by (simp add: zero_le_divide_iff)
  ultimately show ?thesis using fl_upper [of "x / fl (fl x + x)"] by (simp add: field_simps)
qed

lemma detectChipDump_opposite:
  assumes "opposite a b (fold add_transfer ts [])"
  shows "detectChipDump ts \<le> 3 / 5"
proof -
  have "fl 0 = 0" by (simp add: fl_def)
  then have share: "fl (\<bar>v\<bar> / fl (fl \<bar>v\<bar> + \<bar>v\<bar>)) \<le> 3 / 5" for v :: rat
    using half_share [of "\<bar>v\<bar>"] by (cases "v = 0") auto
  consider "fold add_transfer ts [] = []" | x y v where "fold add_transfer ts [] = [(x, v), (y, - v)]"
    using assms by (auto simp: opposite_def)
  then show ?thesis
    using share by cases (simp_all add: detectChipDump_def fl_sum_def Let_def)
qed

text \<open>C37: chip dumping between two players is never detected. The job scores the transfers between the two players
  of a pair only; however many and however large they are, the score stays at most 3/5 (each player has half of the imbalance), so with the default
  thresholds (0.8) the verdict on the pair is the one without any transfers.\<close>

theorem chip_dump_undetected:
  assumes "a \<noteq> b"
  shows "detectChipDump (pair_transfers a b evts) \<le> 3 / 5
     \<and> (is_flagged defaultThresholds f (detectChipDump (pair_transfers a b evts)) \<longleftrightarrow> is_flagged defaultThresholds f 0)"
proof -
  have d: "detectChipDump (pair_transfers a b evts) \<le> 3 / 5"
    by (rule detectChipDump_opposite [OF opposite_fold [OF assms]]) (auto simp: pair_transfers_def opposite_def)
  moreover have "3 / 5 \<le> th_chipDumpScore defaultThresholds"
    using fl_bounds(1) [of "8 / 10"] by (simp add: defaultThresholds_def)
  ultimately show ?thesis by (auto simp: is_flagged_def)
qed

definition demo_dump :: "game_event list" where
  "demo_dump = [\<lparr>gv_sessionId = Some ''s'', gv_userId = Some ''a'', gv_vpip = Some 0, gv_seat = Some 1, gv_timestamp = Some 0,
     gv_transfer = Some \<lparr>tf_from = ''a'', tf_to = ''b'', tf_amount = 1000000\<rparr>\<rparr>]"

theorem chip_dump_undetected_witness:
  "pair_transfers ''a'' ''b'' demo_dump = [\<lparr>tf_from = ''a'', tf_to = ''b'', tf_amount = 1000000\<rparr>]
   \<and> detectChipDump (pair_transfers ''a'' ''b'' demo_dump) \<le> 3 / 5"
  using chip_dump_undetected [of "''a''" "''b''" demo_dump]
  by (simp add: pair_transfers_def demo_dump_def List.map_filter_simps)

section \<open>Clusters\<close>

lemma add_to_group_lookup:
  "map_of (add_to_group k x m) k' =
     (if k = k' then Some (let old = (case map_of m k of None \<Rightarrow> [] | Some xs \<Rightarrow> xs) in if x \<in> set old then old else old @ [x])
      else map_of m k')"
  by (cases "k = k'"; cases "map_of m k") (simp_all add: add_to_group_def update_conv' Let_def)

definition group_of :: "('k \<times> 'a list) list \<Rightarrow> 'k \<Rightarrow> 'a list" where
  "group_of m k = (case map_of m k of None \<Rightarrow> [] | Some xs \<Rightarrow> xs)"

lemma group_of_add: "group_of (add_to_group k x m) k' =
    (if k = k' \<and> x \<notin> set (group_of m k) then group_of m k @ [x] else group_of m k')"
  by (cases "map_of m k"; cases "k = k'") (simp_all add: group_of_def add_to_group_lookup Let_def)

lemma group_of_user: "x \<notin> set (group_of m k) \<Longrightarrow>
    group_of (fold (\<lambda>v. add_to_group v x) vs m) k = group_of m k @ (if k \<in> set vs then [x] else [])"
  "x \<in> set (group_of m k) \<Longrightarrow> group_of (fold (\<lambda>v. add_to_group v x) vs m) k = group_of m k"
proof (induction vs arbitrary: m)
  case (Cons v vs)
  { case 1
    then show ?case
      using Cons.IH [of "add_to_group v x m"] by (cases "v = k") (simp_all add: group_of_add) }
  { case 2
    then show ?case using Cons.IH(2) [of "add_to_group v x m"] by (auto simp: group_of_add) }
qed simp_all

lemma group_of_users:
  assumes "distinct (map fst uv)" "set (group_of m k) \<inter> fst ` set uv = {}"
  shows "group_of (fold (\<lambda>(user, vals). fold (\<lambda>v. add_to_group v user) vals) uv m) k
    = group_of m k @ map fst (filter (\<lambda>(u, vs). k \<in> set vs) uv)"
  using assms
proof (induction uv arbitrary: m)
  case (Cons x uv)
  obtain u vs where x: "x = (u, vs)" by (cases x)
  let ?m = "fold (\<lambda>v. add_to_group v u) vs m"
  have m: "group_of ?m k = group_of m k @ (if k \<in> set vs then [u] else [])"
    using group_of_user(1) [of u m k vs] Cons.prems(2) x by auto
  have "set (group_of ?m k) \<inter> fst ` set uv = {}" using m Cons.prems x by auto
  then show ?case using Cons.IH [of ?m] Cons.prems(1) m x by simp
qed simp

lemma keys_add_to_group: "distinct (map fst m) \<Longrightarrow> distinct (map fst (add_to_group k x m))"
  by (simp add: add_to_group_def Let_def distinct_update)

lemma keys_groups:
  fixes m :: "('k \<times> 'a list) list"
  shows "distinct (map fst m) \<Longrightarrow> distinct (map fst (fold (\<lambda>(user, vals). fold (\<lambda>v. add_to_group v user) vals) uv m))"
proof (induction uv arbitrary: m)
  case (Cons x uv)
  have "distinct (map fst (fold (\<lambda>v. add_to_group v u) vs m))" if "distinct (map fst m)" for u vs and m :: "('k \<times> 'a list) list"
    using that by (induction vs arbitrary: m) (auto simp: keys_add_to_group)
  then show ?case using Cons by (cases x) auto
qed simp

lemma map_of_filter_distinct:
  "distinct (map fst m) \<Longrightarrow> map_of (filter (\<lambda>(k, xs). P xs) m) k = (case map_of m k of None \<Rightarrow> None | Some xs \<Rightarrow> if P xs then Some xs else None)"
  by (induction m) (auto split: option.splits simp: map_of_eq_None_iff image_iff dest: map_of_SomeD)

text \<open>the clusters are exact. A value (an address) is reported if and only if at least two users have it, and then with
  precisely the users who have it, each once, in their order.\<close>

theorem clusters_exact:
  assumes "distinct (map fst userValues)"
  shows "map_of (clusterBySharedValues userValues) v =
     (let users = map fst (filter (\<lambda>(u, vs). v \<in> set vs) userValues) in if length users > 1 then Some users else None)"
proof -
  let ?g = "fold (\<lambda>(user, vals). fold (\<lambda>v. add_to_group v user) vals) userValues []"
  have g: "group_of ?g v = map fst (filter (\<lambda>(u, vs). v \<in> set vs) userValues)"
    using group_of_users [OF assms, of "[]" v] by (simp add: group_of_def)
  have "map_of (clusterBySharedValues userValues) v = (case map_of ?g v of None \<Rightarrow> None | Some xs \<Rightarrow> if length xs > 1 then Some xs else None)"
    unfolding clusterBySharedValues_def by (rule map_of_filter_distinct [OF keys_groups]) simp
  then show ?thesis using g by (cases "map_of ?g v") (auto simp: group_of_def Let_def)
qed

theorem clusters_exact_witness:
  "map_of (clusterBySharedValues [(''a'', [''1'', ''2'', ''1'']), (''b'', [''3'']), (''c'', [''2'', ''3'', ''1''])]) ''1'' = Some [''a'', ''c'']"
  by (subst clusters_exact) (simp_all add: Let_def)

section \<open>Reviews\<close>

text \<open>The history of a review is a beginning of the ladder, and the status is its last rung.\<close>

definition on_ladder :: "collusion_audit \<Rightarrow> bool" where
  "on_ladder r \<longleftrightarrow> map he_action (ca_history r) = take (length (ca_history r)) [Warn, Restrict, Ban]
     \<and> review_index (ca_status r) = length (ca_history r)"

definition audits_ok :: "'r collusion \<Rightarrow> bool" where
  "audits_ok w \<longleftrightarrow> distinct (map ca_sessionId (co_audits w)) \<and> (\<forall>r\<in>set (co_audits w). on_ladder r)"

datatype collusion_op =
    RecordOp string string string nat
  | FlagOp string "string list" features
  | ReviewOp string review_status string
  | JobOp thresholds "game_event list"

fun collusion_step :: "'r collusion_env \<times> collusion_op \<Rightarrow> 'r collusion \<Rightarrow> 'r collusion" where
  "collusion_step (env, RecordOp u d i t) w = collusion_record env u d i t w"
| "collusion_step (env, FlagOp s us f) w = flagSession env s us f w"
| "collusion_step (env, ReviewOp s act r) w = snd (collusion_applyAction env s act r w)"
| "collusion_step (env, JobOp th stream) w = collusion_run env th stream w"

lemma save_audit_ids:
  "map ca_sessionId (save_audit a rows) =
     (if ca_sessionId a \<in> ca_sessionId ` set rows then map ca_sessionId rows else map ca_sessionId rows @ [ca_sessionId a])"
  by (simp add: save_audit_def o_def cong: if_cong)

lemma save_audit_ok:
  assumes "audits_ok w" "on_ladder a" "co_audits w' = save_audit a (co_audits w)"
  shows "audits_ok w'"
proof -
  have "distinct (map ca_sessionId (co_audits w'))"
    unfolding assms(3) save_audit_ids using assms(1) by (auto simp: audits_ok_def)
  then show ?thesis using assms by (auto simp: audits_ok_def save_audit_def split: if_splits)
qed

lemma find_save_audit:
  assumes "co_audits w' = save_audit a (co_audits w)"
  shows "find_audit s w' = (if s = ca_sessionId a then Some a else find_audit s w)"
proof -
  have "List.find (\<lambda>r. ca_sessionId r = s) (save_audit a rows) = (if s = ca_sessionId a then Some a else List.find (\<lambda>r. ca_sessionId r = s) rows)"
    for rows
  proof (cases "ca_sessionId a \<in> ca_sessionId ` set rows")
    case True
    have "List.find (\<lambda>r. ca_sessionId r = s) (map (\<lambda>r. if ca_sessionId r = ca_sessionId a then a else r) rows)
      = (if s = ca_sessionId a \<and> s \<in> ca_sessionId ` set rows then Some a else List.find (\<lambda>r. ca_sessionId r = s) rows)"
      by (induction rows) auto
    then show ?thesis using True by (simp add: save_audit_def)
  next
    case False
    have "List.find (\<lambda>r. ca_sessionId r = s) (rows @ [a])
      = (if s \<notin> ca_sessionId ` set rows \<and> s = ca_sessionId a then Some a else List.find (\<lambda>r. ca_sessionId r = s) rows)"
      by (induction rows) auto
    then show ?thesis using False by (auto simp: save_audit_def)
  qed
  then show ?thesis using assms by (simp add: find_audit_def)
qed

lemma flag_ok: "audits_ok w \<Longrightarrow> audits_ok (flagSession env s us f w)"
  by (rule save_audit_ok) (auto simp: flagSession_def flagged_row_def Let_def on_ladder_def)

lemma ladder_next:
  assumes "on_ladder r" "review_index act = review_index (ca_status r) + 1"
  shows "on_ladder (r\<lparr>ca_status := act, ca_history := ca_history r @ [\<lparr>he_action = act, he_timestamp = t, he_reviewerId = who\<rparr>]\<rparr>)"
proof -
  define n where "n = length (ca_history r)"
  have n: "review_index act = Suc n" "map he_action (ca_history r) = take n [Warn, Restrict, Ban]"
    using assms by (simp_all add: on_ladder_def n_def)
  then have "take (Suc n) [Warn, Restrict, Ban] = take n [Warn, Restrict, Ban] @ [act]"
    by (cases act) auto
  then show ?thesis using n by (simp add: on_ladder_def n_def)
qed

lemma review_ok:
  assumes "audits_ok w"
  shows "audits_ok (snd (collusion_applyAction env s act who w))"
proof (cases "find_audit s w")
  case (Some r)
  then have r: "on_ladder r" using assms by (auto simp: audits_ok_def find_audit_def find_Some_iff)
  show ?thesis
    using Some assms ladder_next [OF r, of act] by (auto simp: collusion_applyAction_def Let_def intro!: save_audit_ok [OF assms])
qed (use assms in \<open>simp add: collusion_applyAction_def\<close>)

lemma fold_keeps: "(\<And>x w. x \<in> set xs \<Longrightarrow> P w \<Longrightarrow> P (f x w)) \<Longrightarrow> P w \<Longrightarrow> P (fold f xs w)"
  by (induction xs arbitrary: w) auto

lemma check_pair_ok: "audits_ok w \<Longrightarrow> audits_ok (check_pair env th sid evts ab w)"
  by (cases ab) (simp add: check_pair_def Let_def flag_ok)

lemma job_ok:
  assumes "audits_ok w"
  shows "audits_ok (collusion_run env th stream w)"
proof -
  have "audits_ok (fold (check_pair env th sid evts) abs w)" if "audits_ok w" for sid evts abs and w :: "'a collusion"
    by (rule fold_keeps [where P = audits_ok, OF check_pair_ok that])
  then have "audits_ok ((\<lambda>(sessionId, evts). let users = js_unique (map (\<lambda>e. the (gv_userId e)) evts)
      in if length users < 2 then id else fold (check_pair env th sessionId evts) (pairs_of users)) x w)"
    if "audits_ok w" for x and w :: "'a collusion"
    using that by (cases x) (simp add: Let_def)
  then show ?thesis
    unfolding collusion_run_def Let_def [of "fold add_event _ _"] by (rule fold_keeps [where P = audits_ok, OF _ assms])
qed

lemma record_ok: "audits_ok w \<Longrightarrow> audits_ok (collusion_record env u d i t w)"
  by (simp add: collusion_record_def audits_ok_def Let_def)

lemma collusion_step_ok: "audits_ok w \<Longrightarrow> audits_ok (collusion_step x w)"
  by (cases "(x, w)" rule: collusion_step.cases) (auto simp: flag_ok review_ok job_ok record_ok)

text \<open>C26: reviews climb a ladder. Over any run of the service and its job, every audit row is well formed: one row per session, a
  history that is warn, then restrict, then ban as far as it goes, and the status of its last entry. An action is
  accepted exactly if it is the next rung of an existing session, appends one entry and leaves other sessions alone; refused, it changes nothing.\<close>

theorem review_ladder:
  assumes "audits_ok w0"
  shows "let w = fold collusion_step run w0
     in audits_ok w
        \<and> (case collusion_applyAction env s act who w of
             (Inl err, w') \<Rightarrow> w' = w \<and> (find_audit s w = None \<or> (\<exists>r. find_audit s w = Some r \<and> review_index act \<noteq> length (ca_history r) + 1))
           | (Inr entry, w') \<Rightarrow> (\<exists>r. find_audit s w = Some r \<and> review_index act = length (ca_history r) + 1
               \<and> getActionHistory s w' = ca_history r @ [entry] \<and> (\<forall>s'. s' \<noteq> s \<longrightarrow> find_audit s' w' = find_audit s' w)))"
proof -
  define w where "w = fold collusion_step run w0"
  have ok: "audits_ok w" unfolding w_def by (rule fold_keeps [where P = audits_ok, OF collusion_step_ok assms])
  have idx: "review_index (ca_status r) = length (ca_history r) \<and> ca_sessionId r = s" if "find_audit s w = Some r" for r
    using that ok by (auto simp: audits_ok_def on_ladder_def find_audit_def find_Some_iff)
  show ?thesis
  proof (cases "find_audit s w")
    case (Some r)
    let ?r = "r\<lparr>ca_status := act, ca_history := ca_history r @ [\<lparr>he_action = act, he_timestamp = ce_now env, he_reviewerId = who\<rparr>]\<rparr>"
    have "find_audit s' (w\<lparr>co_audits := save_audit ?r (co_audits w)\<rparr>) = (if s' = s then Some ?r else find_audit s' w)" for s'
      using find_save_audit [of "w\<lparr>co_audits := save_audit ?r (co_audits w)\<rparr>" ?r w s'] idx [OF Some] by simp
    then show ?thesis
      using Some idx [OF Some] ok by (simp add: w_def [symmetric] collusion_applyAction_def getActionHistory_def Let_def)
  qed (use ok in \<open>simp add: w_def [symmetric] collusion_applyAction_def\<close>)
qed

text \<open>The in-memory client for the witnesses.\<close>

type_synonym mock_sets = "(string \<times> string list) list \<times> (string \<times> string list) list"

definition mock_sets_client :: "mock_sets collusion_client" where
  "mock_sets_client =
     \<lparr>c_sadd = (\<lambda>k x s. (add_to_group k x (fst s), snd s)),
      c_smembers = (\<lambda>k s. remdups (group_of (fst s) k)),
      c_scard = (\<lambda>k s. length (remdups (group_of (fst s) k))),
      c_rpush = (\<lambda>k x s. (fst s, AList.update k (group_of (snd s) k @ [x]) (snd s))),
      c_lrange = (\<lambda>k s. group_of (snd s) k)\<rparr>"

definition demo_collusion_env :: "mock_sets collusion_env" where
  "demo_collusion_env = \<lparr>ce_client = mock_sets_client, ce_sqrt = id, ce_number = (\<lambda>_. 0), ce_flagText = (\<lambda>s _ _. s), ce_now = 7\<rparr>"

definition no_features :: features where
  "no_features = \<lparr>fe_sharedDevices = [], fe_sharedIps = [], fe_ipClusterScore = 0, fe_vpipCorrelation = 0, fe_timingSimilarity = 0,
     fe_betCorrelation = 0, fe_seatProximity = 0, fe_chipDumpScore = None, fe_ipClusters = []\<rparr>"

definition no_collusion :: "mock_sets collusion" where
  "no_collusion = \<lparr>co_audits = [], co_store = ([], [])\<rparr>"

lemma no_collusion_ok: "audits_ok no_collusion"
  by (simp add: audits_ok_def no_collusion_def)

theorem review_ladder_witness:
  "let w = fold collusion_step [(demo_collusion_env, FlagOp ''s'' [''a'', ''b''] no_features),
         (demo_collusion_env, ReviewOp ''s'' Warn ''r''), (demo_collusion_env, ReviewOp ''s'' Ban ''r'')] no_collusion
   in audits_ok w \<and> map he_action (getActionHistory ''s'' w) = [Warn]
      \<and> map he_action (getActionHistory ''s'' (snd (collusion_applyAction demo_collusion_env ''s'' Restrict ''r'' w))) = [Warn, Restrict]"
proof -
  let ?run = "[(demo_collusion_env, FlagOp ''s'' [''a'', ''b''] no_features),
    (demo_collusion_env, ReviewOp ''s'' Warn ''r''), (demo_collusion_env, ReviewOp ''s'' Ban ''r'')]"
  define w where "w = fold collusion_step ?run no_collusion"
  have h: "\<exists>r. find_audit ''s'' w = Some r \<and> map he_action (ca_history r) = [Warn] \<and> ca_status r = Warn"
    by (simp add: w_def flagSession_def flagged_row_def collusion_applyAction_def find_audit_def save_audit_def no_collusion_def Let_def)
  note l = review_ladder [where run = ?run and env = demo_collusion_env and s = "''s''" and act = Restrict and who = "''r''",
    OF no_collusion_ok, unfolded Let_def, folded w_def]
  have "audits_ok w \<and> map he_action (getActionHistory ''s'' w) = [Warn]
      \<and> map he_action (getActionHistory ''s'' (snd (collusion_applyAction demo_collusion_env ''s'' Restrict ''r'' w))) = [Warn, Restrict]"
    using h l [THEN conjunct1] l [THEN conjunct2] by (auto simp: collusion_applyAction_def getActionHistory_def Let_def split: if_splits)
  then show ?thesis unfolding Let_def w_def .
qed

text \<open>flagging a session again forgets its review. Whatever has happened to a session, even a ban, the next time it
  is flagged its row is replaced: status flagged, no history, and the users of the last pair only; and of several pairs of one session that the job flags, only
  the last stays on record.\<close>

theorem reflag_forgets_review:
  "find_audit s (flagSession env s users f w) = Some (flagged_row env s users f w)
   \<and> ca_status (flagged_row env s users f w) = Flagged \<and> ca_history (flagged_row env s users f w) = []
   \<and> getActionHistory s (flagSession env s users f w) = []
   \<and> map_option ca_users (find_audit s (flagSession env s users' f' (flagSession env s users f w))) = Some users'"
proof -
  have row: "ca_sessionId (flagged_row env s us fs v) = s" "ca_users (flagged_row env s us fs v) = us" for us fs v
    by (simp_all add: flagged_row_def Let_def)
  have "find_audit s (flagSession env s us fs v) = Some (flagged_row env s us fs v)" for us fs v
    using find_save_audit [of "flagSession env s us fs v" "flagged_row env s us fs v" v s] row by (simp add: flagSession_def Let_def)
  then show ?thesis using row by (simp add: getActionHistory_def) (simp add: flagged_row_def Let_def)
qed

section \<open>Shared devices and addresses\<close>

locale collusion_redis =
  fixes c :: "'r collusion_client"
  assumes sadd: "set (c_smembers c k (c_sadd c k' x s)) = (if k = k' then insert x (set (c_smembers c k s)) else set (c_smembers c k s))"
    and smembers_distinct: "distinct (c_smembers c k s)"
    and scard: "c_scard c k s = length (c_smembers c k s)"
    and smembers_rpush: "k \<noteq> k' \<Longrightarrow> c_smembers c k (c_rpush c k' x s) = c_smembers c k s"
    and lrange_rpush: "c_lrange c k (c_rpush c k' x s) = (if k = k' then c_lrange c k s @ [x] else c_lrange c k s)"
    and lrange_sadd: "k \<noteq> k' \<Longrightarrow> c_lrange c k (c_sadd c k' x s) = c_lrange c k s"

interpretation mock_sets: collusion_redis mock_sets_client
proof (unfold_locales, goal_cases)
  case (1 k k' x s)
  then show ?case by (auto simp: mock_sets_client_def group_of_add)
qed (auto simp: mock_sets_client_def group_of_def update_conv')

lemma collusion_keys [simp]:
  "deviceKey d \<noteq> ipKey i" "deviceKey d \<noteq> userDevicesKey u" "deviceKey d \<noteq> userIpsKey u" "deviceKey d \<noteq> timesKey u"
  "ipKey i \<noteq> userDevicesKey u" "ipKey i \<noteq> userIpsKey u" "ipKey i \<noteq> timesKey u" "userDevicesKey u \<noteq> userIpsKey u'"
  "userDevicesKey u \<noteq> timesKey u'" "userIpsKey u \<noteq> timesKey u'" "ipKey i \<noteq> deviceKey d" "userDevicesKey u \<noteq> deviceKey d"
  "userIpsKey u \<noteq> deviceKey d" "timesKey u \<noteq> deviceKey d" "userDevicesKey u \<noteq> ipKey i" "userIpsKey u \<noteq> ipKey i"
  "timesKey u \<noteq> ipKey i" "userIpsKey u' \<noteq> userDevicesKey u" "timesKey u' \<noteq> userDevicesKey u" "timesKey u' \<noteq> userIpsKey u"
  "deviceKey d = deviceKey d' \<longleftrightarrow> d = d'" "ipKey i = ipKey i' \<longleftrightarrow> i = i'" "userDevicesKey u = userDevicesKey u' \<longleftrightarrow> u = u'"
  "userIpsKey u = userIpsKey u' \<longleftrightarrow> u = u'" "timesKey u = timesKey u' \<longleftrightarrow> u = u'"
  by (auto simp: deviceKey_def ipKey_def userDevicesKey_def userIpsKey_def timesKey_def)

type_synonym sighting = "string \<times> string \<times> string \<times> nat"

definition record_all :: "'r collusion_env \<Rightarrow> sighting list \<Rightarrow> 'r collusion \<Rightarrow> 'r collusion" where
  "record_all env seen w = fold (\<lambda>(u, d, i, t). collusion_record env u d i t) seen w"

text \<open>What the records of the store say.\<close>

definition recorded :: "'r collusion_client \<Rightarrow> sighting list \<Rightarrow> 'r \<Rightarrow> bool" where
  "recorded c seen s \<longleftrightarrow>
     (\<forall>d. set (c_smembers c (deviceKey d) s) = {u. \<exists>i t. (u, d, i, t) \<in> set seen})
   \<and> (\<forall>i. set (c_smembers c (ipKey i) s) = {u. \<exists>d t. (u, d, i, t) \<in> set seen})
   \<and> (\<forall>u. set (c_smembers c (userDevicesKey u) s) = {d. \<exists>i t. (u, d, i, t) \<in> set seen})
   \<and> (\<forall>u. set (c_smembers c (userIpsKey u) s) = {i. \<exists>d t. (u, d, i, t) \<in> set seen})
   \<and> (\<forall>u. c_lrange c (timesKey u) s = map (\<lambda>(_, _, _, t). int_to_string (int t)) (filter (\<lambda>(v, _). v = u) seen))"

context collusion_redis
begin

lemma recorded_step:
  assumes "ce_client env = c" "recorded c seen (co_store w)"
  shows "recorded c (seen @ [(u, d, i, t)]) (co_store (collusion_record env u d i t w))"
  using assms
  by (auto simp: recorded_def collusion_record_def Let_def sadd smembers_rpush lrange_rpush lrange_sadd)

lemma recorded_all:
  assumes "ce_client env = c" "recorded c seen (co_store w)"
  shows "recorded c (seen @ seen') (co_store (record_all env seen' w))"
  using assms(2)
proof (induction seen' arbitrary: seen w)
  case (Cons x seen')
  obtain u d i t where x: "x = (u, d, i, t)" by (cases x)
  show ?case
    using Cons.IH [OF recorded_step [OF assms(1) Cons.prems, of u d i t]] by (simp add: record_all_def x)
qed (simp add: record_all_def)

end

lemma foldl_max: "foldl max n xs = Max (insert n (set xs))" for n :: nat
proof (induction xs arbitrary: n)
  case (Cons y xs)
  then show ?case by (cases "xs = []") (simp_all add: max.assoc Max_insert)
qed simp

definition demo_sightings :: "sighting list" where
  "demo_sightings = [(''a'', ''d1'', ''i1'', 1), (''b'', ''d2'', ''i1'', 2), (''b'', ''d1'', ''i2'', 3)]"

text \<open>what two users are found to share is what they were seen with. After any sequence of sightings (user, device, address,
  time) from an empty store, the shared devices and addresses of two users are exactly those both were seen with, each once, the
  cluster of a device is the set of users seen on it, and the score is the size of the largest shared address's cluster.\<close>

theorem shared_exact:
  assumes "collusion_redis (ce_client env)" "recorded (ce_client env) [] (co_store w)"
  shows "let w' = record_all env seen w; f = extractFeatures env a b va vb sa sb w'
     in distinct (fe_sharedDevices f) \<and> distinct (fe_sharedIps f)
        \<and> set (fe_sharedDevices f) = {d. (\<exists>i t. (a, d, i, t) \<in> set seen) \<and> (\<exists>i t. (b, d, i, t) \<in> set seen)}
        \<and> set (fe_sharedIps f) = {i. (\<exists>d t. (a, d, i, t) \<in> set seen) \<and> (\<exists>d t. (b, d, i, t) \<in> set seen)}
        \<and> set (getDeviceCluster env d w') = {u. \<exists>i t. (u, d, i, t) \<in> set seen}
        \<and> fe_ipClusterScore f = Max (insert 0 ((\<lambda>i. card {u. \<exists>d t. (u, d, i, t) \<in> set seen}) ` set (fe_sharedIps f)))"
proof -
  define c where "c = ce_client env"
  define s where "s = co_store (record_all env seen w)"
  have r: "recorded c seen s"
    using collusion_redis.recorded_all [OF assms(1) refl assms(2), of seen] by (simp add: c_def s_def)
  have card: "card {u. \<exists>d t. (u, d, i, t) \<in> set seen} = c_scard c (ipKey i) s" for i
    using r collusion_redis.scard [OF assms(1)] collusion_redis.smembers_distinct [OF assms(1)]
    by (metis (mono_tags, lifting) c_def distinct_card recorded_def)
  have "fe_ipClusterScore (extractFeatures env a b va vb sa sb (record_all env seen w))
      = Max (insert 0 ((\<lambda>i. c_scard c (ipKey i) s) ` set (fe_sharedIps (extractFeatures env a b va vb sa sb (record_all env seen w)))))"
    by (simp add: extractFeatures_def Let_def foldl_max c_def s_def image_image)
  moreover have "distinct (fe_sharedDevices (extractFeatures env a b va vb sa sb (record_all env seen w)))"
    "distinct (fe_sharedIps (extractFeatures env a b va vb sa sb (record_all env seen w)))"
    using collusion_redis.smembers_distinct [OF assms(1)] by (simp_all add: extractFeatures_def shared_members_def Let_def)
  moreover have "set (fe_sharedDevices (extractFeatures env a b va vb sa sb (record_all env seen w)))
      = set (c_smembers c (userDevicesKey a) s) \<inter> set (c_smembers c (userDevicesKey b) s)"
    "set (fe_sharedIps (extractFeatures env a b va vb sa sb (record_all env seen w)))
      = set (c_smembers c (userIpsKey a) s) \<inter> set (c_smembers c (userIpsKey b) s)"
    by (auto simp: extractFeatures_def shared_members_def Let_def c_def s_def)
  ultimately show ?thesis
    using r unfolding Let_def card by (simp add: recorded_def getDeviceCluster_def Int_def c_def [symmetric] s_def [symmetric])
qed

theorem shared_exact_witness:
  "set (fe_sharedDevices (extractFeatures demo_collusion_env ''a'' ''b'' [] [] [] []
      (record_all demo_collusion_env demo_sightings no_collusion))) = {''d1''}"
proof -
  have "recorded mock_sets_client [] (co_store no_collusion)"
    by (simp add: recorded_def no_collusion_def mock_sets_client_def group_of_def)
  then have "set (fe_sharedDevices (extractFeatures demo_collusion_env ''a'' ''b'' [] [] [] []
      (record_all demo_collusion_env demo_sightings no_collusion)))
    = {d. (\<exists>i t. (''a'', d, i, t) \<in> set demo_sightings)
        \<and> (\<exists>i t. (''b'', d, i, t) \<in> set demo_sightings)}"
    using shared_exact [of demo_collusion_env no_collusion
        demo_sightings "''a''" "''b''" "[]" "[]" "[]" "[]"]
      mock_sets.collusion_redis_axioms by (simp add: demo_collusion_env_def Let_def)
  then show ?thesis by (auto simp: demo_sightings_def)
qed

end
