(* ===== verification/Rooms.thy ===== *)
theory Rooms
  imports RoomWorker "HOL-Library.AList"
begin

text \<open>
  \<open>backend/src/game/room.service.ts\<close> and \<open>room.follower.ts\<close>: a room is a worker thread with the game
  (\<open>RoomWorker\<close>) and a follower thread that copies its states. Threads and the main thread talk through queues of
  messages; \<open>room_step\<close> delivers one of them, or lets a client call, the heartbeat beat or a thread end. A promise is the
  continuation kept for it in \<open>pending\<close>; an exception nobody handles ends the server (\<open>rm_down\<close>), as Node does
  for an \<open>error\<close> event without listener and for a rejected promise without handler. Messages posted by a thread are
  delivered before its end. Gauges and counters of the metrics are left out.
\<close>

section \<open>The follower\<close>

datatype seen_state = Full game_state | Public public_state

text \<open>The log is an array that may have holes; written to the file a hole becomes \<open>null\<close>.\<close>

datatype slot = Hole | Null | Entry nat seen_state

record follower =
  fo_log :: "slot list"
  fo_current :: "seen_state option"
  fo_file :: "(slot list \<times> seen_state option) option"
  fo_acks :: "nat list"

datatype room_call =
    CApply game_action
  | CGetState
  | CGetHandId
  | CReplay
  | CResume nat
  | CSnapshot "(nat \<times> seen_state) list"
  | CPing

datatype room_value = VUndefined | VState seen_state | VStates "(nat \<times> seen_state) list" | VOk | VText string

datatype room_msg = MState seen_state | MDealingDisabled | MAnswer nat room_value

fun json_slot :: "slot \<Rightarrow> slot" where
  "json_slot (Entry i st) = Entry i st"
| "json_slot _ = Null"

definition loadPersisted :: "(slot list \<times> seen_state option) option \<Rightarrow> follower" where
  "loadPersisted file = (case file of
     None \<Rightarrow> \<lparr>fo_log = [], fo_current = None, fo_file = None, fo_acks = []\<rparr>
   | Some (l, c) \<Rightarrow> \<lparr>fo_log = l, fo_current = c, fo_file = file, fo_acks = []\<rparr>)"

definition persist :: "bool \<Rightarrow> follower \<Rightarrow> follower" where
  "persist writable f = (if writable then f\<lparr>fo_file := Some (map json_slot (fo_log f), fo_current f)\<rparr> else f)"

text \<open>\<open>log[idx] = x\<close>\<close>

definition put_at :: "nat \<Rightarrow> slot \<Rightarrow> slot list \<Rightarrow> slot list" where
  "put_at idx x xs = (xs @ replicate (idx + 1 - length xs) Hole)[idx := x]"

definition follower_diff :: "bool \<Rightarrow> nat \<times> public_state \<Rightarrow> follower \<Rightarrow> follower \<times> room_msg list" where
  "follower_diff writable d f =
     (let f1 = persist writable (f\<lparr>fo_current := Some (Public (snd d)),
                 fo_log := put_at (fst d) (Entry (fst d) (Public (snd d))) (fo_log f)\<rparr>)
      in (f1, [MState (Public (snd d))]))"

definition current_value :: "follower \<Rightarrow> room_value" where
  "current_value f = (case fo_current f of None \<Rightarrow> VUndefined | Some st \<Rightarrow> VState st)"

fun entry_from :: "nat \<Rightarrow> slot \<Rightarrow> (nat \<times> seen_state) option" where
  "entry_from from (Entry i st) = (if i \<ge> from then Some (i, st) else None)"
| "entry_from from _ = None"

text \<open>The message handler: \<open>None\<close> is an exception (a \<open>null\<close> taken apart by the filter). There is no case for
  \<open>apply\<close>. The states have no field \<open>handId\<close>.\<close>

fun follower_message :: "bool \<Rightarrow> bool \<Rightarrow> nat \<Rightarrow> room_call \<Rightarrow> follower \<Rightarrow> (follower \<times> room_msg list) option" where
  "follower_message hasRedis writable sq (CSnapshot states) f =
     (let f1 = persist writable (f\<lparr>fo_log := map (\<lambda>(i, st). Entry i st) states,
                 fo_current := (if states = [] then None else Some (snd (last states)))\<rparr>)
      in Some (if hasRedis then f1\<lparr>fo_acks := fo_acks f1 @ [length states]\<rparr> else f1, [MAnswer sq VOk]))"
| "follower_message hasRedis writable sq CGetState f = Some (f, [MAnswer sq (current_value f)])"
| "follower_message hasRedis writable sq (CResume from) f =
     (if Null \<in> set (fo_log f) then None
      else Some (f, [MAnswer sq (VStates (List.map_filter (entry_from from) (fo_log f)))]))"
| "follower_message hasRedis writable sq CReplay f = Some (f, [MAnswer sq (current_value f)])"
| "follower_message hasRedis writable sq CPing f = Some (f, [MAnswer sq VOk])"
| "follower_message hasRedis writable sq CGetHandId f = Some (f, [MAnswer sq (VText '''')])"
| "follower_message hasRedis writable sq (CApply a) f = Some (f, [])"

section \<open>The threads and their hosts\<close>

datatype 's thread = Worker "'s worker" | Replica follower | Gone

text \<open>What is done when a call is answered: a client is answered (after \<open>apply\<close>, or before and after the follower's
  \<open>replay\<close>), the follower is synchronised, or nothing for a ping.\<close>

datatype room_cont =
    KClient nat
  | KApply nat
  | KReplay nat
  | KReplayed nat room_value
  | KSync
  | KSnapshot nat
  | KPing

record 's host =
  ho_thread :: "'s thread"
  ho_seq :: nat
  ho_pending :: "(nat \<times> room_cont) list"
  ho_in :: "(nat \<times> room_call) list"
  ho_out :: "room_msg list"
  ho_onState :: bool
  ho_onExit :: bool

definition new_host :: "'s thread \<Rightarrow> bool \<Rightarrow> 's host" where
  "new_host th watched = \<lparr>ho_thread = th, ho_seq = 0, ho_pending = [], ho_in = [], ho_out = [],
     ho_onState = watched, ho_onExit = watched\<rparr>"

text \<open>\<open>call\<close>: a message to a thread that has ended goes nowhere.\<close>

definition host_call :: "room_cont \<Rightarrow> room_call \<Rightarrow> 's host \<Rightarrow> 's host" where
  "host_call k c h =
     (let sq = ho_seq h + 1
      in h\<lparr>ho_seq := sq, ho_pending := ho_pending h @ [(sq, k)],
           ho_in := (if ho_thread h = Gone then ho_in h else ho_in h @ [(sq, c)])\<rparr>)"

fun worker_request_of :: "nat \<Rightarrow> room_call \<Rightarrow> worker_request" where
  "worker_request_of sq (CApply a) = WApply sq a"
| "worker_request_of sq CGetState = WGetState sq"
| "worker_request_of sq CGetHandId = WGetHandId sq"
| "worker_request_of sq CReplay = WReplay sq"
| "worker_request_of sq (CResume from) = WResume sq (Some from)"
| "worker_request_of sq (CSnapshot states) = WSnapshot sq"
| "worker_request_of sq CPing = WPing sq"

fun msg_of_post :: "worker_post \<Rightarrow> room_msg" where
  "msg_of_post (PState st) = MState (Public st)"
| "msg_of_post PDealingDisabled = MDealingDisabled"
| "msg_of_post (PReply sq st) = MAnswer sq (VState (Public st))"
| "msg_of_post (PStates sq sts) = MAnswer sq (VStates (map (\<lambda>(i, st). (i, Full st)) sts))"
| "msg_of_post (POk sq) = MAnswer sq VOk"
| "msg_of_post (PHandId sq i) = MAnswer sq (VText i)"

record 's room_env =
  ro_worker :: "'s worker_env"
  ro_writable :: bool

text \<open>A thread handles one message: the thread, the messages it posts and the states it publishes.\<close>

fun thread_handle ::
  "'s room_env \<Rightarrow> nat \<Rightarrow> room_call \<Rightarrow> 's thread \<Rightarrow> ('s thread \<times> room_msg list \<times> (nat \<times> public_state) list) option" where
  "thread_handle env sq c (Worker w) =
     (case worker_message (ro_worker env) (worker_request_of sq c) (w\<lparr>wk_posts := [], wk_diffs := []\<rparr>) of
        Inl _ \<Rightarrow> None
      | Inr w' \<Rightarrow> Some (Worker w', map msg_of_post (wk_posts w'), wk_diffs w'))"
| "thread_handle env sq c (Replica f) =
     map_option (\<lambda>(f', ms). (Replica f', ms, [])) (follower_message (we_redis (ro_worker env)) (ro_writable env) sq c f)"
| "thread_handle env sq c Gone = Some (Gone, [], [])"

section \<open>The room\<close>

datatype room_answer = Resolved room_value | Rejected

record 's room =
  rm_primary :: "'s host"
  rm_follower :: "'s host option"
  rm_channel :: "(nat \<times> public_state) list"
  rm_lastConfirmed :: nat
  rm_applied :: nat
  rm_states :: "seen_state list"
  rm_failovers :: nat
  rm_answers :: "(nat \<times> room_answer) list"
  rm_down :: bool

definition new_room :: "'s worker \<Rightarrow> (slot list \<times> seen_state option) option \<Rightarrow> 's room" where
  "new_room w file =
     \<lparr>rm_primary = host_call KSync (CResume 0) (new_host (Worker w) True),
      rm_follower = Some (new_host (Replica (loadPersisted file)) False),
      rm_channel = [], rm_lastConfirmed = 0, rm_applied = 0, rm_states = [], rm_failovers = 0, rm_answers = [], rm_down = False\<rparr>"

definition answer_client :: "nat \<Rightarrow> room_answer \<Rightarrow> 's room \<Rightarrow> 's room" where
  "answer_client i a r = r\<lparr>rm_answers := rm_answers r @ [(i, a)]\<rparr>"

definition call_primary :: "room_cont \<Rightarrow> room_call \<Rightarrow> 's room \<Rightarrow> 's room" where
  "call_primary k c r = r\<lparr>rm_primary := host_call k c (rm_primary r)\<rparr>"

fun states_of :: "room_value \<Rightarrow> (nat \<times> seen_state) list" where
  "states_of (VStates sts) = sts"
| "states_of _ = []"

fun resolve :: "room_cont \<Rightarrow> room_value \<Rightarrow> 's room \<Rightarrow> 's room" where
  "resolve (KClient i) v r = answer_client i (Resolved v) r"
| "resolve (KApply i) v r =
     answer_client i (Resolved v) (r\<lparr>rm_applied := rm_applied r + 1, rm_lastConfirmed := rm_applied r + 1\<rparr>)"
| "resolve (KReplay i) v r = (case rm_follower r of
     None \<Rightarrow> answer_client i (Resolved v) r
   | Some f \<Rightarrow> r\<lparr>rm_follower := Some (host_call (KReplayed i v) CReplay f)\<rparr>)"
| "resolve (KReplayed i v) _ r = answer_client i (Resolved v) r"
| "resolve KSync v r = (case rm_follower r of
     None \<Rightarrow> r\<lparr>rm_down := True\<rparr>
   | Some f \<Rightarrow> r\<lparr>rm_follower := Some (host_call (KSnapshot (length (states_of v))) (CSnapshot (states_of v)) f)\<rparr>)"
| "resolve (KSnapshot n) _ r = r\<lparr>rm_lastConfirmed := n\<rparr>"
| "resolve KPing _ r = r"

text \<open>\<open>promoteFollower\<close> is reached only when the thread of the primary has ended, so its \<open>terminate\<close> finds no thread.\<close>

definition promoteFollower :: "'s room \<Rightarrow> 's room" where
  "promoteFollower r = (case rm_follower r of
     None \<Rightarrow> r
   | Some f \<Rightarrow> r\<lparr>rm_follower := None, rm_primary := f\<lparr>ho_onState := True\<rparr>, rm_lastConfirmed := rm_applied r,
                  rm_failovers := rm_failovers r + 1\<rparr>)"

fun reject :: "room_cont \<Rightarrow> 's room \<Rightarrow> 's room" where
  "reject (KClient i) r = answer_client i Rejected r"
| "reject (KApply i) r = answer_client i Rejected r"
| "reject (KReplay i) r = answer_client i Rejected r"
| "reject (KReplayed i _) r = answer_client i Rejected r"
| "reject KSync r = r\<lparr>rm_down := True\<rparr>"
| "reject (KSnapshot _) r = r\<lparr>rm_down := True\<rparr>"
| "reject KPing r = promoteFollower r"

datatype side = Primary | Follower

fun host_of :: "side \<Rightarrow> 's room \<Rightarrow> 's host option" where
  "host_of Primary r = Some (rm_primary r)"
| "host_of Follower r = rm_follower r"

fun set_host :: "side \<Rightarrow> 's host \<Rightarrow> 's room \<Rightarrow> 's room" where
  "set_host Primary h r = r\<lparr>rm_primary := h\<rparr>"
| "set_host Follower h r = r\<lparr>rm_follower := Some h\<rparr>"

text \<open>A thread takes its next message.\<close>

definition deliver :: "'s room_env \<Rightarrow> side \<Rightarrow> 's room \<Rightarrow> 's room" where
  "deliver env p r = (case host_of p r of
     None \<Rightarrow> r
   | Some h \<Rightarrow> (case ho_in h of
        [] \<Rightarrow> r
      | (sq, c) # rest \<Rightarrow> (case thread_handle env sq c (ho_thread h) of
           None \<Rightarrow> r\<lparr>rm_down := True\<rparr>
         | Some (th, ms, ds) \<Rightarrow>
             set_host p (h\<lparr>ho_in := rest, ho_thread := th, ho_out := ho_out h @ ms\<rparr>) (r\<lparr>rm_channel := rm_channel r @ ds\<rparr>))))"

text \<open>The main thread takes the next message of a thread.\<close>

definition receive :: "side \<Rightarrow> 's room \<Rightarrow> 's room" where
  "receive p r = (case host_of p r of
     None \<Rightarrow> r
   | Some h \<Rightarrow> (case ho_out h of
        [] \<Rightarrow> r
      | m # ms \<Rightarrow>
          let h1 = h\<lparr>ho_out := ms\<rparr> in
          (case m of
             MState st \<Rightarrow> (let r1 = set_host p h1 r in if ho_onState h then r1\<lparr>rm_states := rm_states r1 @ [st]\<rparr> else r1)
           | MDealingDisabled \<Rightarrow> set_host p h1 r
           | MAnswer sq v \<Rightarrow> (case map_of (ho_pending h) sq of
                None \<Rightarrow> set_host p h1 r
              | Some k \<Rightarrow> resolve k v (set_host p (h1\<lparr>ho_pending := AList.delete sq (ho_pending h)\<rparr>) r)))))"

text \<open>Redis hands a published state to the follower's thread, wherever it is.\<close>

definition replica_side :: "'s room \<Rightarrow> side" where
  "replica_side r = (if rm_follower r = None then Primary else Follower)"

definition receive_diff :: "'s room_env \<Rightarrow> 's room \<Rightarrow> 's room" where
  "receive_diff env r = (case rm_channel r of
     [] \<Rightarrow> r
   | d # ds \<Rightarrow>
       let r1 = r\<lparr>rm_channel := ds\<rparr> in
       (case host_of (replica_side r) r of
          None \<Rightarrow> r1
        | Some h \<Rightarrow> (case ho_thread h of
             Replica f \<Rightarrow> (let (f', ms) = follower_diff (ro_writable env) d f
                          in set_host (replica_side r) (h\<lparr>ho_thread := Replica f', ho_out := ho_out h @ ms\<rparr>) r1)
           | _ \<Rightarrow> r1)))"

text \<open>A thread ends: the calls it has not answered are rejected, and the room hears of it if it listens.\<close>

definition thread_exit :: "side \<Rightarrow> 's room \<Rightarrow> 's room" where
  "thread_exit p r = (case host_of p r of
     None \<Rightarrow> r
   | Some h \<Rightarrow>
       if ho_thread h = Gone then r
       else let r1 = set_host p (h\<lparr>ho_thread := Gone, ho_pending := [], ho_in := []\<rparr>) r;
                r2 = (if ho_onExit h then promoteFollower r1 else r1)
            in fold (\<lambda>(_, k). reject k) (ho_pending h) r2)"

datatype room_op = OApply game_action | OGetState | OGetHandId | OReplay | OResume nat

fun room_request :: "nat \<Rightarrow> room_op \<Rightarrow> 's room \<Rightarrow> 's room" where
  "room_request i (OApply a) r = call_primary (KApply i) (CApply a) r"
| "room_request i OGetState r = call_primary (KClient i) CGetState r"
| "room_request i OGetHandId r = call_primary (KClient i) CGetHandId r"
| "room_request i OReplay r = call_primary (KReplay i) CReplay r"
| "room_request i (OResume from) r = call_primary (KClient i) (CResume from) r"

datatype room_event =
    Request nat room_op
  | Deliver side
  | Receive side
  | Diff
  | Heartbeat
  | Exit side

definition drained :: "side \<Rightarrow> 's room \<Rightarrow> bool" where
  "drained p r = (case host_of p r of None \<Rightarrow> True | Some h \<Rightarrow> ho_out h = [])"

fun room_event_step :: "'s room_env \<Rightarrow> room_event \<Rightarrow> 's room \<Rightarrow> 's room" where
  "room_event_step env (Request i op) r = room_request i op r"
| "room_event_step env (Deliver p) r = deliver env p r"
| "room_event_step env (Receive p) r = receive p r"
| "room_event_step env Diff r = receive_diff env r"
| "room_event_step env Heartbeat r = call_primary KPing CPing r"
| "room_event_step env (Exit p) r = (if drained p r then thread_exit p r else r)"

definition room_step :: "'s room_env \<times> room_event \<Rightarrow> 's room \<Rightarrow> 's room" where
  "room_step x r = (if rm_down r then r else room_event_step (fst x) (snd x) r)"

definition room_run :: "('s room_env \<times> room_event) list \<Rightarrow> 's room \<Rightarrow> 's room" where
  "room_run xs r = fold room_step xs r"

text \<open>\<open>terminate\<close>: the listener of the primary's exit is still in place when its thread ends.\<close>

definition drain :: "side \<Rightarrow> 's room \<Rightarrow> 's room" where
  "drain p r = (receive p ^^ (case host_of p r of None \<Rightarrow> 0 | Some h \<Rightarrow> length (ho_out h))) r"

definition room_terminate :: "'s room \<Rightarrow> 's room" where
  "room_terminate r =
     (let r1 = thread_exit Primary (drain Primary r)
      in if rm_follower r1 = None then r1 else thread_exit Follower (drain Follower r1))"

section \<open>The manager\<close>

text \<open>The rooms by table, and the rooms that were closed: nothing refers to those any more but their threads.\<close>

record 's manager =
  mg_rooms :: "(string \<times> 's room) list"
  mg_closed :: "'s room list"

definition manager_get :: "'s worker \<Rightarrow> (slot list \<times> seen_state option) option \<Rightarrow> string \<Rightarrow> 's manager \<Rightarrow> 's room \<times> 's manager" where
  "manager_get w file tableId m = (case map_of (mg_rooms m) tableId of
     Some r \<Rightarrow> (r, m)
   | None \<Rightarrow> (let r = new_room w file in (r, m\<lparr>mg_rooms := mg_rooms m @ [(tableId, r)]\<rparr>)))"

definition manager_close :: "string \<Rightarrow> 's manager \<Rightarrow> 's manager" where
  "manager_close tableId m = (case map_of (mg_rooms m) tableId of
     None \<Rightarrow> m
   | Some r \<Rightarrow> m\<lparr>mg_rooms := AList.delete tableId (mg_rooms m), mg_closed := mg_closed m @ [room_terminate r]\<rparr>)"

definition onModuleDestroy :: "'s manager \<Rightarrow> 's manager" where
  "onModuleDestroy m = m\<lparr>mg_rooms := [], mg_closed := mg_closed m @ map (room_terminate \<circ> snd) (mg_rooms m)\<rparr>"

end
