(* ===== verification/RoomProps.thy ===== *)
theory RoomProps
  imports Rooms "HOL-Library.Multiset"
begin

text \<open>
  Rooms under every order of messages, calls and ends of threads: no call of a client is lost or answered twice; what the
  follower's log holds, before and after a restart; that a room whose follower has taken over plays no more; and
  that closing a room leaves a thread behind.
\<close>

section \<open>The follower's log\<close>

definition follow :: "bool \<Rightarrow> (nat \<times> public_state) list \<Rightarrow> follower" where
  "follow writable ds = fold (\<lambda>d f. fst (follower_diff writable d f)) ds (loadPersisted None)"

definition log_bound :: "(nat \<times> public_state) list \<Rightarrow> nat" where
  "log_bound ds = foldr (\<lambda>d n. max (fst d + 1) n) ds 0"

definition slots_of :: "(nat \<times> public_state) list \<Rightarrow> slot list" where
  "slots_of ds = map (\<lambda>i. case map_of (rev ds) i of None \<Rightarrow> Hole | Some st \<Rightarrow> Entry i (Public st)) [0..<log_bound ds]"

lemma log_bound_snoc: "log_bound (ds @ [d]) = max (log_bound ds) (fst d + 1)"
  by (induction ds) (auto simp: log_bound_def)

lemma log_bound_less: "i < log_bound ds \<longleftrightarrow> (\<exists>j\<in>fst ` set ds. i \<le> j)"
  by (induction ds) (auto simp: log_bound_def less_max_iff_disj)

lemma put_at_slots: "put_at (fst d) (Entry (fst d) (Public (snd d))) (slots_of ds) = slots_of (ds @ [d])"
proof (rule nth_equalityI)
  show "length (put_at (fst d) (Entry (fst d) (Public (snd d))) (slots_of ds)) = length (slots_of (ds @ [d]))"
    by (simp add: put_at_def slots_of_def log_bound_snoc)
next
  fix i
  assume "i < length (put_at (fst d) (Entry (fst d) (Public (snd d))) (slots_of ds))"
  then have i: "i < max (log_bound ds) (fst d + 1)" by (simp add: put_at_def slots_of_def)
  have "map_of (rev ds) i = None" if "\<not> i < log_bound ds"
    using that by (force simp: log_bound_less map_of_eq_None_iff)
  then show "put_at (fst d) (Entry (fst d) (Public (snd d))) (slots_of ds) ! i = slots_of (ds @ [d]) ! i"
    using i by (cases d) (auto simp: put_at_def slots_of_def log_bound_snoc nth_list_update nth_append split: option.splits)
qed

lemma follow_snoc: "follow writable (ds @ [d]) = fst (follower_diff writable d (follow writable ds))"
  by (simp add: follow_def)

lemma follow_log: "fo_log (follow writable ds) = slots_of ds"
proof (induction ds rule: rev_induct)
  case Nil
  show ?case by (simp add: follow_def loadPersisted_def slots_of_def log_bound_def)
next
  case (snoc d ds)
  then show ?case by (simp add: follow_snoc follower_diff_def persist_def Let_def put_at_slots)
qed

lemma follow_current: "current_value (follow writable ds) = (if ds = [] then VUndefined else VState (Public (snd (last ds))))"
  by (cases ds rule: rev_cases)
    (simp_all add: follow_snoc follower_diff_def persist_def Let_def current_value_def follow_def loadPersisted_def)

lemma follow_file:
  "ds \<noteq> [] \<Longrightarrow> \<exists>c. fo_file (follow True ds) = Some (map json_slot (slots_of ds), c)"
  using follow_log [of True ds]
  by (cases ds rule: rev_cases) (auto simp: follow_snoc follower_diff_def persist_def Let_def)

lemma json_slot_Null: "json_slot s = Null \<longleftrightarrow> s = Hole \<or> s = Null"
  by (cases s) auto

lemma slots_not_Null: "Null \<notin> set (slots_of ds)"
  by (auto simp: slots_of_def split: option.splits)

lemma restarted_Null:
  "Null \<in> set (map json_slot (slots_of ds)) \<longleftrightarrow> (\<exists>j\<in>fst ` set ds. \<exists>i<j. i \<notin> fst ` set ds)"
proof -
  have "Null \<in> set (map json_slot (slots_of ds)) \<longleftrightarrow> (\<exists>i<log_bound ds. map_of (rev ds) i = None)"
    by (auto simp: slots_of_def image_iff json_slot_Null eq_commute [of Null] atLeast0LessThan split: option.splits)
  also have "\<dots> \<longleftrightarrow> (\<exists>j\<in>fst ` set ds. \<exists>i<j. i \<notin> fst ` set ds)"
    unfolding log_bound_less map_of_eq_None_iff set_rev using order_le_less by blast
  finally show ?thesis .
qed

lemma slots_from:
  "List.map_filter (entry_from k) (slots_of ds)
     = map (\<lambda>i. (i, Public (the (map_of (rev ds) i)))) (sorted_list_of_set {i \<in> fst ` set ds. k \<le> i})"
proof -
  let ?P = "\<lambda>i. i \<in> fst ` set ds \<and> k \<le> i"
  have "List.map_filter (entry_from k) (map (\<lambda>i. case map_of (rev ds) i of None \<Rightarrow> Hole | Some st \<Rightarrow> Entry i (Public st)) is)
      = map (\<lambda>i. (i, Public (the (map_of (rev ds) i)))) (filter ?P is)" for "is"
  proof (induction "is")
    case (Cons i "is")
    have "map_of (rev ds) i = None \<longleftrightarrow> i \<notin> fst ` set ds" by (simp add: map_of_eq_None_iff)
    with Cons show ?case by (auto simp: List.map_filter_simps split: option.splits)
  qed (simp add: List.map_filter_simps)
  moreover have "sorted_list_of_set {i \<in> fst ` set ds. k \<le> i} = filter ?P [0..<log_bound ds]"
  proof (rule sorted_distinct_set_unique)
    show "set (sorted_list_of_set {i \<in> fst ` set ds. k \<le> i}) = set (filter ?P [0..<log_bound ds])"
      by (auto simp: log_bound_less)
  qed (simp_all add: sorted_wrt_filter)
  ultimately show ?thesis by (simp add: slots_of_def)
qed

text \<open>C30: what a follower has. After any published states it answers \<open>resume\<close> with the last state published under
  each index, in the order of the indices, and \<open>getState\<close> with the state published last. Restarted from its
  file it answers \<open>resume\<close> no more, but throws, exactly if an index below a published one was left out: the hole
  has been read back as \<open>null\<close>.\<close>

theorem follower_log_exact:
  "follower_message hasRedis writable sq (CResume k) (follow writable ds)
     = Some (follow writable ds, [MAnswer sq (VStates
         (map (\<lambda>i. (i, Public (the (map_of (rev ds) i)))) (sorted_list_of_set {i \<in> fst ` set ds. k \<le> i})))])
   \<and> follower_message hasRedis writable sq CGetState (follow writable ds)
     = Some (follow writable ds, [MAnswer sq (if ds = [] then VUndefined else VState (Public (snd (last ds))))])
   \<and> (follower_message hasRedis writable sq (CResume k) (loadPersisted (fo_file (follow True ds))) = None
      \<longleftrightarrow> (\<exists>j\<in>fst ` set ds. \<exists>i<j. i \<notin> fst ` set ds))"
proof (intro conjI)
  show "follower_message hasRedis writable sq (CResume k) (loadPersisted (fo_file (follow True ds))) = None
      \<longleftrightarrow> (\<exists>j\<in>fst ` set ds. \<exists>i<j. i \<notin> fst ` set ds)"
  proof (cases "ds = []")
    case True
    then show ?thesis by (simp add: follow_def loadPersisted_def)
  next
    case False
    then obtain c where "fo_file (follow True ds) = Some (map json_slot (slots_of ds), c)" using follow_file by blast
    then show ?thesis using restarted_Null [of ds] by (simp add: loadPersisted_def)
  qed
qed (simp_all add: follow_log follow_current slots_not_Null slots_from)

section \<open>The invariant of a room\<close>

definition host_ok :: "'s host \<Rightarrow> bool" where
  "host_ok h \<longleftrightarrow> distinct (map fst (ho_pending h)) \<and> (\<forall>x\<in>set (ho_pending h). fst x \<le> ho_seq h)"

text \<open>A host of the follower's thread: no message on its way answers an \<open>apply\<close>.\<close>

definition replica_ok :: "'s host \<Rightarrow> bool" where
  "replica_ok h \<longleftrightarrow> (\<forall>w. ho_thread h \<noteq> Worker w)
     \<and> (\<forall>x\<in>set (ho_in h). fst x \<le> ho_seq h \<and> (\<forall>i. (fst x, KApply i) \<in> set (ho_pending h) \<longrightarrow> (\<exists>a. snd x = CApply a)))
     \<and> (\<forall>sq v. MAnswer sq v \<in> set (ho_out h) \<longrightarrow> sq \<le> ho_seq h \<and> (\<forall>i. (sq, KApply i) \<notin> set (ho_pending h)))"

definition room_inv :: "'s room \<Rightarrow> bool" where
  "room_inv r \<longleftrightarrow> host_ok (rm_primary r)
     \<and> (case rm_follower r of
          None \<Rightarrow> replica_ok (rm_primary r) \<and> \<not> ho_onExit (rm_primary r) \<and> rm_failovers r = 1
        | Some f \<Rightarrow> host_ok f \<and> replica_ok f \<and> ho_onExit (rm_primary r) \<and> \<not> ho_onExit f
            \<and> KPing \<notin> snd ` set (ho_pending f) \<and> rm_failovers r = 0)"

lemma host_call_fields [simp]:
  "ho_thread (host_call k c h) = ho_thread h" "ho_onExit (host_call k c h) = ho_onExit h"
  "ho_pending (host_call k c h) = ho_pending h @ [(ho_seq h + 1, k)]" "ho_out (host_call k c h) = ho_out h"
  "ho_seq (host_call k c h) = ho_seq h + 1"
  by (simp_all add: host_call_def Let_def)

lemma host_call_ok: "host_ok h \<Longrightarrow> host_ok (host_call k c h)"
  by (auto simp: host_ok_def host_call_def Let_def)

lemma host_call_replica:
  assumes "host_ok h" "replica_ok h" "\<And>i. k = KApply i \<Longrightarrow> \<exists>a. c = CApply a"
  shows "replica_ok (host_call k c h)"
  using assms by (auto simp: replica_ok_def host_ok_def host_call_def Let_def le_Suc_eq split: if_splits)

lemma host_sub_ok:
  "host_ok h \<Longrightarrow> set (map fst ps) \<subseteq> set (map fst (ho_pending h)) \<Longrightarrow> distinct (map fst ps) \<Longrightarrow>
    ho_pending h' = ps \<Longrightarrow> ho_seq h' = ho_seq h \<Longrightarrow> host_ok h'"
  by (fastforce simp: host_ok_def)

lemma replica_sub_ok:
  assumes "replica_ok h" "set (ho_pending h') \<subseteq> set (ho_pending h)" "set (ho_out h') \<subseteq> set (ho_out h)"
    "set (ho_in h') \<subseteq> set (ho_in h)" "ho_seq h' = ho_seq h" "ho_thread h' = ho_thread h \<or> ho_thread h' = Gone"
  shows "replica_ok h'"
proof -
  have "ho_thread h' \<noteq> Worker w" for w using assms(1,6) by (auto simp: replica_ok_def)
  moreover have "fst x \<le> ho_seq h' \<and> (\<forall>i. (fst x, KApply i) \<in> set (ho_pending h') \<longrightarrow> (\<exists>a. snd x = CApply a))"
    if "x \<in> set (ho_in h')" for x
    using assms(1,2,4,5) that unfolding replica_ok_def by (metis subsetD)
  moreover have "sq \<le> ho_seq h' \<and> (\<forall>i. (sq, KApply i) \<notin> set (ho_pending h'))" if "MAnswer sq v \<in> set (ho_out h')" for sq v
    using assms(1,2,3,5) that unfolding replica_ok_def by (metis subsetD)
  ultimately show ?thesis unfolding replica_ok_def by blast
qed

lemma answer_client_inv [simp]: "room_inv (answer_client i a r) = room_inv r"
  by (simp add: room_inv_def answer_client_def split: option.splits)

lemma resolve_inv: "room_inv r \<Longrightarrow> room_inv (resolve k v r)"
  by (cases k) (auto simp: room_inv_def answer_client_def host_call_ok intro!: host_call_replica split: option.splits)

lemma reject_inv:
  assumes "room_inv r" "rm_follower r = None \<or> k \<noteq> KPing"
  shows "room_inv (reject k r)" "rm_follower (reject k r) = rm_follower r" "rm_applied (reject k r) = rm_applied r"
    "rm_primary (reject k r) = rm_primary r"
  using assms by (cases k; auto simp: room_inv_def answer_client_def promoteFollower_def split: option.splits)+

lemma reject_all_inv:
  assumes "room_inv r" "rm_follower r = None \<or> KPing \<notin> snd ` set ps"
  defines "r' \<equiv> fold (\<lambda>(_, k). reject k) ps r"
  shows "room_inv r'" "rm_applied r' = rm_applied r" "rm_follower r' = rm_follower r" "rm_primary r' = rm_primary r"
proof -
  have "room_inv (fold (\<lambda>(_, k). reject k) ps r) \<and> rm_applied (fold (\<lambda>(_, k). reject k) ps r) = rm_applied r
      \<and> rm_follower (fold (\<lambda>(_, k). reject k) ps r) = rm_follower r
      \<and> rm_primary (fold (\<lambda>(_, k). reject k) ps r) = rm_primary r"
    using assms(1,2)
  proof (induction ps arbitrary: r)
    case (Cons p ps)
    have k: "rm_follower r = None \<or> snd p \<noteq> KPing" using Cons.prems(2) by auto
    note s = reject_inv [OF Cons.prems(1) k]
    show ?case using Cons.IH [OF s(1)] Cons.prems(2) s by (cases p) auto
  qed simp
  then show "room_inv r'" "rm_applied r' = rm_applied r" "rm_follower r' = rm_follower r" "rm_primary r' = rm_primary r"
    by (simp_all add: r'_def)
qed

lemma set_host_inv:
  assumes "room_inv r" "host_of p r = Some h" "host_ok h'" "replica_ok h \<Longrightarrow> replica_ok h'" "ho_onExit h' = ho_onExit h"
    "snd ` set (ho_pending h') \<subseteq> snd ` set (ho_pending h)"
  shows "room_inv (set_host p h' r)"
  using assms by (cases p) (auto simp: room_inv_def split: option.splits)

lemma host_of_ok: "room_inv r \<Longrightarrow> host_of p r = Some h \<Longrightarrow> host_ok h"
  by (cases p) (auto simp: room_inv_def)

lemma channel_inv [simp]: "room_inv (r\<lparr>rm_channel := ds\<rparr>) = room_inv r" "room_inv (r\<lparr>rm_states := sts\<rparr>) = room_inv r"
  "room_inv (r\<lparr>rm_down := b\<rparr>) = room_inv r"
  by (simp_all add: room_inv_def split: option.splits)

lemma host_of_channel [simp]: "host_of p (r\<lparr>rm_channel := ds\<rparr>) = host_of p r"
  by (cases p) simp_all

lemma replica_handle:
  assumes "thread_handle env sq c th = Some (th', ms, ds)" "\<And>w. th \<noteq> Worker w"
  shows "th' \<noteq> Worker w" "MAnswer s v \<in> set ms \<Longrightarrow> s = sq \<and> c \<noteq> CApply a"
  using assms by (cases th; cases c; auto simp: Let_def split: if_splits)+

lemma deliver_inv:
  assumes "room_inv r"
  shows "room_inv (deliver env p r)"
proof (cases "host_of p r")
  case (Some h)
  note h = this
  show ?thesis
  proof (cases "ho_in h")
    case (Cons x rest)
    obtain sq c where x: "x = (sq, c)" by (cases x)
    show ?thesis
    proof (cases "thread_handle env sq c (ho_thread h)")
      case (Some y)
      obtain th ms ds where y: "y = (th, ms, ds)" by (cases y)
      let ?h = "h\<lparr>ho_in := rest, ho_thread := th, ho_out := ho_out h @ ms\<rparr>"
      have "replica_ok ?h" if r: "replica_ok h"
      proof -
        have n: "ho_thread h \<noteq> Worker w" for w using r by (simp add: replica_ok_def)
        note m = replica_handle [OF Some [unfolded y] n]
        show ?thesis using r m Cons x unfolding replica_ok_def by (auto; fastforce)
      qed
      then have "room_inv (set_host p ?h (r\<lparr>rm_channel := rm_channel r @ ds\<rparr>))"
        using assms h host_of_ok [OF assms h] by (intro set_host_inv [of _ _ h]) (auto simp: host_ok_def)
      then show ?thesis using Some h Cons x y by (simp add: deliver_def)
    qed (simp add: deliver_def h Cons x assms)
  qed (simp add: deliver_def h assms)
qed (simp add: deliver_def assms)

lemma receive_host_inv:
  assumes "room_inv r" "host_of p r = Some h" "ho_out h = m # ms" "ps = ho_pending h \<or> (\<exists>s. ps = AList.delete s (ho_pending h))"
  shows "room_inv (set_host p (h\<lparr>ho_out := ms, ho_pending := ps\<rparr>) r)"
proof (rule set_host_inv [OF assms(1,2)])
  have ps: "set ps \<subseteq> set (ho_pending h)" using assms(4) by (auto simp: AList.delete_eq)
  then show "snd ` set (ho_pending (h\<lparr>ho_out := ms, ho_pending := ps\<rparr>)) \<subseteq> snd ` set (ho_pending h)" by auto
  show "replica_ok (h\<lparr>ho_out := ms, ho_pending := ps\<rparr>)" if "replica_ok h"
    by (rule replica_sub_ok [OF that]) (use ps assms(3) in auto)
  have "distinct (map fst ps)" using assms(4) host_of_ok [OF assms(1,2)] by (auto simp: host_ok_def distinct_delete)
  then show "host_ok (h\<lparr>ho_out := ms, ho_pending := ps\<rparr>)"
    by (rule host_sub_ok [OF host_of_ok [OF assms(1,2)], rotated]) (use ps in auto)
qed simp

lemma receive_inv:
  assumes "room_inv r"
  shows "room_inv (receive p r)"
proof (cases "\<exists>h m ms. host_of p r = Some h \<and> ho_out h = m # ms")
  case True
  then obtain h m ms where h: "host_of p r = Some h" "ho_out h = m # ms" by blast
  note i = receive_host_inv [OF assms h, of "ho_pending h"] receive_host_inv [OF assms h]
  have "h\<lparr>ho_out := ms, ho_pending := ho_pending h\<rparr> = h\<lparr>ho_out := ms\<rparr>" by simp
  with i show ?thesis
    by (cases m) (auto simp: receive_def h Let_def intro!: resolve_inv split: option.splits)
qed (auto simp: receive_def assms split: option.splits list.splits)

lemma receive_diff_inv:
  assumes "room_inv r"
  shows "room_inv (receive_diff env r)"
proof (cases "\<exists>d ds h f. rm_channel r = d # ds \<and> host_of (replica_side r) r = Some h \<and> ho_thread h = Replica f")
  case True
  then obtain d ds h f where h: "rm_channel r = d # ds" "host_of (replica_side r) r = Some h" "ho_thread h = Replica f" by blast
  let ?h = "h\<lparr>ho_thread := Replica (fst (follower_diff (ro_writable env) d f)), ho_out := ho_out h @ [MState (Public (snd d))]\<rparr>"
  have "room_inv (set_host (replica_side r) ?h (r\<lparr>rm_channel := ds\<rparr>))"
    using assms h host_of_ok [OF assms h(2)] by (intro set_host_inv [of _ _ h]) (auto simp: host_ok_def replica_ok_def)
  then show ?thesis using h by (simp add: receive_diff_def follower_diff_def Let_def)
qed (use assms in \<open>auto simp: receive_diff_def Let_def split: option.splits list.splits thread.splits\<close>)

lemma exited_inv:
  assumes "room_inv r" "host_of p r = Some h"
  shows "room_inv (set_host p (h\<lparr>ho_thread := Gone, ho_pending := [], ho_in := []\<rparr>) r)"
  using assms by (intro set_host_inv [of _ _ h]) (auto simp: host_ok_def intro: replica_sub_ok)

lemma promote_inv: "room_inv r \<Longrightarrow> room_inv (promoteFollower r)"
  by (auto simp: room_inv_def promoteFollower_def host_ok_def replica_ok_def split: option.splits)

lemma promote_follower [simp]: "rm_follower (promoteFollower r) = None" "rm_applied (promoteFollower r) = rm_applied r"
  by (simp_all add: promoteFollower_def split: option.splits)

text \<open>The room after the end of a thread, before the rejections.\<close>

definition exited :: "side \<Rightarrow> 's host \<Rightarrow> 's room \<Rightarrow> 's room" where
  "exited p h r =
     (let r1 = set_host p (h\<lparr>ho_thread := Gone, ho_pending := [], ho_in := []\<rparr>) r in if ho_onExit h then promoteFollower r1 else r1)"

lemma thread_exit_exited:
  "host_of p r = Some h \<Longrightarrow> ho_thread h \<noteq> Gone \<Longrightarrow> thread_exit p r = fold (\<lambda>(_, k). reject k) (ho_pending h) (exited p h r)"
  by (simp add: thread_exit_def exited_def Let_def)

lemma exited_ok:
  assumes "room_inv r" "host_of p r = Some h"
  shows "room_inv (exited p h r)" "rm_follower (exited p h r) = None \<or> KPing \<notin> snd ` set (ho_pending h)"
    "rm_applied (exited p h r) = rm_applied r" "rm_failovers r \<noteq> 0 \<Longrightarrow> rm_failovers (exited p h r) = rm_failovers r"
  using exited_inv [OF assms] promote_inv [OF exited_inv [OF assms]] assms
  by (cases p; auto simp: exited_def Let_def room_inv_def promoteFollower_def split: option.splits)+

lemma thread_exit_inv:
  assumes "room_inv r"
  shows "room_inv (thread_exit p r)" "rm_applied (thread_exit p r) = rm_applied r"
proof -
  have "room_inv (thread_exit p r) \<and> rm_applied (thread_exit p r) = rm_applied r"
  proof (cases "\<exists>h. host_of p r = Some h \<and> ho_thread h \<noteq> Gone")
    case True
    then obtain h where h: "host_of p r = Some h" "ho_thread h \<noteq> Gone" by blast
    show ?thesis unfolding thread_exit_exited [OF h]
      using reject_all_inv [OF exited_ok(1,2) [OF assms h(1)]] exited_ok(3) [OF assms h(1)] by simp
  qed (use assms in \<open>auto simp: thread_exit_def split: option.splits\<close>)
  then show "room_inv (thread_exit p r)" "rm_applied (thread_exit p r) = rm_applied r" by simp_all
qed

lemma call_primary_inv:
  assumes "room_inv r" "\<And>i. k = KApply i \<Longrightarrow> \<exists>a. c = CApply a"
  shows "room_inv (call_primary k c r)"
  using assms by (auto simp: room_inv_def call_primary_def host_call_ok host_call_replica split: option.splits)

lemma room_step_inv: "room_inv r \<Longrightarrow> room_inv (room_step x r)"
proof (cases "snd x")
  case (Request i op)
  then show "room_inv r \<Longrightarrow> room_inv (room_step x r)" by (cases op) (auto simp: room_step_def intro: call_primary_inv)
qed (auto simp: room_step_def intro: call_primary_inv deliver_inv receive_inv receive_diff_inv thread_exit_inv)

lemma new_room_inv: "room_inv (new_room w file)"
  by (simp add: room_inv_def new_room_def new_host_def host_ok_def replica_ok_def)

lemma room_run_inv: "room_inv r \<Longrightarrow> room_inv (room_run xs r)"
  unfolding room_run_def by (induction xs arbitrary: r) (auto intro: room_step_inv)

section \<open>The calls of the clients\<close>

fun client_of :: "room_cont \<Rightarrow> nat option" where
  "client_of (KClient i) = Some i"
| "client_of (KApply i) = Some i"
| "client_of (KReplay i) = Some i"
| "client_of (KReplayed i _) = Some i"
| "client_of _ = None"

definition waiting :: "(nat \<times> room_cont) list \<Rightarrow> nat multiset" where
  "waiting ps = mset (List.map_filter (client_of \<circ> snd) ps)"

definition unanswered :: "'s room \<Rightarrow> nat multiset" where
  "unanswered r = waiting (ho_pending (rm_primary r)) + (case rm_follower r of None \<Rightarrow> {#} | Some f \<Rightarrow> waiting (ho_pending f))"

definition call_account :: "'s room \<Rightarrow> nat multiset" where
  "call_account r = mset (map fst (rm_answers r)) + unanswered r"

definition issued :: "'s room_env \<times> room_event \<Rightarrow> 's room \<Rightarrow> nat list" where
  "issued x r = (if rm_down r then [] else case snd x of Request i _ \<Rightarrow> [i] | _ \<Rightarrow> [])"

fun issued_run :: "('s room_env \<times> room_event) list \<Rightarrow> 's room \<Rightarrow> nat list" where
  "issued_run [] r = []"
| "issued_run (x # xs) r = issued x r @ issued_run xs (room_step x r)"

abbreviation owner :: "room_cont \<Rightarrow> nat multiset" where
  "owner k \<equiv> waiting [(0, k)]"

lemma waiting_simps [simp]: "waiting [] = {#}" "waiting (ps @ qs) = waiting ps + waiting qs"
  "waiting ((s, k) # ps) = (case client_of k of None \<Rightarrow> {#} | Some i \<Rightarrow> {#i#}) + waiting ps"
  by (simp_all add: waiting_def List.map_filter_def split: option.splits)

lemma waiting_delete:
  assumes "distinct (map fst ps)" "map_of ps s = Some k"
  shows "waiting ps = owner k + waiting (AList.delete s ps)"
  using assms
proof (induction ps)
  case (Cons p ps)
  obtain s' k' where p: "p = (s', k')" by (cases p)
  show ?case
  proof (cases "s' = s")
    case True
    then have "AList.delete s ps = ps" using Cons.prems(1) p by simp
    then show ?thesis using True Cons.prems p by simp
  next
    case False
    then show ?thesis using Cons p by (simp add: union_ac)
  qed
qed simp

lemma account_resolve: "call_account (resolve k v r) = owner k + call_account r"
  by (cases k) (simp_all add: call_account_def unanswered_def answer_client_def split: option.splits)

lemma account_reject: "rm_follower r = None \<or> k \<noteq> KPing \<Longrightarrow> call_account (reject k r) = owner k + call_account r"
  by (cases k) (auto simp: call_account_def unanswered_def answer_client_def promoteFollower_def split: option.splits)

lemma account_reject_all:
  assumes "room_inv r" "rm_follower r = None \<or> KPing \<notin> snd ` set ps"
  shows "call_account (fold (\<lambda>(_, k). reject k) ps r) = waiting ps + call_account r"
  using assms
proof (induction ps arbitrary: r)
  case (Cons p ps)
  obtain s k where p: "p = (s, k)" by (cases p)
  have k: "rm_follower r = None \<or> k \<noteq> KPing" using Cons.prems(2) p by auto
  note s = reject_inv [OF Cons.prems(1) k]
  have "rm_follower (reject k r) = None \<or> KPing \<notin> snd ` set ps" using Cons.prems(2) s(2) by auto
  from Cons.IH [OF s(1) this] show ?case using account_reject [OF k] p by (simp add: union_ac)
qed simp

lemma account_set_host:
  "host_of p r = Some h \<Longrightarrow> call_account (set_host p h' r) + waiting (ho_pending h) = call_account r + waiting (ho_pending h')"
  by (cases p) (auto simp: call_account_def unanswered_def union_ac)

lemma account_other [simp]: "call_account (r\<lparr>rm_channel := ds\<rparr>) = call_account r" "call_account (r\<lparr>rm_states := sts\<rparr>) = call_account r"
  "call_account (r\<lparr>rm_down := b\<rparr>) = call_account r"
  by (simp_all add: call_account_def unanswered_def)

lemma account_same_pending:
  "host_of p r = Some h \<Longrightarrow> ho_pending h' = ho_pending h \<Longrightarrow> call_account (set_host p h' r) = call_account r"
  using account_set_host [of p r h h'] by simp

lemma account_deliver: "call_account (deliver env p r) = call_account r"
  by (auto simp: deliver_def account_same_pending split: option.splits list.splits prod.splits)

lemma account_receive:
  assumes "room_inv r"
  shows "call_account (receive p r) = call_account r"
proof (cases "\<exists>h sq v ms k. host_of p r = Some h \<and> ho_out h = MAnswer sq v # ms \<and> map_of (ho_pending h) sq = Some k")
  case True
  then obtain h sq v ms k where h: "host_of p r = Some h" "ho_out h = MAnswer sq v # ms" "map_of (ho_pending h) sq = Some k"
    by blast
  let ?h = "h\<lparr>ho_out := ms, ho_pending := AList.delete sq (ho_pending h)\<rparr>"
  have "waiting (ho_pending h) = owner k + waiting (ho_pending ?h)"
    using waiting_delete [OF _ h(3)] host_of_ok [OF assms h(1)] by (simp add: host_ok_def)
  then have "owner k + call_account (set_host p ?h r) = call_account r" using account_set_host [OF h(1), of ?h] by (simp add: union_ac)
  then show ?thesis using h by (simp add: receive_def account_resolve)
qed (auto simp: receive_def Let_def account_same_pending split: option.splits list.splits room_msg.splits)

lemma account_receive_diff: "call_account (receive_diff env r) = call_account r"
  by (auto simp: receive_diff_def Let_def account_same_pending split: option.splits list.splits thread.splits prod.splits)

lemma account_exited:
  assumes "room_inv r" "host_of p r = Some h"
  shows "call_account r = waiting (ho_pending h) + call_account (exited p h r)"
proof -
  let ?r = "set_host p (h\<lparr>ho_thread := Gone, ho_pending := [], ho_in := []\<rparr>) r"
  have "call_account (exited p h r) = call_account ?r"
    using assms by (cases p) (auto simp: exited_def room_inv_def promoteFollower_def call_account_def unanswered_def split: option.splits)
  then show ?thesis using account_set_host [OF assms(2), of "h\<lparr>ho_thread := Gone, ho_pending := [], ho_in := []\<rparr>"] by (simp add: union_ac)
qed

lemma account_exit:
  assumes "room_inv r"
  shows "call_account (thread_exit p r) = call_account r"
proof (cases "\<exists>h. host_of p r = Some h \<and> ho_thread h \<noteq> Gone")
  case True
  then obtain h where h: "host_of p r = Some h" "ho_thread h \<noteq> Gone" by blast
  show ?thesis unfolding thread_exit_exited [OF h] account_exited [OF assms h(1)]
    by (rule account_reject_all [OF exited_ok(1,2) [OF assms h(1)]])
qed (auto simp: thread_exit_def split: option.splits)

lemma account_call: "call_account (call_primary k c r) = owner k + call_account r"
  by (simp add: call_account_def unanswered_def call_primary_def)

lemma account_step:
  assumes "room_inv r"
  shows "call_account (room_step x r) = mset (issued x r) + call_account r"
proof (cases "snd x")
  case (Request i op)
  then show ?thesis by (cases op) (simp_all add: room_step_def issued_def account_call)
qed (simp_all add: room_step_def issued_def account_call account_deliver account_receive account_receive_diff account_exit assms)

text \<open>C12: no call of a client is lost, and none is answered twice. Whatever the order of calls, deliveries, heartbeats and
  ends of threads, the calls that have been answered, once each, and the calls that still wait at one of the two hosts are
  together exactly the calls that were made.\<close>

theorem room_calls_accounted:
  "mset (map fst (rm_answers (room_run xs (new_room w file)))) + unanswered (room_run xs (new_room w file))
     = mset (issued_run xs (new_room w file))"
proof -
  have "call_account (room_run xs r) = mset (issued_run xs r) + call_account r" if "room_inv r" for r :: "'a room"
    using that
  proof (induction xs arbitrary: r)
    case (Cons x xs)
    then show ?case using account_step [OF Cons.prems, of x] Cons.IH [OF room_step_inv [OF Cons.prems]] by (simp add: room_run_def union_ac)
  qed (simp add: room_run_def)
  from this [OF new_room_inv [of w "file"]] show ?thesis
    by (simp add: call_account_def [of "new_room w file"] call_account_def [of "room_run xs (new_room w file)"] unanswered_def [of "new_room w file"])
      (simp add: new_room_def new_host_def)
qed

section \<open>After a failover\<close>

definition stuck :: "nat \<Rightarrow> 's room \<Rightarrow> bool" where
  "stuck i r \<longleftrightarrow> (\<exists>sq. (sq, KApply i) \<in> set (ho_pending (rm_primary r))) \<or> (i, Rejected) \<in> set (rm_answers r)"

definition applies :: "'s room_env \<times> room_event \<Rightarrow> 's room \<Rightarrow> nat list" where
  "applies x r = (if rm_down r then [] else case snd x of Request i (OApply _) \<Rightarrow> [i] | _ \<Rightarrow> [])"

fun applies_run :: "('s room_env \<times> room_event) list \<Rightarrow> 's room \<Rightarrow> nat list" where
  "applies_run [] r = []"
| "applies_run (x # xs) r = applies x r @ applies_run xs (room_step x r)"

text \<open>What holds of a room after a failover and the step that follows.\<close>

definition frozen_step :: "'s room \<Rightarrow> 's room \<Rightarrow> bool" where
  "frozen_step r r' \<longleftrightarrow> rm_follower r' = None \<and> rm_applied r' = rm_applied r \<and> (\<forall>i. stuck i r \<longrightarrow> stuck i r')"

lemma frozen_trans: "frozen_step r r' \<Longrightarrow> frozen_step r' r'' \<Longrightarrow> frozen_step r r''"
  by (simp add: frozen_step_def)

lemma frozen_deliver: "rm_follower r = None \<Longrightarrow> frozen_step r (deliver env p r)"
  by (cases p) (auto simp: frozen_step_def deliver_def stuck_def split: list.splits option.splits prod.splits)

lemma frozen_call: "rm_follower r = None \<Longrightarrow> frozen_step r (call_primary k c r)"
  by (auto simp: frozen_step_def call_primary_def stuck_def)

lemma frozen_diff: "rm_follower r = None \<Longrightarrow> frozen_step r (receive_diff env r)"
  by (auto simp: frozen_step_def receive_diff_def replica_side_def stuck_def Let_def split: list.splits option.splits prod.splits thread.splits)

lemma frozen_receive:
  assumes "room_inv r" "rm_follower r = None"
  shows "frozen_step r (receive p r)"
proof (cases "\<exists>sq v ms k. p = Primary \<and> ho_out (rm_primary r) = MAnswer sq v # ms \<and> map_of (ho_pending (rm_primary r)) sq = Some k")
  case True
  then obtain sq v ms k where h: "p = Primary" "ho_out (rm_primary r) = MAnswer sq v # ms"
    "map_of (ho_pending (rm_primary r)) sq = Some k" by blast
  have a: "(sq, KApply i) \<notin> set (ho_pending (rm_primary r))" for i
    using assms h(2) by (auto simp: room_inv_def replica_ok_def)
  then have k: "k \<noteq> KApply i" for i using map_of_SomeD [OF h(3)] by blast
  let ?h = "(rm_primary r)\<lparr>ho_out := ms, ho_pending := AList.delete sq (ho_pending (rm_primary r))\<rparr>"
  have "frozen_step r (r\<lparr>rm_primary := ?h\<rparr>)" using a assms(2) by (auto simp: frozen_step_def stuck_def AList.delete_eq)
  moreover have "frozen_step (r\<lparr>rm_primary := ?h\<rparr>) (resolve k v (r\<lparr>rm_primary := ?h\<rparr>))"
    using k assms(2) by (cases k) (auto simp: frozen_step_def stuck_def answer_client_def)
  ultimately show ?thesis using h by (auto simp: receive_def intro: frozen_trans)
qed (use assms in \<open>cases p; auto simp: frozen_step_def receive_def Let_def stuck_def split: list.splits option.splits room_msg.splits\<close>)

lemma frozen_reject: "rm_follower r = None \<Longrightarrow> frozen_step r (reject k r)"
  by (cases k) (auto simp: frozen_step_def stuck_def answer_client_def promoteFollower_def)

lemma frozen_reject_all: "rm_follower r = None \<Longrightarrow> frozen_step r (fold (\<lambda>(_, k). reject k) ps r)"
proof (induction ps arbitrary: r)
  case (Cons p ps)
  note f = frozen_reject [OF Cons.prems, of "snd p"]
  then have "rm_follower (reject (snd p) r) = None" by (simp add: frozen_step_def)
  from frozen_trans [OF f Cons.IH [OF this]] show ?case by (simp add: split_def)
qed (simp add: frozen_step_def)

lemma rejected_all: "rm_follower r = None \<Longrightarrow> (sq, KApply i) \<in> set ps \<Longrightarrow> (i, Rejected) \<in> set (rm_answers (fold (\<lambda>(_, k). reject k) ps r))"
proof (induction ps arbitrary: r)
  case (Cons p ps)
  have keep: "set (rm_answers r) \<subseteq> set (rm_answers (reject k r))" for k and r :: "'a room"
    by (cases k) (auto simp: answer_client_def promoteFollower_def split: option.splits)
  have keeps: "set (rm_answers r) \<subseteq> set (rm_answers (fold (\<lambda>(_, k). reject k) ps r))" for r :: "'a room"
    using keep by (induction ps arbitrary: r) (auto simp: split_def, blast)
  have f: "rm_follower (reject (snd p) r) = None" using frozen_reject [OF Cons.prems(1)] by (simp add: frozen_step_def)
  show ?case
  proof (cases "p = (sq, KApply i)")
    case True
    then have "(i, Rejected) \<in> set (rm_answers (reject (snd p) r))" by (simp add: answer_client_def)
    then show ?thesis using keeps [of "reject (snd p) r"] by (auto simp: split_def)
  next
    case False
    then show ?thesis using Cons.IH [OF f] Cons.prems(2) by (simp add: split_def)
  qed
qed simp

lemma frozen_exit:
  assumes "room_inv r" "rm_follower r = None"
  shows "frozen_step r (thread_exit p r)"
proof (cases "p = Primary \<and> ho_thread (rm_primary r) \<noteq> Gone")
  case True
  let ?h = "rm_primary r"
  have h: "host_of p r = Some ?h" "ho_thread ?h \<noteq> Gone" using True by auto
  have e: "rm_follower (exited p ?h r) = None" "rm_applied (exited p ?h r) = rm_applied r" "rm_answers (exited p ?h r) = rm_answers r"
    using True assms by (auto simp: exited_def room_inv_def Let_def)
  note f = frozen_reject_all [OF e(1), of "ho_pending ?h"]
  have "stuck i (fold (\<lambda>(_, k). reject k) (ho_pending ?h) (exited p ?h r))" if "stuck i r" for i
  proof (cases "(i, Rejected) \<in> set (rm_answers r)")
    case True
    then have "stuck i (exited p ?h r)" using e(3) by (simp add: stuck_def)
    then show ?thesis using f by (simp add: frozen_step_def)
  next
    case False
    then show ?thesis using that rejected_all [OF e(1), of _ i "ho_pending ?h"] by (auto simp: stuck_def)
  qed
  with f e show ?thesis unfolding thread_exit_exited [OF h] by (simp add: frozen_step_def)
qed (use assms in \<open>cases p; auto simp: frozen_step_def thread_exit_def\<close>)

lemma frozen_room_step:
  assumes "room_inv r" "rm_follower r = None"
  shows "frozen_step r (room_step x r)" "i \<in> set (applies x r) \<Longrightarrow> stuck i (room_step x r)"
proof -
  have refl: "frozen_step r r" using assms by (simp add: frozen_step_def)
  show "frozen_step r (room_step x r)"
  proof (cases "snd x")
    case (Request i op)
    then show ?thesis using assms(2) refl by (cases op) (auto simp: room_step_def frozen_call)
  qed (use assms refl in \<open>auto simp: room_step_def frozen_call frozen_deliver frozen_receive frozen_diff frozen_exit\<close>)
  show "stuck i (room_step x r)" if i: "i \<in> set (applies x r)"
  proof -
    obtain a where "snd x = Request i (OApply a)" "\<not> rm_down r"
      using i by (cases "rm_down r"; cases "snd x") (auto simp: applies_def split: room_op.splits)
    then show ?thesis by (auto simp: room_step_def call_primary_def stuck_def)
  qed
qed

lemma frozen_run:
  assumes "room_inv r" "rm_follower r = None"
  shows "frozen_step r (room_run ys r) \<and> (\<forall>i\<in>set (applies_run ys r). stuck i (room_run ys r))"
  using assms
proof (induction ys arbitrary: r)
  case (Cons y ys)
  note s = frozen_room_step [OF Cons.prems, where x = y]
  have n: "rm_follower (room_step y r) = None" using s(1) by (simp add: frozen_step_def)
  note IH = Cons.IH [OF room_step_inv [OF Cons.prems(1)] n]
  then have "stuck i (room_run ys (room_step y r))" if "i \<in> set (applies y r)" for i
    using s(2) [OF that] by (simp add: frozen_step_def)
  then show ?case using IH frozen_trans [OF s(1)] by (auto simp: room_run_def)
qed (simp add: room_run_def frozen_step_def)

text \<open>C35: a room that has failed over plays no more. When the thread of the game ends, the follower takes its place; but the
  follower has no \<open>apply\<close>. In any further run no action is applied, each \<open>apply\<close> a client asks for stays without an answer
  or is rejected when the thread of the follower ends as well, and there is no second failover.\<close>

theorem failover_freezes:
  assumes "rm_failovers (room_run xs (new_room w file)) \<noteq> 0"
  defines "r \<equiv> room_run xs (new_room w file)"
  shows "rm_applied (room_run ys r) = rm_applied r \<and> rm_failovers (room_run ys r) = 1
     \<and> (\<forall>i\<in>set (applies_run ys r). (\<exists>sq. (sq, KApply i) \<in> set (ho_pending (rm_primary (room_run ys r))))
           \<or> (i, Rejected) \<in> set (rm_answers (room_run ys r)))"
proof -
  have i: "room_inv r" unfolding r_def by (rule room_run_inv [OF new_room_inv])
  then have n: "rm_follower r = None" using assms by (auto simp: room_inv_def split: option.splits)
  note f = frozen_run [OF i n, of ys]
  then have "rm_follower (room_run ys r) = None" by (simp add: frozen_step_def)
  then have "rm_failovers (room_run ys r) = 1" using room_run_inv [OF i, of ys] by (simp add: room_inv_def)
  with f show ?thesis by (simp add: frozen_step_def stuck_def)
qed

definition demo_room_env :: "mock_redis room_env" where
  "demo_room_env = \<lparr>ro_worker = demo_worker_env, ro_writable = True\<rparr>"

definition demo_failover :: "(mock_redis room_env \<times> room_event) list" where
  "demo_failover = map (Pair demo_room_env) [Deliver Primary, Receive Primary, Exit Primary]"

definition demo_room_requests :: "(mock_redis room_env \<times> room_event) list" where
  "demo_room_requests = map (Pair demo_room_env) [Deliver Primary, Receive Primary, Request 7 (OApply Next), Deliver Primary]"

lemma demo_failed_over:
  "rm_failovers (room_run demo_failover (new_room w None)) = 1" "\<not> rm_down (room_run demo_failover (new_room w None))"
  "ho_out (rm_primary (room_run demo_failover (new_room w None))) = []"
  "\<exists>sts f. ho_in (rm_primary (room_run demo_failover (new_room w None))) = [(1, CSnapshot sts)]
     \<and> ho_pending (rm_primary (room_run demo_failover (new_room w None))) = [(1, KSnapshot (length sts))]
     \<and> ho_thread (rm_primary (room_run demo_failover (new_room w None))) = Replica f"
  by (simp_all add: room_run_def demo_failover_def room_step_def new_room_def new_host_def host_call_def deliver_def receive_def
      thread_exit_def drained_def promoteFollower_def Let_def)

theorem failover_freezes_witness:
  "7 \<in> set (applies_run demo_room_requests (room_run demo_failover (new_room demo_worker None)))
   \<and> ((\<exists>sq. (sq, KApply 7) \<in> set (ho_pending (rm_primary (room_run demo_room_requests (room_run demo_failover (new_room demo_worker None))))))
        \<or> (7, Rejected) \<in> set (rm_answers (room_run demo_room_requests (room_run demo_failover (new_room demo_worker None)))))"
proof -
  let ?r = "room_run demo_failover (new_room demo_worker None)"
  have "7 \<in> set (applies_run demo_room_requests ?r)"
    using demo_failed_over(2-4) [of demo_worker]
    by (auto simp: demo_room_requests_def applies_def room_step_def deliver_def receive_def Let_def)
  with failover_freezes [of demo_failover demo_worker None demo_room_requests] demo_failed_over(1) [of demo_worker]
  show ?thesis by simp
qed

section \<open>Refused actions\<close>

text \<open>one refused action ends the server. The handler of the worker lets the engine's exception escape, its thread fails, and the
  host passes the error on as an event nobody listens to: as soon as the message of a client's action that the
  engine refuses is delivered, the server is down, and the client is not answered.\<close>

theorem refused_action_fatal:
  assumes "\<not> rm_down r" "ho_in (rm_primary r) = []" "ho_thread (rm_primary r) = Worker w"
    "worker_play (ro_worker env) a (wk_table w) = Inl e"
  shows "rm_down (room_run [(env, Request i (OApply a)), (env, Deliver Primary)] r)
     \<and> rm_answers (room_run [(env, Request i (OApply a)), (env, Deliver Primary)] r) = rm_answers r"
  using assms by (simp add: room_run_def room_step_def call_primary_def deliver_def host_call_def worker_apply_def Let_def)

lemma demo_stranger:
  "\<exists>e. worker_play demo_worker_env (Fold ''nobody'') (wk_table demo_worker) = Inl e"
  by (simp add: worker_play_def applyAction_def engine_step_def step_machine_def machine_apply_def demo_worker_def apply_blinds_def
      demo_world_def new_machine_def Let_def)

theorem refused_action_fatal_witness:
  "\<exists>w. \<not> rm_down (room_run [(demo_room_env, Deliver Primary)] (new_room w None))
     \<and> rm_down (room_run [(demo_room_env, Request 7 (OApply (Fold ''nobody''))), (demo_room_env, Deliver Primary)]
          (room_run [(demo_room_env, Deliver Primary)] (new_room w None)))"
proof -
  let ?r = "room_run [(demo_room_env, Deliver Primary)] (new_room demo_worker None)"
  let ?w = "demo_worker\<lparr>wk_posts := [PStates 1 (filter (\<lambda>(i, _). i \<ge> 0) (logged_states (eng (wk_table demo_worker))))], wk_diffs := []\<rparr>"
  obtain e where e: "worker_play demo_worker_env (Fold ''nobody'') (wk_table demo_worker) = Inl e"
    using demo_stranger by blast
  have r: "\<not> rm_down ?r" "ho_in (rm_primary ?r) = []" "ho_thread (rm_primary ?r) = Worker ?w"
    by (simp_all add: room_run_def room_step_def new_room_def new_host_def host_call_def deliver_def Let_def)
  have "rm_down (room_run [(demo_room_env, Request 7 (OApply (Fold ''nobody''))), (demo_room_env, Deliver Primary)] ?r)"
    using refused_action_fatal [OF r, of demo_room_env "Fold ''nobody''" e 7] e by (simp add: demo_room_env_def)
  with r(1) show ?thesis by blast
qed

section \<open>Closing a room\<close>

definition threads :: "'s room \<Rightarrow> 's thread \<times> 's thread option" where
  "threads r = (ho_thread (rm_primary r), map_option ho_thread (rm_follower r))"

lemma resolve_threads: "threads (resolve k v r) = threads r"
  by (cases k) (auto simp: threads_def answer_client_def split: option.splits)

lemma receive_threads: "threads (receive p r) = threads r"
proof -
  have "threads (set_host p (h\<lparr>ho_out := ms\<rparr>) r) = threads r"
    "threads (set_host p (h\<lparr>ho_out := ms, ho_pending := ps\<rparr>) r) = threads r" if "host_of p r = Some h" for h ms ps
    using that by (cases p; auto simp: threads_def)+
  moreover have "threads (r\<lparr>rm_states := sts\<rparr>) = threads r" for sts and r :: "'a room" by (simp add: threads_def)
  ultimately show ?thesis
    by (auto simp: receive_def Let_def resolve_threads split: option.splits list.splits room_msg.splits)
qed

lemma drain_keeps:
  assumes "room_inv r"
  shows "room_inv (drain p r)" "threads (drain p r) = threads r"
proof -
  have "room_inv ((receive p ^^ n) r) \<and> threads ((receive p ^^ n) r) = threads r" for n
    by (induction n) (simp_all add: assms receive_inv receive_threads)
  then show "room_inv (drain p r)" "threads (drain p r) = threads r" by (simp_all add: drain_def)
qed

text \<open>Until the follower takes over the first thread is the one of the game.\<close>

definition game_runs :: "'s room \<Rightarrow> bool" where
  "game_runs r \<longleftrightarrow> (snd (threads r) \<noteq> None \<longrightarrow> fst (threads r) \<noteq> Gone)"

lemma exit_threads:
  assumes "room_inv r" "host_of p r = Some h" "ho_thread h \<noteq> Gone"
  shows "threads (thread_exit p r) = threads (exited p h r)"
  unfolding thread_exit_exited [OF assms(2,3)] threads_def reject_all_inv(3,4) [OF exited_ok(1,2) [OF assms(1,2)]] ..

lemma primary_exit_threads:
  assumes "room_inv r" "ho_thread (rm_primary r) \<noteq> Gone"
  shows "threads (thread_exit Primary r) = (case snd (threads r) of None \<Rightarrow> (Gone, None) | Some th \<Rightarrow> (th, None))"
  using exit_threads [OF assms(1) _ assms(2), of Primary] assms(1)
  by (auto simp: exited_def room_inv_def threads_def promoteFollower_def split: option.splits)

lemma thread_handle_runs: "thread_handle env sq c th = Some (th', ms, ds) \<Longrightarrow> th \<noteq> Gone \<Longrightarrow> th' \<noteq> Gone"
  by (cases th) (auto split: sum.splits)

lemma game_runs_deliver: "game_runs r \<Longrightarrow> game_runs (deliver env p r)"
  by (cases p) (auto simp: game_runs_def threads_def deliver_def dest: thread_handle_runs split: option.splits list.splits prod.splits)

lemma game_runs_exit:
  assumes "room_inv r" "game_runs r"
  shows "game_runs (thread_exit p r)"
proof (cases "\<exists>h. host_of p r = Some h \<and> ho_thread h \<noteq> Gone")
  case True
  then obtain h where h: "host_of p r = Some h" "ho_thread h \<noteq> Gone" by blast
  show ?thesis using exit_threads [OF assms(1) h] assms h
    by (cases p) (auto simp: game_runs_def exited_def room_inv_def threads_def promoteFollower_def split: option.splits)
qed (use assms in \<open>auto simp: thread_exit_def split: option.splits\<close>)

lemma game_runs_run:
  assumes "room_inv r" "game_runs r"
  shows "game_runs (room_run xs r)"
proof -
  have diff: "game_runs (receive_diff env r)" if "game_runs r" for env and r :: "'a room"
    using that by (auto simp: receive_diff_def game_runs_def threads_def replica_side_def Let_def
        split: list.splits option.splits thread.splits prod.splits)
  have call: "game_runs (call_primary k c r)" if "game_runs r" for k c and r :: "'a room"
    using that by (simp add: game_runs_def threads_def call_primary_def)
  have recv: "game_runs (receive p r)" if "game_runs r" for p and r :: "'a room"
    using that by (simp add: game_runs_def receive_threads)
  have step: "game_runs (room_step x r)" if "room_inv r" "game_runs r" for x and r :: "'a room"
  proof (cases "snd x")
    case (Request i op)
    then show ?thesis using that(2) by (cases op) (simp_all add: room_step_def call)
  qed (use that in \<open>simp_all add: room_step_def call diff recv game_runs_deliver game_runs_exit\<close>)
  show ?thesis using assms
    unfolding room_run_def by (induction xs arbitrary: r) (simp_all add: step room_step_inv)
qed

text \<open>closing a room leaves a thread behind. \<open>terminate\<close> ends the thread of the game, but the listener of its end is still in
  place and promotes the follower, which \<open>terminate\<close> then no longer finds: as long as there was no failover, the thread
  of the follower goes on as it was. Only a room that has failed over before is closed with all its threads.\<close>

theorem room_close_leaks:
  "let r = room_run xs (new_room w file)
   in rm_follower (room_terminate r) = None
      \<and> ho_thread (rm_primary (room_terminate r)) = (if rm_failovers r = 0 then ho_thread (the (rm_follower r)) else Gone)"
proof -
  define r where "r = room_run xs (new_room w file)"
  define r1 where "r1 = drain Primary r"
  have i: "room_inv r" unfolding r_def by (rule room_run_inv [OF new_room_inv])
  have "game_runs (new_room w file)" by (simp add: game_runs_def threads_def new_room_def new_host_def)
  then have g: "game_runs r" unfolding r_def by (rule game_runs_run [OF new_room_inv])
  have d: "room_inv r1" "threads r1 = threads r" unfolding r1_def by (rule drain_keeps [OF i])+
  have "threads (thread_exit Primary r1) = (case snd (threads r) of None \<Rightarrow> (Gone, None) | Some th \<Rightarrow> (th, None))"
  proof (cases "ho_thread (rm_primary r1) = Gone")
    case True
    then have "snd (threads r1) = None" "thread_exit Primary r1 = r1" using g d(2) by (auto simp: game_runs_def threads_def thread_exit_def)
    then show ?thesis using True d(2) by (simp add: threads_def)
  qed (use primary_exit_threads [OF d(1)] d(2) in simp)
  moreover have "rm_failovers r = 0 \<longleftrightarrow> rm_follower r \<noteq> None" using i by (auto simp: room_inv_def split: option.splits)
  ultimately show ?thesis
    by (auto simp: r_def [symmetric] room_terminate_def r1_def [symmetric] threads_def split: option.splits)
qed

end
