(* ===== verification/Flags.thy ===== *)
theory Flags
  imports RoomWorker
begin

text \<open>
  \<open>backend/src/feature-flags/feature-flags.service.ts\<close>: switches kept in Redis, for the whole site, for a table or for a
  tournament. The service keeps the set of their keys beside them, and lists them by scanning that set page by page.
  The worker of a table reads the same keys (\<open>RoomWorker\<close>). Redis is a parameter with the contract
  \<open>flag_redis\<close>. Shown: the service refines a finite map of switches, listing ends and is exact, and a
  table whose dealing is switched off deals no hand.
\<close>

section \<open>The service\<close>

record 's flag_client =
  fc_rd :: "'s redis_client"
  fc_now :: nat
  fc_sadd :: "string \<Rightarrow> string \<Rightarrow> 's \<Rightarrow> 's"
  fc_srem :: "string \<Rightarrow> string \<Rightarrow> 's \<Rightarrow> 's"
  fc_sscan :: "string \<Rightarrow> string \<Rightarrow> 's \<Rightarrow> string \<times> string list"
  fc_scan :: "string \<Rightarrow> string \<Rightarrow> 's \<Rightarrow> string \<times> string list"

definition flag_prefix :: string where "flag_prefix = ''feature-flag:''"
definition keySet :: string where "keySet = ''feature-flag:keys''"

text \<open>The loop over the pages of a scan; \<open>None\<close> if the cursor never comes back to \<open>0\<close>.\<close>

partial_function (option) scan_loop :: "(string \<Rightarrow> string \<times> string list) \<Rightarrow> string \<Rightarrow> string list \<Rightarrow> string list option" where
  "scan_loop page cursor keys =
     (let (nxt, batch) = page cursor; keys' = js_unique (keys @ batch)
      in if nxt = ''0'' then Some keys' else scan_loop page nxt keys')"

definition flag_value :: "rtext option \<Rightarrow> bool" where
  "flag_value v \<longleftrightarrow> v = Some (Raw ''1'') \<or> v = Some (Raw ''true'')"

definition getAll :: "'s flag_client \<Rightarrow> 's \<Rightarrow> (string \<times> bool) list option" where
  "getAll fc s =
     Option.bind (scan_loop (\<lambda>c. fc_sscan fc keySet c s) ''0'' []) (\<lambda>keys.
     Option.bind (if keys = [] then scan_loop (\<lambda>c. fc_scan fc flag_prefix c s) ''0'' [] else Some keys) (\<lambda>fullKeys.
       Some (fold (\<lambda>k. AList.update (drop (length flag_prefix) k) (flag_value (r_get (fc_rd fc) k s))) fullKeys [])))"

definition get_flag :: "'s flag_client \<Rightarrow> string \<Rightarrow> 's \<Rightarrow> bool option" where
  "get_flag fc key s = (case r_get (fc_rd fc) (flag_prefix @ key) s of None \<Rightarrow> None | Some v \<Rightarrow> Some (flag_value (Some v)))"

definition set_flag :: "'s flag_client \<Rightarrow> string \<Rightarrow> bool \<Rightarrow> 's \<Rightarrow> 's" where
  "set_flag fc key value s =
     (let fullKey = flag_prefix @ key
      in fc_sadd fc keySet fullKey (snd (r_set (fc_rd fc) (fc_now fc) fullKey (Raw (if value then ''1'' else ''0'')) None False s)))"

definition delete_flag :: "'s flag_client \<Rightarrow> string \<Rightarrow> 's \<Rightarrow> 's" where
  "delete_flag fc key s = (let fullKey = flag_prefix @ key in fc_srem fc keySet fullKey (r_del (fc_rd fc) fullKey s))"

definition roomKey :: "string \<Rightarrow> string \<Rightarrow> string" where "roomKey tableId flag = ''room:'' @ tableId @ '':'' @ flag"
definition tourneyKey :: "string \<Rightarrow> string \<Rightarrow> string" where "tourneyKey tourneyId flag = ''tourney:'' @ tourneyId @ '':'' @ flag"

definition getRoom :: "'s flag_client \<Rightarrow> string \<Rightarrow> string \<Rightarrow> 's \<Rightarrow> bool option" where
  "getRoom fc tableId flag s = get_flag fc (roomKey tableId flag) s"

definition setRoom :: "'s flag_client \<Rightarrow> string \<Rightarrow> string \<Rightarrow> bool \<Rightarrow> 's \<Rightarrow> 's" where
  "setRoom fc tableId flag value s = set_flag fc (roomKey tableId flag) value s"

definition deleteRoom :: "'s flag_client \<Rightarrow> string \<Rightarrow> string \<Rightarrow> 's \<Rightarrow> 's" where
  "deleteRoom fc tableId flag s = delete_flag fc (roomKey tableId flag) s"

definition getTourney :: "'s flag_client \<Rightarrow> string \<Rightarrow> string \<Rightarrow> 's \<Rightarrow> bool option" where
  "getTourney fc tourneyId flag s = get_flag fc (tourneyKey tourneyId flag) s"

definition setTourney :: "'s flag_client \<Rightarrow> string \<Rightarrow> string \<Rightarrow> bool \<Rightarrow> 's \<Rightarrow> 's" where
  "setTourney fc tourneyId flag value s = set_flag fc (tourneyKey tourneyId flag) value s"

definition deleteTourney :: "'s flag_client \<Rightarrow> string \<Rightarrow> string \<Rightarrow> 's \<Rightarrow> 's" where
  "deleteTourney fc tourneyId flag s = delete_flag fc (tourneyKey tourneyId flag) s"

definition canDeal :: "'s flag_client \<Rightarrow> string \<Rightarrow> 's \<Rightarrow> bool" where
  "canDeal fc tableId s \<longleftrightarrow> get_flag fc ''dealing'' s \<noteq> Some False \<and> getRoom fc tableId ''dealing'' s \<noteq> Some False"

datatype flag_op =
    SetFlag string bool
  | DeleteFlag string
  | SetRoom string string bool
  | DeleteRoom string string
  | SetTourney string string bool
  | DeleteTourney string string

fun flag_step :: "'s flag_client \<Rightarrow> flag_op \<Rightarrow> 's \<Rightarrow> 's" where
  "flag_step fc (SetFlag k v) = set_flag fc k v"
| "flag_step fc (DeleteFlag k) = delete_flag fc k"
| "flag_step fc (SetRoom t f v) = setRoom fc t f v"
| "flag_step fc (DeleteRoom t f) = deleteRoom fc t f"
| "flag_step fc (SetTourney t f v) = setTourney fc t f v"
| "flag_step fc (DeleteTourney t f) = deleteTourney fc t f"

section \<open>The contract of Redis\<close>

text \<open>The pages of a scan, \<open>n\<close> of them at most.\<close>

fun scanned :: "nat \<Rightarrow> (string \<Rightarrow> string \<times> string list) \<Rightarrow> string \<Rightarrow> string list option" where
  "scanned 0 page cursor = None"
| "scanned (Suc n) page cursor =
     (let (nxt, batch) = page cursor in if nxt = ''0'' then Some batch else map_option ((@) batch) (scanned n page nxt))"

text \<open>What Redis promises of a scan while nothing is written: it ends, and it returns the members, possibly several times.\<close>

definition full_scan :: "(string \<Rightarrow> string \<times> string list) \<Rightarrow> string set \<Rightarrow> bool" where
  "full_scan page S \<longleftrightarrow> (\<exists>n ks. scanned n page ''0'' = Some ks \<and> set ks = S)"

locale flag_redis = redis "fc_rd fc" for fc :: "'s flag_client" +
  fixes members :: "string \<Rightarrow> 's \<Rightarrow> string set"
  assumes get_sadd: "r_get (fc_rd fc) k (fc_sadd fc k' m s) = r_get (fc_rd fc) k s"
    and get_srem: "r_get (fc_rd fc) k (fc_srem fc k' m s) = r_get (fc_rd fc) k s"
    and members_sadd: "members k (fc_sadd fc k' m s) = (if k = k' then insert m (members k s) else members k s)"
    and members_srem: "members k (fc_srem fc k' m s) = (if k = k' then members k s - {m} else members k s)"
    and members_set: "k \<noteq> k' \<or> members k s = {} \<Longrightarrow> members k (snd (r_set (fc_rd fc) now k' v ex nx s)) = members k s"
    and members_del: "k \<noteq> k' \<or> members k s = {} \<Longrightarrow> members k (r_del (fc_rd fc) k' s) = members k s"
    and sscan: "full_scan (\<lambda>c. fc_sscan fc k c s) (members k s)"
    and scan: "full_scan (\<lambda>c. fc_scan fc p c s)
       {k. take (length p) k = p \<and> (r_get (fc_rd fc) k s \<noteq> None \<or> members k s \<noteq> {})}"

section \<open>Switches as a map\<close>

fun op_key :: "flag_op \<Rightarrow> string" where
  "op_key (SetFlag k v) = k"
| "op_key (DeleteFlag k) = k"
| "op_key (SetRoom t f v) = roomKey t f"
| "op_key (DeleteRoom t f) = roomKey t f"
| "op_key (SetTourney t f v) = tourneyKey t f"
| "op_key (DeleteTourney t f) = tourneyKey t f"

fun op_value :: "flag_op \<Rightarrow> bool option" where
  "op_value (SetFlag k v) = Some v"
| "op_value (SetRoom t f v) = Some v"
| "op_value (SetTourney t f v) = Some v"
| "op_value _ = None"

definition switches :: "flag_op list \<Rightarrow> (string \<Rightarrow> bool option) \<Rightarrow> string \<Rightarrow> bool option" where
  "switches ops = fold (\<lambda>x m. m(op_key x := op_value x)) ops"

definition holds :: "'s flag_client \<Rightarrow> (string \<Rightarrow> 's \<Rightarrow> string set) \<Rightarrow> (string \<Rightarrow> bool option) \<Rightarrow> 's \<Rightarrow> bool" where
  "holds fc mem m s \<longleftrightarrow> (\<forall>k. r_get (fc_rd fc) (flag_prefix @ k) s = map_option (\<lambda>v. Raw (if v then ''1'' else ''0'')) (m k))
     \<and> (\<forall>k. mem (flag_prefix @ k) s = (if k = ''keys'' then (\<lambda>k. flag_prefix @ k) ` dom m else {}))"

lemma holds_keySet: "holds fc mem m s \<Longrightarrow> mem keySet s = (\<lambda>k. flag_prefix @ k) ` dom m"
  by (auto simp: holds_def flag_prefix_def keySet_def dest: spec [of _ "''keys''"])

lemma flag_value_Raw: "flag_value (Some (Raw (if v then ''1'' else ''0''))) = v"
  by (simp add: flag_value_def)

lemma keySet_prefix: "flag_prefix @ k = keySet \<longleftrightarrow> k = ''keys''" "keySet = flag_prefix @ k \<longleftrightarrow> k = ''keys''"
  by (auto simp: flag_prefix_def keySet_def)

lemma flag_step_key:
  "flag_step fc x s = (case op_value x of Some v \<Rightarrow> set_flag fc (op_key x) v s | None \<Rightarrow> delete_flag fc (op_key x) s)"
  by (cases x) (simp_all add: setRoom_def deleteRoom_def setTourney_def deleteTourney_def)

lemma scan_loop_scanned:
  "scanned n page cursor = Some ks \<Longrightarrow> \<exists>r. scan_loop page cursor acc = Some r \<and> set r = set acc \<union> set ks"
proof (induction n arbitrary: cursor ks acc)
  case (Suc n)
  obtain nxt batch where p: "page cursor = (nxt, batch)" by (cases "page cursor")
  note l = scan_loop.simps [of page cursor acc]
  show ?case
  proof (cases "nxt = ''0''")
    case True
    then show ?thesis using Suc.prems by (simp add: l p js_unique_def Un_commute)
  next
    case False
    then obtain ks' where ks: "scanned n page nxt = Some ks'" "ks = batch @ ks'" using Suc.prems p by auto
    from Suc.IH [OF ks(1), of "js_unique (acc @ batch)"] show ?thesis
      using False ks(2) by (auto simp: l p js_unique_def)
  qed
qed simp

lemma scan_loop_full: "full_scan page S \<Longrightarrow> \<exists>r. scan_loop page ''0'' [] = Some r \<and> set r = S"
  unfolding full_scan_def using scan_loop_scanned [where acc = "[]"] by fastforce

lemma map_of_updates:
  assumes "\<forall>k\<in>set ks. take (length p) k = p"
  shows "map_of (fold (\<lambda>k. AList.update (drop (length p) k) (g k)) ks al) j
     = (if p @ j \<in> set ks then Some (g (p @ j)) else map_of al j)"
  using assms
proof (induction ks arbitrary: al)
  case (Cons k ks)
  have k: "k = p @ drop (length p) k" using Cons.prems by (metis append_take_drop_id list.set_intros(1))
  then have "drop (length p) k = j \<longleftrightarrow> k = p @ j" by auto
  with Cons.IH Cons.prems show ?case by (auto simp: update_conv')
qed simp

lemma switches_Cons: "switches (x # ops) m = switches ops (m(op_key x := op_value x))"
  by (simp add: switches_def)

context flag_redis
begin

lemma holds_step:
  assumes "holds fc members m s" "op_key x \<noteq> ''keys''"
  shows "holds fc members (m(op_key x := op_value x)) (flag_step fc x s)"
proof (cases "op_value x")
  case None
  have "(\<lambda>k. flag_prefix @ k) ` dom m - {flag_prefix @ op_key x} = (\<lambda>k. flag_prefix @ k) ` (dom m - {op_key x})" by auto
  with assms show ?thesis
    by (simp add: holds_def flag_step_key None delete_flag_def Let_def get_srem get_del members_srem members_del keySet_prefix)
next
  case (Some v)
  with assms show ?thesis
    by (simp add: holds_def flag_step_key set_flag_def Let_def get_sadd get_set members_sadd members_set keySet_prefix)
qed

lemma holds_run:
  assumes "holds fc members m s" "''keys'' \<notin> op_key ` set ops"
  shows "holds fc members (switches ops m) (fold (flag_step fc) ops s)"
  using assms
proof (induction ops arbitrary: m s)
  case (Cons x ops)
  have x: "op_key x \<noteq> ''keys''" "''keys'' \<notin> op_key ` set ops" using Cons.prems(2) by auto
  show ?case using Cons.IH [OF holds_step [OF Cons.prems(1) x(1)] x(2)] by (simp only: switches_Cons fold_simps)
qed (simp add: switches_def)

lemma listed:
  assumes "holds fc members m s"
  shows "\<exists>l. getAll fc s = Some l \<and> map_of l = m"
proof -
  let ?K = "(\<lambda>k. flag_prefix @ k) ` dom m"
  obtain ks where ks: "scan_loop (\<lambda>c. fc_sscan fc keySet c s) ''0'' [] = Some ks" "set ks = ?K"
    using scan_loop_full [OF sscan [of keySet s]] holds_keySet [OF assms] by auto
  obtain all where all: "scan_loop (\<lambda>c. fc_scan fc flag_prefix c s) ''0'' [] = Some all"
    "set all = {k. take (length flag_prefix) k = flag_prefix \<and> (r_get (fc_rd fc) k s \<noteq> None \<or> members k s \<noteq> {})}"
    using scan_loop_full [OF scan [of flag_prefix s]] by blast
  have none: "k \<notin> set all" if "dom m = {}" for k
  proof
    assume k: "k \<in> set all"
    then have "k = flag_prefix @ drop (length flag_prefix) k" using all(2) by (metis (mono_tags, lifting) append_take_drop_id mem_Collect_eq)
    then obtain j where "k = flag_prefix @ j" by blast
    then show False using k all(2) assms that by (auto simp: holds_def split: if_splits)
  qed
  let ?f = "if ks = [] then all else ks"
  have f: "set ?f = ?K" using ks(2) none by auto
  have "map_of (fold (\<lambda>k. AList.update (drop (length flag_prefix) k) (flag_value (r_get (fc_rd fc) k s))) ?f []) j = m j" for j
  proof -
    have "\<forall>k\<in>set ?f. take (length flag_prefix) k = flag_prefix" unfolding f by auto
    from map_of_updates [OF this, of "\<lambda>k. flag_value (r_get (fc_rd fc) k s)" "[]" j] show ?thesis
      unfolding f using assms by (cases "m j") (auto simp: holds_def flag_value_Raw)
  qed
  then show ?thesis using ks(1) all(1) by (auto simp: getAll_def)
qed

lemma got: "holds fc members m s \<Longrightarrow> get_flag fc k s = m k"
  by (cases "m k") (simp_all add: get_flag_def holds_def flag_value_Raw)

end

section \<open>An instance\<close>

text \<open>The repository's in-memory client with its sets beside it; a scan has one page.\<close>

type_synonym set_store = "mock_redis \<times> (string \<times> string list) list"

definition with_sets :: "'s redis_client \<Rightarrow> ('s \<times> 't) redis_client" where
  "with_sets rd = \<lparr>r_get = (\<lambda>k s. r_get rd k (fst s)),
     r_set = (\<lambda>now k v ex nx s. map_prod id (\<lambda>x. (x, snd s)) (r_set rd now k v ex nx (fst s))),
     r_del = (\<lambda>k s. (r_del rd k (fst s), snd s)),
     r_incrby = (\<lambda>k n s. map_prod id (\<lambda>x. (x, snd s)) (r_incrby rd k n (fst s))),
     r_expire = (\<lambda>now k ttl s. map_prod id (\<lambda>x. (x, snd s)) (r_expire rd now k ttl (fst s))),
     r_zadd = (\<lambda>k sc m s. (r_zadd rd k sc m (fst s), snd s)),
     r_zremrangebyscore = (\<lambda>k lo hi s. (r_zremrangebyscore rd k lo hi (fst s), snd s)),
     r_zmembers = (\<lambda>k s. r_zmembers rd k (fst s))\<rparr>"

lemma with_sets_redis:
  assumes "redis rd"
  shows "redis (with_sets rd)"
proof -
  note laws = redis.get_set [OF assms] redis.set_stored [OF assms] redis.get_del [OF assms] redis.incrby_result [OF assms]
    redis.incrby_get [OF assms] redis.get_expire [OF assms] redis.expire_ok [OF assms] redis.get_zset [OF assms]
    redis.zadd_members [OF assms] redis.zadd_mset [OF assms] redis.zremrange_members [OF assms]
  show ?thesis by unfold_locales (auto simp: with_sets_def laws)
qed

definition set_members :: "string \<Rightarrow> set_store \<Rightarrow> string list" where
  "set_members k s = (case map_of (snd s) k of None \<Rightarrow> [] | Some ms \<Rightarrow> ms)"

definition demo_flags :: "set_store flag_client" where
  "demo_flags = \<lparr>fc_rd = with_sets mock_client, fc_now = 0,
     fc_sadd = (\<lambda>k m s. (fst s, AList.update k (js_unique (set_members k s @ [m])) (snd s))),
     fc_srem = (\<lambda>k m s. (fst s, AList.update k (filter (\<lambda>x. x \<noteq> m) (set_members k s)) (snd s))),
     fc_sscan = (\<lambda>k c s. (''0'', set_members k s)),
     fc_scan = (\<lambda>p c s. (''0'', filter (\<lambda>k. take (length p) k = p \<and> (mock_get k (fst s) \<noteq> None \<or> set_members k s \<noteq> []))
                          (map fst (mr_store (fst s)) @ map fst (snd s))))\<rparr>"

lemma full_scan_page: "full_scan (\<lambda>c. (''0'', ks)) (set ks)"
  unfolding full_scan_def by (rule exI [of _ 1]) simp

lemma demo_flags_redis: "redis (fc_rd demo_flags)"
  by (simp add: demo_flags_def with_sets_redis mock.redis_axioms)

lemma demo_scan:
  "full_scan (\<lambda>c. fc_scan demo_flags p c s)
     {k. take (length p) k = p \<and> (r_get (fc_rd demo_flags) k s \<noteq> None \<or> set (set_members k s) \<noteq> {})}"
proof -
  define ks where "ks = filter (\<lambda>k. take (length p) k = p \<and> (mock_get k (fst s) \<noteq> None \<or> set_members k s \<noteq> []))
      (map fst (mr_store (fst s)) @ map fst (snd s))"
  have page: "fc_scan demo_flags p c s = (''0'', ks)" for c by (simp add: demo_flags_def ks_def)
  have "{k. take (length p) k = p \<and> (r_get (fc_rd demo_flags) k s \<noteq> None \<or> set (set_members k s) \<noteq> {})} = set ks"
    by (auto simp: demo_flags_def ks_def with_sets_def mock_client_def mock_get_def set_members_def
        split: option.splits dest: map_of_SomeD intro: rev_image_eqI)
  then show ?thesis using full_scan_page [of ks] unfolding page by simp
qed

interpretation demo_flag_store: flag_redis demo_flags "\<lambda>k s. set (set_members k s)"
proof (intro flag_redis.intro demo_flags_redis flag_redis_axioms.intro demo_scan)
qed (auto simp: demo_flags_def with_sets_def set_members_def update_conv' js_unique_def full_scan_page
    full_scan_page [of "[]", simplified] split: option.splits)

section \<open>The properties\<close>


lemma demo_no_switches: "holds demo_flags (\<lambda>k s. set (set_members k s)) Map.empty (empty_mock, [])"
  by (simp add: holds_def demo_flags_def with_sets_def mock_client_def mock_get_def empty_mock_def set_members_def)


lemma canDeal_worker:
  assumes "client (we_wallet env) = fc_rd fc" "we_redis env"
  shows "isDealingEnabled env t = canDeal fc (we_tableId env) (store (bank t))"
  using assms by (auto simp: isDealingEnabled_def room_flag_def canDeal_def get_flag_def getRoom_def roomKey_def flag_prefix_def
      flag_enabled_def flag_value_def Let_def split: option.splits)

lemma blinds_step:
  assumes "applyAction env a t = (Inr r, t')" "tphase t \<in> {WAIT_BLINDS, NEXT_HAND}"
  shows "tphase t' \<in> {tphase t, DEAL}" "bank t' = bank t"
proof -
  let ?shuf = "rng_shuffle (ee_sha_array env) (e_rng (eng t)) :: shuffler"
  have b: "phase (mstate m) \<in> {tphase t, DEAL}" if "apply_blinds ?shuf a (e_machine (eng t)) = Inr m" for m
    using that by (auto simp: apply_blinds_def start_deal_def placeBet_def rbind_eq_Inr_iff Let_def
        split: game_action.splits if_splits prod.splits)
  obtain e s where e: "engine_step ?shuf a (eng t) = Inr (e, s)" "t' = (if s then snd (settle_rest env (t\<lparr>eng := e\<rparr>)) else t\<lparr>eng := e\<rparr>)"
    using assms(1) by (auto simp: applyAction_def Let_def split: sum.splits)
  obtain m where m: "machine_apply ?shuf a (e_machine (eng t)) = Inr m"
    using e(1) by (auto simp: engine_step_def step_machine_def rbind_eq_Inr_iff)
  have p: "phase (mstate m) \<in> {tphase t, DEAL}" using m b [of m] assms(2) by (auto simp: machine_apply_def)
  then have "force_showdown m = m" "phase (mstate m) \<noteq> SHOWDOWN" using assms(2) by (auto simp: force_showdown_def)
  then have "\<not> s" "e_machine e = m" using e(1) m by (auto simp: engine_step_def step_machine_def Let_def)
  then show "tphase t' \<in> {tphase t, DEAL}" "bank t' = bank t" using e(2) p by simp_all
qed

text \<open>C29: a switch of the service stops the dealing of a table. When \<open>setRoom\<close> has switched \<open>dealing\<close> off in the store the
  worker of the table reads, \<open>canDeal\<close> is false, and no action the worker accepts between hands starts a
  hand: the table stays between hands, and if the last blind has been posted the cards are taken back.\<close>

theorem dealing_switch:
  assumes "flag_redis fc mem" "client (we_wallet env) = fc_rd fc" "we_redis env"
    "store (bank t) = setRoom fc (we_tableId env) ''dealing'' False s"
    "worker_play env a t = Inr (t', halted)" "tphase t \<in> {WAIT_BLINDS, NEXT_HAND}"
  shows "\<not> canDeal fc (we_tableId env) (store (bank t)) \<and> tphase t' \<in> {WAIT_BLINDS, NEXT_HAND}
     \<and> (halted \<longrightarrow> deck (estate (eng t')) = [] \<and> (\<forall>p\<in>set (players (estate (eng t'))). holeCards p = None))"
proof -
  have off: "\<not> canDeal fc (we_tableId env) (store (bank t))"
    using assms(4) flag_redis.get_sadd [OF assms(1)] redis.get_set [OF flag_redis.axioms(1) [OF assms(1)]]
    by (simp add: canDeal_def getRoom_def get_flag_def setRoom_def set_flag_def Let_def flag_value_def)
  obtain r t1 where t1: "applyAction (worker_engine_env env) a t = (Inr r, t1)"
    "(if tphase t = WAIT_BLINDS \<and> tphase t1 = DEAL \<and> \<not> isDealingEnabled env t1 then Inr (resetToWaitBlinds t1, True)
      else auto_deal env t1) = Inr (t', halted)"
    using assms(5) by (auto simp: worker_play_def split: sum.splits prod.splits)
  note b = blinds_step [OF t1(1) assms(6)]
  have en: "\<not> isDealingEnabled env t1" using off canDeal_worker [OF assms(2,3)] b(2) by simp
  show ?thesis
  proof (cases "tphase t1 = DEAL")
    case True
    then have "t' = resetToWaitBlinds t1" using t1(2) en by (auto simp: auto_deal.simps [of env t1] split: if_splits)
    then show ?thesis using off by (simp add: resetToWaitBlinds_def Let_def)
  next
    case False
    then have "t' = t1" "\<not> halted" using t1(2) by (auto simp: auto_deal_stop)
    then show ?thesis using off b(1) assms(6) False by auto
  qed
qed

definition demo_switch_env :: "set_store worker_env" where
  "demo_switch_env = \<lparr>we_wallet = \<lparr>client = with_sets mock_client, sha256 = (\<lambda>s. s), uuid = (\<lambda>n. ''u'' @ nat_digits n), now_ms = 1000,
       systemAccounts = [], queueConnected = True, kycIsVerified = (\<lambda>_ _. True), kycValidate = (\<lambda>_. True),
       kycDenialReason = (\<lambda>_. None), geoIsAllowed = (\<lambda>_. True), initiate3DS = (\<lambda>_ _. None), dailyLimit = (\<lambda>_. None),
       hourlyCountLimit = (\<lambda>_. None), hourlyAmountLimit = (\<lambda>_. None), dailyCountLimit = (\<lambda>_. None),
       bankConfig = None, cbWindowMs = 1000, cbAccountLimit = 3, cbDeviceLimit = 3\<rparr>,
     we_sha_array = (\<lambda>_. replicate 32 0), we_tableId = ''t'', we_redis = True, we_fresh = (\<lambda>_. demo_rng)\<rparr>"

definition demo_switched_off :: "set_store table_world" where
  "demo_switched_off = \<lparr>eng = new_engine ''h'' demo_rng [''p1'', ''p2''] 100 None ''1-2'' ''USD'',
     bank = \<lparr>accounts = [], journals = [], settlements = [], disbursements = [], pendingDeposits = [], depositIbans = [],
       ibanHistory = [], acknowledgedMismatches = [], outbox = [], payoutJobs = [], depositJobs = [], retryJobs = [],
       store = setRoom demo_flags ''t'' ''dealing'' False (empty_mock, []), uuids = 0\<rparr>, hands = [], published = []\<rparr>"

lemma demo_switched_blind:
  "\<exists>t. worker_play demo_switch_env (PostBlind ''p1'' 1) demo_switched_off = Inr (t, False)"
  by (simp add: worker_play_def demo_switched_off_def applyAction_def engine_step_def step_machine_def force_showdown_def
      new_machine_def new_player_def machine_apply_def apply_blinds_def findPlayer_def or_fail_def placeBet_def
      upt_rec activePlayers_def Let_def auto_deal_stop)

theorem dealing_switch_witness:
  "\<exists>t h. worker_play demo_switch_env (PostBlind ''p1'' 1) demo_switched_off = Inr (t, h) \<and> tphase t \<in> {WAIT_BLINDS, NEXT_HAND}"
proof -
  obtain t h where t: "worker_play demo_switch_env (PostBlind ''p1'' 1) demo_switched_off = Inr (t, h)"
    using demo_switched_blind by blast
  have e: "client (we_wallet demo_switch_env) = fc_rd demo_flags" "we_redis demo_switch_env"
    "store (bank demo_switched_off) = setRoom demo_flags (we_tableId demo_switch_env) ''dealing'' False (empty_mock, [])"
    "tphase demo_switched_off \<in> {WAIT_BLINDS, NEXT_HAND}"
    by (simp_all add: demo_switch_env_def demo_flags_def demo_switched_off_def new_machine_def)
  show ?thesis using dealing_switch [OF demo_flag_store.flag_redis_axioms e(1-3) t e(4)] t by blast
qed

end
