(* ===== verification/CashTables.thy ===== *)
theory CashTables
  imports Rooms
begin

text \<open>
  \<open>backend/src/game/tables.service.ts\<close> and \<open>chat.service.ts\<close>: the rows of the cash tables, the views of a table, which ask
  the room of the table for its state, and the chat. The answer of the room to a view is an argument
  (\<open>Rooms\<close> says which answers there are); the suits of the cards, which are no ASCII, are a datatype. Shown: the chat
  returns the last messages in order, the names of the cards are distinct, and rooms are never closed.
\<close>

section \<open>Data\<close>

record cash_table =
  tb_id :: string
  tb_name :: string
  tb_gameType :: string
  tb_smallBlind :: int
  tb_bigBlind :: int
  tb_startingStack :: int
  tb_playersCurrent :: int
  tb_playersMax :: int
  tb_minBuyIn :: int
  tb_maxBuyIn :: int
  tb_handsPerHour :: int
  tb_avgPot :: int
  tb_rake :: int
  tb_tabs :: "string list option"
  tb_createdAt :: int
  tb_players :: "string list"

record table_dto =
  td_id :: string
  td_tableName :: string
  td_gameType :: string
  td_stakes :: "int \<times> int"
  td_startingStack :: int
  td_players :: "int \<times> int"
  td_buyIn :: "int \<times> int"
  td_stats :: "int \<times> int \<times> int"
  td_createdAgo :: string

record create_request =
  cr_tableName :: string
  cr_gameType :: string
  cr_stakes :: "int \<times> int"
  cr_startingStack :: int
  cr_playersMax :: int
  cr_buyIn :: "int \<times> int"

text \<open>Every field of an update may be missing, those of a group one by one.\<close>

record update_request =
  ur_tableName :: "string option"
  ur_gameType :: "string option"
  ur_small :: "int option"
  ur_big :: "int option"
  ur_startingStack :: "int option"
  ur_playersMax :: "int option"
  ur_minBuyIn :: "int option"
  ur_maxBuyIn :: "int option"

record table_user =
  tu_id :: string
  tu_username :: string
  tu_avatarKey :: "string option"

record chat_row =
  ch_rowId :: nat
  ch_table :: string
  ch_user :: table_user
  ch_message :: string
  ch_createdAt :: int

record chat_dto =
  cd_id :: nat
  cd_username :: string
  cd_avatar :: string
  cd_text :: string
  cd_time :: int

datatype suit_sign = Clubs | Diamonds | Hearts | Spades

type_synonym card_text = "char \<times> suit_sign"

record seat_view =
  sv_id :: nat
  sv_username :: string
  sv_avatar :: string
  sv_chips :: int
  sv_committed :: int
  sv_isFolded :: bool
  sv_isAllIn :: bool

record table_data =
  tv_smallBlind :: int
  tv_bigBlind :: int
  tv_pot :: int
  tv_communityCards :: "card_text list"
  tv_players :: "seat_view list"
  tv_chatMessages :: "chat_dto list"
  tv_stateAvailable :: bool

record table_seat =
  tse_id :: nat
  tse_name :: string
  tse_avatar :: string
  tse_balance :: int
  tse_inHand :: bool

record table_state_view =
  tsv_handId :: string
  tsv_seats :: "table_seat list"
  tsv_pot :: int
  tsv_sidePots :: "int list"
  tsv_street :: string

datatype table_error = TableNotFound

record 's tables_world =
  tw_tables :: "cash_table list"
  tw_users :: "table_user list"
  tw_messages :: "chat_row list"
  tw_sent :: "(string \<times> chat_dto) list"
  tw_rooms :: "'s manager"

section \<open>Chat\<close>

definition chat_of_row :: "chat_row \<Rightarrow> chat_dto" where
  "chat_of_row m = \<lparr>cd_id = ch_rowId m, cd_username = tu_username (ch_user m),
     cd_avatar = (case tu_avatarKey (ch_user m) of None \<Rightarrow> '''' | Some a \<Rightarrow> a), cd_text = ch_message m, cd_time = ch_createdAt m\<rparr>"

text \<open>The message is stored and read again with its user; \<open>newId\<close> and \<open>now\<close> are given by the database.\<close>

definition appendMessage :: "nat \<Rightarrow> int \<Rightarrow> string \<Rightarrow> table_user \<Rightarrow> string \<Rightarrow> 's tables_world \<Rightarrow> 's tables_world" where
  "appendMessage newId now tableId user msg w =
     (let row = \<lparr>ch_rowId = newId, ch_table = tableId, ch_user = user, ch_message = msg, ch_createdAt = now\<rparr>
      in w\<lparr>tw_messages := tw_messages w @ [row], tw_sent := tw_sent w @ [(tableId, chat_of_row row)]\<rparr>)"

definition getRecentMessages :: "nat \<Rightarrow> string \<Rightarrow> 's tables_world \<Rightarrow> chat_dto list" where
  "getRecentMessages limit tableId w =
     rev (map chat_of_row (take limit
       (js_sort (\<lambda>a b. ch_createdAt a \<ge> ch_createdAt b) (filter (\<lambda>m. ch_table m = tableId) (tw_messages w)))))"

section \<open>Tables\<close>

definition formatAgo :: "int \<Rightarrow> string" where
  "formatAgo ms =
     (let minutes = ms div 60000
      in if minutes < 1 then ''just now''
         else if minutes < 60 then int_to_string minutes @ ''m''
         else int_to_string (minutes div 60) @ ''h'')"

definition RANKS :: string where "RANKS = ''23456789TJQKA''"
definition SUITS :: "suit_sign list" where "SUITS = [Clubs, Diamonds, Hearts, Spades]"

definition cardToString :: "nat \<Rightarrow> card_text" where
  "cardToString c = (if c div 4 < length RANKS then RANKS ! (c div 4) else CHR ''?'', SUITS ! (c mod 4))"

definition mapStreet :: "street \<Rightarrow> string" where
  "mapStreet s = (case s of Flop \<Rightarrow> ''flop'' | Turn \<Rightarrow> ''turn'' | River \<Rightarrow> ''river'' | Showdown \<Rightarrow> ''river'' | Preflop \<Rightarrow> ''pre'')"

definition toDto :: "int \<Rightarrow> cash_table \<Rightarrow> table_dto" where
  "toDto now t = \<lparr>td_id = tb_id t, td_tableName = tb_name t, td_gameType = tb_gameType t,
     td_stakes = (tb_smallBlind t, tb_bigBlind t), td_startingStack = tb_startingStack t,
     td_players = (tb_playersCurrent t, tb_playersMax t), td_buyIn = (tb_minBuyIn t, tb_maxBuyIn t),
     td_stats = (tb_handsPerHour t, tb_avgPot t, tb_rake t), td_createdAgo = formatAgo (now - tb_createdAt t)\<rparr>"

definition getTables :: "int \<Rightarrow> string option \<Rightarrow> 's tables_world \<Rightarrow> table_dto list" where
  "getTables now st w =
     map (toDto now) (if st = Some ''active'' then filter (\<lambda>t. tb_playersCurrent t > 0) (tw_tables w) else tw_tables w)"

definition getTablesForUser :: "int \<Rightarrow> string \<Rightarrow> 's tables_world \<Rightarrow> table_dto list" where
  "getTablesForUser now userId w = map (toDto now) (filter (\<lambda>t. userId \<in> set (tb_players t)) (tw_tables w))"

definition find_table :: "string \<Rightarrow> 's tables_world \<Rightarrow> cash_table option" where
  "find_table i w = List.find (\<lambda>t. tb_id t = i) (tw_tables w)"

text \<open>The players of a state the room answers with, full or public.\<close>

fun state_players :: "seen_state \<Rightarrow> public_player list" where
  "state_players (Public st) = ps_players st"
| "state_players (Full st) = ps_players (public_of st (\<lambda>_. None))"

fun state_pot :: "seen_state \<Rightarrow> int" where
  "state_pot (Public st) = ps_pot st"
| "state_pot (Full st) = pot st"

fun state_cards :: "seen_state \<Rightarrow> nat list" where
  "state_cards (Public st) = ps_communityCards st"
| "state_cards (Full st) = communityCards st"

fun state_sidePots :: "seen_state \<Rightarrow> int list" where
  "state_sidePots (Public st) = map sp_amount (ps_sidePots st)"
| "state_sidePots (Full st) = map sp_amount (sidePots st)"

fun state_street :: "seen_state \<Rightarrow> street" where
  "state_street (Public st) = ps_street st"
| "state_street (Full st) = street st"

text \<open>Name and avatar of a player: the user's, if there is one.\<close>

definition shown_user :: "string \<Rightarrow> 's tables_world \<Rightarrow> string \<times> string" where
  "shown_user i w = (case List.find (\<lambda>u. tu_id u = i) (tw_users w) of
     None \<Rightarrow> (i, '''') | Some u \<Rightarrow> (tu_username u, case tu_avatarKey u of None \<Rightarrow> '''' | Some a \<Rightarrow> a))"

text \<open>A room for the table is made if there is none; \<open>wk\<close> and \<open>file\<close> are what a new room starts from.\<close>

definition with_room :: "'s worker \<Rightarrow> (slot list \<times> seen_state option) option \<Rightarrow> string \<Rightarrow> 's tables_world \<Rightarrow> 's tables_world" where
  "with_room wk file i w = w\<lparr>tw_rooms := snd (manager_get wk file i (tw_rooms w))\<rparr>"

definition getTable :: "'s worker \<Rightarrow> (slot list \<times> seen_state option) option \<Rightarrow> string \<Rightarrow> room_answer \<Rightarrow> 's tables_world
    \<Rightarrow> (table_error + table_data) \<times> 's tables_world" where
  "getTable wk file i answer w =
     (case find_table i w of
        None \<Rightarrow> (Inl TableNotFound, w)
      | Some t \<Rightarrow>
          let empty = \<lparr>tv_smallBlind = tb_smallBlind t, tv_bigBlind = tb_bigBlind t, tv_pot = 0, tv_communityCards = [],
                tv_players = [], tv_chatMessages = [], tv_stateAvailable = False\<rparr>
          in (Inr (case answer of
                     Resolved (VState st) \<Rightarrow>
                       empty\<lparr>tv_pot := state_pot st, tv_communityCards := map cardToString (state_cards st),
                         tv_players := map (\<lambda>(idx, p). let (name, avatar) = shown_user (pp_id p) w
                             in \<lparr>sv_id = idx + 1, sv_username = name, sv_avatar = avatar, sv_chips = pp_stack p,
                                 sv_committed = pp_bet p, sv_isFolded = pp_folded p, sv_isAllIn = pp_allIn p\<rparr>)
                           (enumerate 0 (state_players st)),
                         tv_chatMessages := getRecentMessages 20 i w, tv_stateAvailable := True\<rparr>
                   | _ \<Rightarrow> empty),
              with_room wk file i w))"

definition getTableState :: "'s worker \<Rightarrow> (slot list \<times> seen_state option) option \<Rightarrow> string \<Rightarrow> room_answer \<Rightarrow> room_answer
    \<Rightarrow> 's tables_world \<Rightarrow> table_state_view \<times> 's tables_world" where
  "getTableState wk file i answer handId w =
     (case answer of
        Resolved (VState st) \<Rightarrow>
          \<lparr>tsv_handId = (case handId of Resolved (VText h) \<Rightarrow> h | _ \<Rightarrow> ''''),
           tsv_seats = map (\<lambda>(idx, p). let (name, avatar) = shown_user (pp_id p) w
               in \<lparr>tse_id = idx + 1, tse_name = name, tse_avatar = avatar, tse_balance = pp_stack p, tse_inHand = (\<not> pp_folded p)\<rparr>)
             (enumerate 0 (state_players st)),
           tsv_pot = state_pot st, tsv_sidePots = state_sidePots st, tsv_street = mapStreet (state_street st)\<rparr>
      | _ \<Rightarrow> \<lparr>tsv_handId = '''', tsv_seats = [], tsv_pot = 0, tsv_sidePots = [], tsv_street = ''pre''\<rparr>,
      with_room wk file i w)"

definition getSidePanelTabs :: "string \<Rightarrow> 's tables_world \<Rightarrow> table_error + string list" where
  "getSidePanelTabs i w = (case find_table i w of
     None \<Rightarrow> Inl TableNotFound
   | Some t \<Rightarrow> Inr (case tb_tabs t of None \<Rightarrow> [''history'', ''chat'', ''notes''] | Some tabs \<Rightarrow> tabs))"

text \<open>A new row with the defaults of its columns.\<close>

definition createTable :: "string \<Rightarrow> int \<Rightarrow> create_request \<Rightarrow> 's tables_world \<Rightarrow> table_dto \<times> 's tables_world" where
  "createTable newId now data w =
     (let t = \<lparr>tb_id = newId, tb_name = cr_tableName data, tb_gameType = cr_gameType data, tb_smallBlind = fst (cr_stakes data),
            tb_bigBlind = snd (cr_stakes data), tb_startingStack = cr_startingStack data, tb_playersCurrent = 0,
            tb_playersMax = cr_playersMax data, tb_minBuyIn = fst (cr_buyIn data), tb_maxBuyIn = snd (cr_buyIn data),
            tb_handsPerHour = 0, tb_avgPot = 0, tb_rake = 0, tb_tabs = Some [''history'', ''chat'', ''notes''],
            tb_createdAt = now, tb_players = []\<rparr>
      in (toDto now t, w\<lparr>tw_tables := tw_tables w @ [t]\<rparr>))"

definition given :: "'a option \<Rightarrow> 'a \<Rightarrow> 'a" where
  "given new old = (case new of None \<Rightarrow> old | Some x \<Rightarrow> x)"

definition updated_row :: "update_request \<Rightarrow> cash_table \<Rightarrow> cash_table" where
  "updated_row d t = t\<lparr>tb_name := given (ur_tableName d) (tb_name t), tb_gameType := given (ur_gameType d) (tb_gameType t),
     tb_smallBlind := given (ur_small d) (tb_smallBlind t), tb_bigBlind := given (ur_big d) (tb_bigBlind t),
     tb_startingStack := given (ur_startingStack d) (tb_startingStack t), tb_playersMax := given (ur_playersMax d) (tb_playersMax t),
     tb_minBuyIn := given (ur_minBuyIn d) (tb_minBuyIn t), tb_maxBuyIn := given (ur_maxBuyIn d) (tb_maxBuyIn t)\<rparr>"

definition updateTable :: "int \<Rightarrow> string \<Rightarrow> update_request \<Rightarrow> 's tables_world \<Rightarrow> (table_error + table_dto) \<times> 's tables_world" where
  "updateTable now i data w = (case find_table i w of
     None \<Rightarrow> (Inl TableNotFound, w)
   | Some t \<Rightarrow> (Inr (toDto now (updated_row data t)),
        w\<lparr>tw_tables := map (\<lambda>r. if tb_id r = i then updated_row data t else r) (tw_tables w)\<rparr>))"

definition deleteTable :: "string \<Rightarrow> 's tables_world \<Rightarrow> 's tables_world" where
  "deleteTable i w = w\<lparr>tw_tables := filter (\<lambda>t. tb_id t \<noteq> i) (tw_tables w),
     tw_messages := filter (\<lambda>m. ch_table m \<noteq> i) (tw_messages w)\<rparr>"

section \<open>The chat\<close>

lemma js_sort_descending:
  fixes f :: "'a \<Rightarrow> int"
  assumes "sorted_wrt (\<lambda>a b. f a < f b) xs"
  shows "js_sort (\<lambda>a b. f a \<ge> f b) xs = rev xs"
  using assms
proof (induction xs)
  case (Cons x xs)
  have "js_insert (\<lambda>a b. f a \<ge> f b) x ys = ys @ [x]" if "\<forall>y\<in>set ys. f x < f y" for ys
    using that by (induction ys) auto
  with Cons show ?case by simp
qed simp

text \<open>the chat shows the end of the conversation. If the messages of a table were written at increasing times,
  \<open>getRecentMessages\<close> returns the last of them, at most as many as asked for, in the order they were written, and after a new
  message has been appended it is the last one returned.\<close>

theorem chat_recent:
  assumes "sorted_wrt (\<lambda>a b. ch_createdAt a < ch_createdAt b) (filter (\<lambda>m. ch_table m = tableId) (tw_messages w))"
    "\<forall>m\<in>set (tw_messages w). ch_createdAt m < now" "0 < limit"
  shows "getRecentMessages limit tableId w =
       (let ms = filter (\<lambda>m. ch_table m = tableId) (tw_messages w) in map chat_of_row (drop (length ms - limit) ms))
    \<and> last (getRecentMessages limit tableId (appendMessage newId now tableId user msg w))
        = \<lparr>cd_id = newId, cd_username = tu_username user, cd_avatar = (case tu_avatarKey user of None \<Rightarrow> '''' | Some a \<Rightarrow> a),
           cd_text = msg, cd_time = now\<rparr>"
proof -
  have recent: "getRecentMessages limit tableId v =
      (let ms = filter (\<lambda>m. ch_table m = tableId) (tw_messages v) in map chat_of_row (drop (length ms - limit) ms))"
    if "sorted_wrt (\<lambda>a b. ch_createdAt a < ch_createdAt b) (filter (\<lambda>m. ch_table m = tableId) (tw_messages v))" for v :: "'a tables_world"
    unfolding getRecentMessages_def js_sort_descending [OF that] by (simp add: Let_def rev_map take_rev)
  have "sorted_wrt (\<lambda>a b. ch_createdAt a < ch_createdAt b)
      (filter (\<lambda>m. ch_table m = tableId) (tw_messages (appendMessage newId now tableId user msg w)))"
    using assms(1,2) by (auto simp: appendMessage_def Let_def sorted_wrt_append)
  from recent [OF this] recent [OF assms(1)] show ?thesis
    using assms(3) by (simp add: appendMessage_def Let_def chat_of_row_def)
qed

theorem chat_recent_witness:
  "map cd_text (getRecentMessages 2 ''t'' (fold (\<lambda>(i, x). appendMessage i (int i) ''t'' \<lparr>tu_id = ''u'', tu_username = ''U'', tu_avatarKey = None\<rparr> x)
      [(1, ''a''), (2, ''b''), (3, ''c'')] \<lparr>tw_tables = [], tw_users = [], tw_messages = [], tw_sent = [],
        tw_rooms = \<lparr>mg_rooms = [], mg_closed = [] :: mock_redis room list\<rparr>\<rparr>)) = [''b'', ''c'']"
proof -
  let ?u = "\<lparr>tu_id = ''u'', tu_username = ''U'', tu_avatarKey = None\<rparr>"
  let ?w = "fold (\<lambda>(i, x). appendMessage i (int i) ''t'' ?u x) [(1, ''a''), (2, ''b''), (3, ''c'')]
      \<lparr>tw_tables = [], tw_users = [], tw_messages = [], tw_sent = [], tw_rooms = \<lparr>mg_rooms = [], mg_closed = [] :: mock_redis room list\<rparr>\<rparr>"
  have "getRecentMessages 2 ''t'' ?w = (let ms = filter (\<lambda>m. ch_table m = ''t'') (tw_messages ?w) in map chat_of_row (drop (length ms - 2) ms))"
    by (rule chat_recent [where now = 9 and newId = 4 and user = "?u" and msg = "''d''", THEN conjunct1]) (simp_all add: appendMessage_def Let_def)
  then show ?thesis by (simp add: appendMessage_def chat_of_row_def Let_def)
qed

section \<open>Rooms of tables\<close>

datatype 's tables_op =
    TView "'s worker" "(slot list \<times> seen_state option) option" string room_answer
  | TState "'s worker" "(slot list \<times> seen_state option) option" string room_answer room_answer
  | TCreate string int create_request
  | TUpdate int string update_request
  | TDelete string
  | TChat nat int string table_user string

fun tables_step :: "'s tables_op \<Rightarrow> 's tables_world \<Rightarrow> 's tables_world" where
  "tables_step (TView wk file i a) w = snd (getTable wk file i a w)"
| "tables_step (TState wk file i a h) w = snd (getTableState wk file i a h w)"
| "tables_step (TCreate i now d) w = snd (createTable i now d w)"
| "tables_step (TUpdate now i d) w = snd (updateTable now i d w)"
| "tables_step (TDelete i) w = deleteTable i w"
| "tables_step (TChat n now i u msg) w = appendMessage n now i u msg w"

definition keeps_rooms :: "'s tables_world \<Rightarrow> 's tables_world \<Rightarrow> bool" where
  "keeps_rooms w w' \<longleftrightarrow> mg_closed (tw_rooms w') = mg_closed (tw_rooms w)
     \<and> (\<forall>i r. map_of (mg_rooms (tw_rooms w)) i = Some r \<longrightarrow> map_of (mg_rooms (tw_rooms w')) i = Some r)"

lemma with_room_keeps: "keeps_rooms w (with_room wk file i w)" "\<exists>r. map_of (mg_rooms (tw_rooms (with_room wk file i w))) i = Some r"
  by (auto simp: keeps_rooms_def with_room_def manager_get_def Let_def map_add_def split: option.splits)

lemma tables_step_keeps: "keeps_rooms w (tables_step x w)"
  using with_room_keeps(1)
  by (cases x) (auto simp: getTable_def getTableState_def createTable_def updateTable_def deleteTable_def appendMessage_def keeps_rooms_def
      Let_def split: option.splits)

lemma tables_run_keeps: "keeps_rooms w (fold tables_step ops w)"
proof (induction ops arbitrary: w)
  case (Cons x ops)
  then show ?case using tables_step_keeps [of w x] Cons.IH [of "tables_step x w"] by (simp add: keeps_rooms_def)
qed (simp add: keeps_rooms_def)

text \<open>rooms are opened by looking and never closed. In any run of the service the room of a table stays, also after the table has been
  deleted; and every identifier whose state was asked for has a room with its two threads at the end, whether or not there
  is, or ever was, a table of that name.\<close>

theorem rooms_never_closed:
  assumes "TState wk file i a h \<in> set ops"
  shows "mg_closed (tw_rooms (fold tables_step ops w)) = mg_closed (tw_rooms w)
    \<and> (\<forall>j r. map_of (mg_rooms (tw_rooms w)) j = Some r \<longrightarrow> map_of (mg_rooms (tw_rooms (fold tables_step ops w))) j = Some r)
    \<and> (\<exists>r. map_of (mg_rooms (tw_rooms (fold tables_step ops w))) i = Some r)"
proof -
  obtain xs ys where ops: "ops = xs @ TState wk file i a h # ys" using split_list [OF assms] by blast
  let ?v = "fold tables_step xs w"
  obtain r where "map_of (mg_rooms (tw_rooms (tables_step (TState wk file i a h) ?v))) i = Some r"
    using with_room_keeps(2) [of wk "file" i ?v] by (auto simp: getTableState_def)
  then have "map_of (mg_rooms (tw_rooms (fold tables_step ops w))) i = Some r"
    using tables_run_keeps [of "tables_step (TState wk file i a h) ?v" ys] by (simp add: ops keeps_rooms_def)
  then show ?thesis using tables_run_keeps [of w ops] by (auto simp: keeps_rooms_def)
qed

theorem rooms_never_closed_witness:
  "\<exists>r. map_of (mg_rooms (tw_rooms (fold tables_step [TState demo_worker None ''nowhere'' Rejected Rejected, TDelete ''nowhere'']
      \<lparr>tw_tables = [], tw_users = [], tw_messages = [], tw_sent = [], tw_rooms = \<lparr>mg_rooms = [], mg_closed = []\<rparr>\<rparr>))) ''nowhere'' = Some r"
  using rooms_never_closed [of demo_worker None "''nowhere''" Rejected Rejected
      "[TState demo_worker None ''nowhere'' Rejected Rejected, TDelete ''nowhere'']"
      "\<lparr>tw_tables = [], tw_users = [], tw_messages = [], tw_sent = [], tw_rooms = \<lparr>mg_rooms = [], mg_closed = []\<rparr>\<rparr>"]
  by simp

section \<open>Names of cards\<close>

lemma SUITS_inj: "i < 4 \<Longrightarrow> j < 4 \<Longrightarrow> SUITS ! i = SUITS ! j \<Longrightarrow> i = j"
  by (auto simp: SUITS_def less_Suc_eq numeral_eq_Suc)

lemma RANKS_inj: "distinct RANKS" "length RANKS = 13" by (simp_all add: RANKS_def)

text \<open>The names of the cards of a deck are distinct, so a view shows the cards that lie on the table.\<close>

lemma cardToString_inj: "inj_on cardToString {..<52}"
proof (rule inj_onI)
  fix c d
  assume c: "c \<in> {..<52}" "d \<in> {..<52}" and e: "cardToString c = cardToString d"
  have "c div 4 < 13" "d div 4 < 13" using c by auto
  then have "c div 4 = d div 4" using e RANKS_inj by (auto simp: cardToString_def nth_eq_iff_index_eq)
  moreover have "c mod 4 = d mod 4" using e by (intro SUITS_inj) (auto simp: cardToString_def)
  ultimately show "c = d" by (metis div_mult_mod_eq)
qed

end
