(* ===== verification/Leaderboard.thy ===== *)
theory Leaderboard
  imports Prelude Doubles "HOL-Library.AList"
begin

text \<open>
  \<open>backend/src/leaderboard\<close>: the scores of the players (\<open>score-utils.ts\<close>), the board with its table and its two cache entries
  (\<open>leaderboard.service.ts\<close>) and the filters it offers (\<open>leaderboard-config.service.ts\<close>). The rating of a result
  (\<open>updateRating\<close>, exponentials in floating point) is an argument, as are the collation of names and the clock; nothing is
  assumed of the rating. Numbers are doubles (\<open>fl\<close>). The table has integer columns of 32 bits for net, hands, duration
  and buy-in, and refuses a row that does not fit. Shown: what a rebuild counts and whom it lists, the ranks and
  the caches, a restart, that banned players stay listed, and that one number too large empties the table.
\<close>

section \<open>Scores\<close>

record rating_state =
  ra_rating :: rat
  ra_rd :: rat
  ra_volatility :: rat

record rating_match =
  rt_rating :: rat
  rt_rd :: rat
  rt_score :: rat

type_synonym rater = "rating_state \<Rightarrow> rating_match list \<Rightarrow> rat \<Rightarrow> rating_state"

record score_entry =
  se_sessions :: "string list"
  se_rating :: rat
  se_rd :: rat
  se_volatility :: rat
  se_net :: rat
  se_bb :: rat
  se_hands :: rat
  se_duration :: rat
  se_buyIn :: rat
  se_finishes :: "(rat \<times> nat) list"

definition defaultScoreEntry :: score_entry where
  "defaultScoreEntry = \<lparr>se_sessions = [], se_rating = 0, se_rd = 350, se_volatility = fl (6 / 100), se_net = 0, se_bb = 0, se_hands = 0,
     se_duration = 0, se_buyIn = 0, se_finishes = []\<rparr>"

record score_delta =
  sd_points :: rat
  sd_net :: rat
  sd_bb :: rat
  sd_hands :: rat
  sd_duration :: rat
  sd_buyIn :: rat
  sd_finish :: "rat option"
  sd_ageDays :: rat

definition add_finish :: "rat option \<Rightarrow> (rat \<times> nat) list \<Rightarrow> (rat \<times> nat) list" where
  "add_finish finish fs = (case finish of
     None \<Rightarrow> fs
   | Some f \<Rightarrow> AList.update f ((case map_of fs f of None \<Rightarrow> 0 | Some n \<Rightarrow> n) + 1) fs)"

definition updateScoreEntry :: "rater \<Rightarrow> score_delta \<Rightarrow> score_entry \<Rightarrow> score_entry" where
  "updateScoreEntry rate d e =
     (let result = (if sd_points d > 0 then 1 else if sd_points d < 0 then 0 else 1 / 2);
          updated = rate \<lparr>ra_rating = se_rating e, ra_rd = se_rd e, ra_volatility = se_volatility e\<rparr>
            [\<lparr>rt_rating = 0, rt_rd = 350, rt_score = result\<rparr>] (sd_ageDays d)
      in e\<lparr>se_rating := ra_rating updated, se_rd := ra_rd updated, se_volatility := ra_volatility updated,
           se_net := fl (se_net e + sd_net d), se_bb := fl (se_bb e + sd_bb d), se_hands := fl (se_hands e + sd_hands d),
           se_duration := fl (se_duration e + sd_duration d), se_buyIn := fl (se_buyIn e + sd_buyIn d),
           se_finishes := add_finish (sd_finish d) (se_finishes e)\<rparr>)"

record board_row =
  br_playerId :: string
  br_rank :: nat
  br_rating :: rat
  br_rd :: rat
  br_volatility :: rat
  br_net :: rat
  br_bb :: rat
  br_hands :: rat
  br_duration :: rat
  br_buyIn :: rat
  br_finishes :: "(rat \<times> nat) list"

definition toLeaderboardRow :: "string \<Rightarrow> score_entry \<Rightarrow> nat \<Rightarrow> board_row" where
  "toLeaderboardRow playerId e rank = \<lparr>br_playerId = playerId, br_rank = rank, br_rating = se_rating e, br_rd = se_rd e,
     br_volatility = se_volatility e, br_net = se_net e, br_bb = se_bb e, br_hands = se_hands e, br_duration = se_duration e,
     br_buyIn = se_buyIn e, br_finishes = se_finishes e\<rparr>"

record board_entry =
  bn_playerId :: string
  bn_rank :: nat
  bn_points :: rat
  bn_rd :: rat
  bn_volatility :: rat
  bn_net :: rat
  bn_bb100 :: rat
  bn_hours :: rat
  bn_roi :: rat
  bn_finishes :: "(rat \<times> nat) list"

definition toLeaderboardEntry :: "board_row \<Rightarrow> board_entry" where
  "toLeaderboardEntry r = \<lparr>bn_playerId = br_playerId r, bn_rank = br_rank r, bn_points = br_rating r, bn_rd = br_rd r,
     bn_volatility = br_volatility r, bn_net = br_net r,
     bn_bb100 = (if br_hands r \<noteq> 0 then fl (fl (br_bb r / br_hands r) * 100) else 0),
     bn_hours = fl (br_duration r / 3600000),
     bn_roi = (if br_buyIn r \<noteq> 0 then fl (br_net r / br_buyIn r) else 0), bn_finishes = br_finishes r\<rparr>"

section \<open>The board\<close>

text \<open>The cache \<open>hot\<close> expires after half a minute, the cache \<open>data\<close> never.\<close>

record board =
  lb_scores :: "(string \<times> score_entry) list"
  lb_rows :: "board_row list"
  lb_hot :: "board_entry list option"
  lb_data :: "board_entry list option"
  lb_users :: "(string \<times> bool) list"

datatype board_error = InsertFailed

text \<open>A column of type \<open>integer\<close> takes whole numbers of 32 bits.\<close>

definition fits_integer :: "rat \<Rightarrow> bool" where
  "fits_integer q \<longleftrightarrow> q = of_int \<lfloor>q\<rfloor> \<and> - (2 ^ 31) \<le> q \<and> q < 2 ^ 31"

definition row_fits :: "board_row \<Rightarrow> bool" where
  "row_fits r \<longleftrightarrow> fits_integer (br_net r) \<and> fits_integer (br_hands r) \<and> fits_integer (br_duration r) \<and> fits_integer (br_buyIn r)"

text \<open>The order of the board: by rating, then by name; \<open>collate a b\<close> stands for \<open>a.localeCompare(b) <= 0\<close>.\<close>

definition before :: "(string \<Rightarrow> string \<Rightarrow> bool) \<Rightarrow> string \<times> score_entry \<Rightarrow> string \<times> score_entry \<Rightarrow> bool" where
  "before collate a b \<longleftrightarrow> se_rating (snd b) < se_rating (snd a) \<or> (se_rating (snd b) = se_rating (snd a) \<and> collate (fst a) (fst b))"

definition ranked_rows :: "(string \<Rightarrow> string \<Rightarrow> bool) \<Rightarrow> (string \<times> score_entry) list \<Rightarrow> board_row list" where
  "ranked_rows collate scores =
     map (\<lambda>(idx, (i, e)). toLeaderboardRow i e (idx + 1)) (enumerate 0 (js_sort (before collate) scores))"

definition persist_board :: "(string \<Rightarrow> string \<Rightarrow> bool) \<Rightarrow> board \<Rightarrow> (board_error + unit) \<times> board" where
  "persist_board collate b =
     (let rows = ranked_rows collate (lb_scores b)
      in if rows \<noteq> [] \<and> \<not> list_all row_fits rows then (Inl InsertFailed, b\<lparr>lb_rows := []\<rparr>)
         else let leaders = map toLeaderboardEntry (take 100 rows)
              in (Inr (), b\<lparr>lb_rows := rows, lb_hot := Some leaders, lb_data := Some leaders\<rparr>))"

definition fetchTopPlayers :: "board \<Rightarrow> board_entry list \<times> board" where
  "fetchTopPlayers b = (case lb_data b of
     Some cached \<Rightarrow> (cached, b)
   | None \<Rightarrow>
       let rows = take 100 (js_sort (\<lambda>x y. br_rank x \<le> br_rank y) (lb_rows b));
           allowed = map fst (filter (\<lambda>(i, banned). i \<in> br_playerId ` set rows \<and> \<not> banned) (lb_users b));
           top = map toLeaderboardEntry (filter (\<lambda>r. br_playerId r \<in> set allowed) rows)
       in (top, b\<lparr>lb_data := Some top\<rparr>))"

definition getTopPlayers :: "board \<Rightarrow> board_entry list \<times> board" where
  "getTopPlayers b = (case lb_hot b of
     Some cached \<Rightarrow> (cached, b)
   | None \<Rightarrow> (let (top, b1) = fetchTopPlayers b in (top, b1\<lparr>lb_hot := Some top\<rparr>)))"

definition invalidate :: "board \<Rightarrow> board" where
  "invalidate b = b\<lparr>lb_hot := None\<rparr>"

text \<open>An event of the stream that the schema accepts; missing numbers are 0, a missing time is now.\<close>

record board_event =
  bv_playerId :: string
  bv_sessionId :: "string option"
  bv_points :: "rat option"
  bv_net :: "rat option"
  bv_bb :: "rat option"
  bv_hands :: "rat option"
  bv_duration :: "rat option"
  bv_buyIn :: "rat option"
  bv_finish :: "rat option"
  bv_ts :: "rat option"

definition or_zero :: "rat option \<Rightarrow> rat" where
  "or_zero x = (case x of None \<Rightarrow> 0 | Some v \<Rightarrow> v)"

definition score_of :: "(string \<times> score_entry) list \<Rightarrow> string \<Rightarrow> score_entry" where
  "score_of scores i = (case map_of scores i of None \<Rightarrow> defaultScoreEntry | Some e \<Rightarrow> e)"

definition counts_event :: "board_event \<Rightarrow> bool" where
  "counts_event ev \<longleftrightarrow> bv_sessionId ev \<noteq> None \<and> bv_sessionId ev \<noteq> Some ''''"

definition event_delta :: "rat \<Rightarrow> board_event \<Rightarrow> score_delta" where
  "event_delta now ev = \<lparr>sd_points = or_zero (bv_points ev), sd_net = or_zero (bv_net ev), sd_bb = or_zero (bv_bb ev),
     sd_hands = or_zero (bv_hands ev), sd_duration = or_zero (bv_duration ev), sd_buyIn = or_zero (bv_buyIn ev),
     sd_finish = bv_finish ev,
     sd_ageDays = fl (fl (now - (case bv_ts ev of None \<Rightarrow> now | Some t \<Rightarrow> t)) / 86400000)\<rparr>"

definition count_event :: "rater \<Rightarrow> rat \<Rightarrow> board_event \<Rightarrow> (string \<times> score_entry) list \<Rightarrow> (string \<times> score_entry) list" where
  "count_event rate now ev scores =
     (if \<not> counts_event ev then scores
      else let e = score_of scores (bv_playerId ev);
               e1 = e\<lparr>se_sessions := js_unique (se_sessions e @ [the (bv_sessionId ev)])\<rparr>
           in AList.update (bv_playerId ev) (updateScoreEntry rate (event_delta now ev) e1) scores)"

text \<open>\<open>rebuildWithEvents\<close>; an event the schema refuses is \<open>None\<close>.\<close>

definition rebuildWithEvents ::
  "rater \<Rightarrow> (string \<Rightarrow> string \<Rightarrow> bool) \<Rightarrow> rat \<Rightarrow> (string \<Rightarrow> rat) \<Rightarrow> board_event option list \<Rightarrow> board \<Rightarrow> (board_error + unit) \<times> board" where
  "rebuildWithEvents rate collate now minSessions events b =
     (let scores = fold (\<lambda>ev s. case ev of None \<Rightarrow> s | Some v \<Rightarrow> count_event rate now v s) events [];
          filtered = filter (\<lambda>(i, e). of_nat (length (se_sessions e)) \<ge> minSessions i) scores
      in persist_board collate (b\<lparr>lb_scores := filtered\<rparr>))"

definition settled_delta :: "rat \<Rightarrow> score_delta" where
  "settled_delta d = \<lparr>sd_points = d, sd_net = d, sd_bb = d, sd_hands = 1, sd_duration = 0, sd_buyIn = 0, sd_finish = None, sd_ageDays = 0\<rparr>"

definition handleHandSettled ::
  "rater \<Rightarrow> (string \<Rightarrow> string \<Rightarrow> bool) \<Rightarrow> string list \<Rightarrow> rat list \<Rightarrow> board \<Rightarrow> (board_error + unit) \<times> board" where
  "handleHandSettled rate collate playerIds deltas b =
     persist_board collate (b\<lparr>lb_scores := fold (\<lambda>(idx, i) scores.
         AList.update i (updateScoreEntry rate (settled_delta (if idx < length deltas then deltas ! idx else 0)) (score_of scores i)) scores)
       (enumerate 0 playerIds) (lb_scores b)\<rparr>)"

definition entry_of_row :: "board_row \<Rightarrow> score_entry" where
  "entry_of_row r = \<lparr>se_sessions = [], se_rating = br_rating r, se_rd = br_rd r, se_volatility = br_volatility r, se_net = br_net r,
     se_bb = br_bb r, se_hands = br_hands r, se_duration = br_duration r, se_buyIn = br_buyIn r, se_finishes = br_finishes r\<rparr>"

definition board_onModuleInit ::
  "rater \<Rightarrow> (string \<Rightarrow> string \<Rightarrow> bool) \<Rightarrow> rat \<Rightarrow> board_event option list \<Rightarrow> board \<Rightarrow> (board_error + unit) \<times> board" where
  "board_onModuleInit rate collate now events b =
     (if lb_rows b = [] then rebuildWithEvents rate collate now (\<lambda>_. 10) events b
      else (Inr (), b\<lparr>lb_scores := fold (\<lambda>r. AList.update (br_playerId r) (entry_of_row r)) (lb_rows b) (lb_scores b)\<rparr>))"

section \<open>The filters of the board\<close>

record board_config =
  bc_rows :: "(string \<times> string) list"
  bc_ranges :: "string list"
  bc_modes :: "string list"

definition config_load :: "board_config \<Rightarrow> board_config" where
  "config_load c = c\<lparr>bc_ranges := js_unique (map fst (bc_rows c)), bc_modes := js_unique (map snd (bc_rows c))\<rparr>"

definition config_create :: "string \<times> string \<Rightarrow> board_config \<Rightarrow> board_config option" where
  "config_create e c = (if e \<in> set (bc_rows c) then None else Some (config_load (c\<lparr>bc_rows := bc_rows c @ [e]\<rparr>)))"

definition config_update :: "string \<times> string \<Rightarrow> string \<times> string \<Rightarrow> board_config \<Rightarrow> board_config option" where
  "config_update old new c =
     (if old \<in> set (bc_rows c) \<and> new \<noteq> old \<and> new \<in> set (bc_rows c) then None
      else Some (config_load (c\<lparr>bc_rows := map (\<lambda>r. if r = old then new else r) (bc_rows c)\<rparr>)))"

definition config_remove :: "string \<times> string \<Rightarrow> board_config \<Rightarrow> board_config" where
  "config_remove e c = config_load (c\<lparr>bc_rows := filter (\<lambda>r. r \<noteq> e) (bc_rows c)\<rparr>)"

section \<open>What a rebuild counts\<close>

definition events_of :: "string \<Rightarrow> board_event option list \<Rightarrow> board_event list" where
  "events_of p events = filter (\<lambda>v. counts_event v \<and> bv_playerId v = p) (List.map_filter id events)"

definition total_of :: "(board_event \<Rightarrow> rat option) \<Rightarrow> board_event list \<Rightarrow> rat" where
  "total_of f vs = foldl (\<lambda>a v. fl (a + or_zero (f v))) 0 vs"

definition count_one :: "rater \<Rightarrow> rat \<Rightarrow> board_event \<Rightarrow> score_entry \<Rightarrow> score_entry" where
  "count_one rate now v e =
     updateScoreEntry rate (event_delta now v) (e\<lparr>se_sessions := js_unique (se_sessions e @ [the (bv_sessionId v)])\<rparr>)"

lemma count_event_one:
  "count_event rate now v s = (if counts_event v then AList.update (bv_playerId v) (count_one rate now v (score_of s (bv_playerId v))) s else s)"
  by (simp add: count_event_def count_one_def Let_def)

lemma js_unique_append [simp]: "js_unique (js_unique xs @ ys) = js_unique (xs @ ys)"
proof -
  have "remdups (as @ remdups bs) = remdups (as @ bs)" for as bs :: "'a list" by (induction as) auto
  then show ?thesis by (simp add: js_unique_def)
qed

lemma count_one_fields:
  "se_sessions (count_one rate now v e) = js_unique (se_sessions e @ [the (bv_sessionId v)])"
  "se_net (count_one rate now v e) = fl (se_net e + or_zero (bv_net v))"
  "se_bb (count_one rate now v e) = fl (se_bb e + or_zero (bv_bb v))"
  "se_hands (count_one rate now v e) = fl (se_hands e + or_zero (bv_hands v))"
  "se_duration (count_one rate now v e) = fl (se_duration e + or_zero (bv_duration v))"
  "se_buyIn (count_one rate now v e) = fl (se_buyIn e + or_zero (bv_buyIn v))"
  by (simp_all add: count_one_def updateScoreEntry_def event_delta_def Let_def)

lemma fold_count_one:
  "se_sessions (fold (count_one rate now) vs e) = (if vs = [] then se_sessions e else js_unique (se_sessions e @ map (the \<circ> bv_sessionId) vs))"
  "se_net (fold (count_one rate now) vs e) = foldl (\<lambda>a v. fl (a + or_zero (bv_net v))) (se_net e) vs"
  "se_bb (fold (count_one rate now) vs e) = foldl (\<lambda>a v. fl (a + or_zero (bv_bb v))) (se_bb e) vs"
  "se_hands (fold (count_one rate now) vs e) = foldl (\<lambda>a v. fl (a + or_zero (bv_hands v))) (se_hands e) vs"
  "se_duration (fold (count_one rate now) vs e) = foldl (\<lambda>a v. fl (a + or_zero (bv_duration v))) (se_duration e) vs"
  "se_buyIn (fold (count_one rate now) vs e) = foldl (\<lambda>a v. fl (a + or_zero (bv_buyIn v))) (se_buyIn e) vs"
  by (induction vs arbitrary: e) (auto simp: count_one_fields)

definition counted_scores :: "rater \<Rightarrow> rat \<Rightarrow> board_event option list \<Rightarrow> (string \<times> score_entry) list \<Rightarrow> (string \<times> score_entry) list" where
  "counted_scores rate now events = fold (\<lambda>ev s. case ev of None \<Rightarrow> s | Some v \<Rightarrow> count_event rate now v s) events"

lemma counted_distinct: "distinct (map fst s) \<Longrightarrow> distinct (map fst (counted_scores rate now events s))"
  unfolding counted_scores_def
  by (induction events arbitrary: s) (auto simp: count_event_one distinct_update split: option.splits)

lemma counted_map:
  "map_of (counted_scores rate now events s) p
     = (if events_of p events = [] then map_of s p else Some (fold (count_one rate now) (events_of p events) (score_of s p)))"
proof (induction events arbitrary: s)
  case (Cons ev events)
  show ?case
  proof (cases ev)
    case None
    then show ?thesis using Cons.IH [of s] by (simp add: counted_scores_def events_of_def List.map_filter_simps)
  next
    case (Some v)
    have c: "counted_scores rate now (ev # events) s = counted_scores rate now events (count_event rate now v s)"
      using Some by (simp add: counted_scores_def)
    have e: "events_of p (ev # events) = (if counts_event v \<and> bv_playerId v = p then [v] else []) @ events_of p events"
      using Some by (simp add: events_of_def List.map_filter_simps)
    show ?thesis unfolding c e Cons.IH
      by (auto simp: count_event_one update_conv' score_of_def)
  qed
qed (simp add: counted_scores_def events_of_def List.map_filter_simps)

lemma map_of_filter_keys:
  "distinct (map fst xs) \<Longrightarrow> map_of (filter (\<lambda>(i, e). P i e) xs) p
     = (case map_of xs p of None \<Rightarrow> None | Some e \<Rightarrow> if P p e then Some e else None)"
  by (induction xs) (auto split: option.splits simp: map_of_eq_None_iff)

lemma persist_scores [simp]: "lb_scores (snd (persist_board collate b)) = lb_scores b"
  by (simp add: persist_board_def Let_def)

text \<open>C27: what a rebuild counts and whom it keeps. From any stream of events a player is listed exactly if his events that name a
  session name at least as many different sessions as required of him; his entry has those sessions, and his net, big blinds,
  hands, time and buy-ins are the sums of those of his events, in their order; whatever the ratings are and whether or not the table takes the rows.\<close>

theorem rebuild_exact:
  "case map_of (lb_scores (snd (rebuildWithEvents rate collate now minSessions events b))) p of
     None \<Rightarrow> events_of p events = [] \<or> of_nat (card (bv_sessionId ` set (events_of p events))) < minSessions p
   | Some e \<Rightarrow> events_of p events \<noteq> [] \<and> minSessions p \<le> of_nat (card (bv_sessionId ` set (events_of p events)))
       \<and> Some ` set (se_sessions e) = bv_sessionId ` set (events_of p events)
       \<and> se_net e = total_of bv_net (events_of p events) \<and> se_bb e = total_of bv_bb (events_of p events)
       \<and> se_hands e = total_of bv_hands (events_of p events) \<and> se_duration e = total_of bv_duration (events_of p events)
       \<and> se_buyIn e = total_of bv_buyIn (events_of p events)"
proof -
  let ?vs = "events_of p events" and ?s = "counted_scores rate now events []"
  define e where "e = fold (count_one rate now) ?vs defaultScoreEntry"
  have sid: "bv_sessionId v = Some (the (bv_sessionId v))" if "v \<in> set ?vs" for v
    using that by (auto simp: events_of_def counts_event_def)
  have img: "Some ` set (se_sessions e) = bv_sessionId ` set ?vs" if "?vs \<noteq> []"
    using that sid by (force simp: e_def fold_count_one(1) defaultScoreEntry_def image_image)
  have "distinct (se_sessions e)" by (simp add: e_def fold_count_one(1) defaultScoreEntry_def)
  then have len: "length (se_sessions e) = card (bv_sessionId ` set ?vs)" if "?vs \<noteq> []"
    using img [OF that] by (metis card_image distinct_card inj_Some inj_on_subset subset_UNIV)
  have m: "map_of ?s p = (if ?vs = [] then None else Some e)" by (simp add: counted_map e_def score_of_def)
  have "lb_scores (snd (rebuildWithEvents rate collate now minSessions events b))
      = filter (\<lambda>(i, e). minSessions i \<le> of_nat (length (se_sessions e))) ?s"
    by (simp add: rebuildWithEvents_def counted_scores_def Let_def)
  then have "map_of (lb_scores (snd (rebuildWithEvents rate collate now minSessions events b))) p
      = (if ?vs = [] \<or> \<not> minSessions p \<le> of_nat (length (se_sessions e)) then None else Some e)"
    using map_of_filter_keys [OF counted_distinct [of "[]"], of "\<lambda>i e. minSessions i \<le> of_nat (length (se_sessions e))"] m by simp
  moreover have "se_net e = total_of bv_net ?vs" "se_bb e = total_of bv_bb ?vs" "se_hands e = total_of bv_hands ?vs"
    "se_duration e = total_of bv_duration ?vs" "se_buyIn e = total_of bv_buyIn ?vs"
    by (simp_all add: e_def fold_count_one total_of_def defaultScoreEntry_def)
  ultimately show ?thesis using img len by (cases "?vs = []") auto
qed

section \<open>The table and the caches\<close>

lemma ranked_rows_ids: "map br_playerId (ranked_rows collate s) = map fst (js_sort (before collate) s)"
  by (rule nth_equalityI) (auto simp: ranked_rows_def toLeaderboardRow_def nth_enumerate_eq split_def)

lemma ranked_rows_nth:
  "k < length s \<Longrightarrow> ranked_rows collate s ! k = (let x = js_sort (before collate) s ! k in toLeaderboardRow (fst x) (snd x) (k + 1))"
  by (simp add: ranked_rows_def nth_enumerate_eq split_def Let_def)

lemma ranked_rows_length [simp]: "length (ranked_rows collate s) = length s"
  by (simp add: ranked_rows_def)

text \<open>the board is in order. If the collation of names is a total order, the rows that are stored have the ranks from 1 on, the players of the scores, once
  each, and ratings that do not increase, with equal ratings in the order of the names; and both caches hold the first hundred of them.\<close>

theorem board_ranked:
  assumes "\<And>x y. collate x y \<or> collate y x" "\<And>x y z. collate x y \<Longrightarrow> collate y z \<Longrightarrow> collate x z"
    "persist_board collate b = (Inr (), b')"
  shows "map br_rank (lb_rows b') = [1..<length (lb_scores b) + 1]
    \<and> mset (map br_playerId (lb_rows b')) = mset (map fst (lb_scores b))
    \<and> sorted_wrt (\<lambda>x y. br_rating y < br_rating x \<or> br_rating y = br_rating x \<and> collate (br_playerId x) (br_playerId y)) (lb_rows b')
    \<and> lb_hot b' = Some (map toLeaderboardEntry (take 100 (lb_rows b'))) \<and> lb_data b' = lb_hot b'"
proof -
  have b': "lb_rows b' = ranked_rows collate (lb_scores b)" "lb_hot b' = Some (map toLeaderboardEntry (take 100 (lb_rows b')))" "lb_data b' = lb_hot b'"
    using assms(3) by (auto simp: persist_board_def Let_def split: if_splits)
  have tot: "\<not> before collate x y \<Longrightarrow> before collate y x" for x y using assms(1) by (auto simp: before_def)
  have tr: "before collate x y \<Longrightarrow> before collate y z \<Longrightarrow> before collate x z" for x y z using assms(2) by (auto simp: before_def)
  have s: "sorted_wrt (before collate) (js_sort (before collate) (lb_scores b))" by (rule sorted_js_sort [OF tot tr])
  have "map br_rank (lb_rows b') = [1..<length (lb_scores b) + 1]"
    by (rule nth_equalityI) (simp_all add: b'(1) ranked_rows_nth toLeaderboardRow_def Let_def del: upt_Suc)
  moreover have "mset (map br_playerId (lb_rows b')) = mset (map fst (lb_scores b))"
    unfolding b'(1) ranked_rows_ids by simp
  moreover have "sorted_wrt (\<lambda>x y. br_rating y < br_rating x \<or> br_rating y = br_rating x \<and> collate (br_playerId x) (br_playerId y)) (lb_rows b')"
    using s unfolding b'(1) sorted_wrt_iff_nth_less by (simp add: ranked_rows_nth toLeaderboardRow_def before_def Let_def)
  ultimately show ?thesis using b' by simp
qed

theorem board_ranked_witness:
  "\<exists>b. persist_board (\<lambda>_ _. True) \<lparr>lb_scores = [(''p'', defaultScoreEntry), (''q'', defaultScoreEntry\<lparr>se_rating := 5\<rparr>)], lb_rows = [],
       lb_hot = None, lb_data = None, lb_users = []\<rparr> = (Inr (), b)
     \<and> map br_rank (lb_rows b) = [1, 2] \<and> mset (map br_playerId (lb_rows b)) = {#''p'', ''q''#}"
proof -
  let ?b = "\<lparr>lb_scores = [(''p'', defaultScoreEntry), (''q'', defaultScoreEntry\<lparr>se_rating := 5\<rparr>)], lb_rows = [], lb_hot = None, lb_data = None, lb_users = []\<rparr>"
  obtain b where b: "persist_board (\<lambda>_ _. True) ?b = (Inr (), b)"
    by (simp add: persist_board_def ranked_rows_def row_fits_def fits_integer_def toLeaderboardRow_def defaultScoreEntry_def before_def
        enumerate_eq_zip Let_def)
  show ?thesis using board_ranked [OF _ _ b] b by (simp add: upt_rec)
qed

text \<open>A restart reads back the scores of the table; only the sessions are forgotten.\<close>

lemma fold_updates:
  "distinct (map f xs) \<Longrightarrow> map_of (fold (\<lambda>x. AList.update (f x) (g x)) xs s) i
     = (case map_of (map (\<lambda>x. (f x, g x)) xs) i of None \<Rightarrow> map_of s i | Some y \<Rightarrow> Some y)"
proof (induction xs arbitrary: s)
  case (Cons x xs)
  have "map_of (map (\<lambda>x. (f x, g x)) xs) (f x) = None" using Cons.prems by (simp add: map_of_eq_None_iff image_image)
  then show ?case using Cons by (auto simp: update_conv' split: option.splits)
qed simp

lemma ranked_entries:
  "map (\<lambda>r. (br_playerId r, entry_of_row r)) (ranked_rows collate s)
     = map (\<lambda>(i, e). (i, e\<lparr>se_sessions := []\<rparr>)) (js_sort (before collate) s)"
  by (rule nth_equalityI) (simp_all add: ranked_rows_nth Let_def split_def entry_of_row_def toLeaderboardRow_def)

text \<open>the board survives a restart. After a successful write of at least one score, a service started on the same table has the same scores for
  the same players, in every field but the set of sessions, which is not stored.\<close>

theorem board_survives_restart:
  assumes "persist_board collate b = (Inr (), b')" "distinct (map fst (lb_scores b))" "lb_scores b \<noteq> []"
  shows "\<exists>b''. board_onModuleInit rate collate now events (b'\<lparr>lb_scores := []\<rparr>) = (Inr (), b'')
    \<and> map_of (lb_scores b'') i = map_option (\<lambda>e. e\<lparr>se_sessions := []\<rparr>) (map_of (lb_scores b) i)"
proof -
  let ?s = "js_sort (before collate) (lb_scores b)"
  have rows: "lb_rows b' = ranked_rows collate (lb_scores b)"
    using assms(1) by (auto simp: persist_board_def Let_def split: if_splits)
  have d: "distinct (map fst ?s)" using assms(2) by (metis mset_js_sort mset_map mset_eq_imp_distinct_iff)
  then have "map_of ?s = map_of (lb_scores b)" using assms(2) by (simp add: map_of_inject_set)
  then have "map_of (fold (\<lambda>r. AList.update (br_playerId r) (entry_of_row r)) (ranked_rows collate (lb_scores b)) []) i
      = map_option (\<lambda>e. e\<lparr>se_sessions := []\<rparr>) (map_of (lb_scores b) i)"
    using fold_updates [of br_playerId "ranked_rows collate (lb_scores b)" entry_of_row "[]" i] d
    by (simp add: ranked_rows_ids ranked_entries map_of_map split: option.splits)
  moreover have "ranked_rows collate (lb_scores b) \<noteq> []" using assms(3) by (metis length_0_conv ranked_rows_length)
  ultimately show ?thesis using rows by (simp add: board_onModuleInit_def)
qed

definition demo_board :: board where
  "demo_board = \<lparr>lb_scores = [(''p'', defaultScoreEntry), (''q'', defaultScoreEntry\<lparr>se_rating := 5, se_sessions := [''s'']\<rparr>)], lb_rows = [],
     lb_hot = None, lb_data = None, lb_users = [(''p'', False), (''q'', True)]\<rparr>"

lemma demo_board_written: "\<exists>b. persist_board (\<lambda>_ _. True) demo_board = (Inr (), b)"
  by (simp add: demo_board_def persist_board_def ranked_rows_def row_fits_def fits_integer_def toLeaderboardRow_def defaultScoreEntry_def
      before_def enumerate_eq_zip Let_def)

theorem board_survives_restart_witness:
  "\<exists>b b'' e. persist_board (\<lambda>_ _. True) demo_board = (Inr (), b)
     \<and> board_onModuleInit (\<lambda>s _ _. s) (\<lambda>_ _. True) 0 [] (b\<lparr>lb_scores := []\<rparr>) = (Inr (), b'')
     \<and> map_of (lb_scores b'') ''q'' = Some e \<and> se_rating e = 5 \<and> se_sessions e = []"
proof -
  obtain b where b: "persist_board (\<lambda>_ _. True) demo_board = (Inr (), b)" using demo_board_written by blast
  have s: "distinct (map fst (lb_scores demo_board))" "lb_scores demo_board \<noteq> []"
    "map_of (lb_scores demo_board) ''q'' = Some (defaultScoreEntry\<lparr>se_rating := 5, se_sessions := [''s'']\<rparr>)"
    by (simp_all add: demo_board_def)
  from board_survives_restart [OF b s(1,2), of "\<lambda>s _ _. s" 0 "[]" "''q''"] show ?thesis
    using b s(3) by auto
qed

text \<open>banned players stay on the board. After a successful write the list is the first hundred of the table whoever has been banned, also when the hot cache
  has been invalidated or has expired; only when both caches are gone are the banned players left out.\<close>

theorem banned_listed:
  assumes "persist_board collate b = (Inr (), b')"
  shows "fst (getTopPlayers (b'\<lparr>lb_users := us\<rparr>)) = map toLeaderboardEntry (take 100 (lb_rows b'))
    \<and> fst (getTopPlayers (invalidate (b'\<lparr>lb_users := us\<rparr>))) = map toLeaderboardEntry (take 100 (lb_rows b'))
    \<and> bn_playerId ` set (fst (getTopPlayers (b'\<lparr>lb_users := us, lb_hot := None, lb_data := None\<rparr>))) \<subseteq> {i. (i, False) \<in> set us}"
proof -
  have b': "lb_hot b' = Some (map toLeaderboardEntry (take 100 (lb_rows b')))" "lb_data b' = lb_hot b'"
    using assms by (auto simp: persist_board_def Let_def split: if_splits)
  have "bn_playerId ` set (fst (getTopPlayers (b'\<lparr>lb_users := us, lb_hot := None, lb_data := None\<rparr>))) \<subseteq> {i. (i, False) \<in> set us}"
    by (auto simp: getTopPlayers_def fetchTopPlayers_def toLeaderboardEntry_def Let_def)
  then show ?thesis using b' by (simp add: getTopPlayers_def fetchTopPlayers_def invalidate_def)
qed

theorem banned_listed_witness:
  "\<exists>b. persist_board (\<lambda>_ _. True) demo_board = (Inr (), b)
     \<and> fst (getTopPlayers (invalidate (b\<lparr>lb_users := [(''q'', True)]\<rparr>))) = map toLeaderboardEntry (take 100 (lb_rows b))"
proof -
  obtain b where b: "persist_board (\<lambda>_ _. True) demo_board = (Inr (), b)" using demo_board_written by blast
  with banned_listed [OF b, of "[(''q'', True)]"] show ?thesis by blast
qed

lemma settled_others:
  "i \<notin> set (map snd xs) \<Longrightarrow> map_of (fold (\<lambda>(idx, j) s. AList.update j (f idx j s) s) xs s) i = map_of s i"
  by (induction xs arbitrary: s) (auto simp: update_conv')

lemma map_of_row_fails:
  assumes "map_of s i = Some e" "\<not> fits_integer (se_duration e)"
  shows "ranked_rows collate s \<noteq> [] \<and> \<not> list_all row_fits (ranked_rows collate s)"
proof -
  have "(i, e) \<in> set (js_sort (before collate) s)" using map_of_SomeD [OF assms(1)] by simp
  then obtain k where k: "k < length s" "js_sort (before collate) s ! k = (i, e)" by (metis in_set_conv_nth length_js_sort)
  have "\<not> row_fits (ranked_rows collate s ! k)"
    using assms(2) by (simp add: ranked_rows_nth k row_fits_def toLeaderboardRow_def)
  then show ?thesis using k(1) by (metis length_greater_0_conv less_nat_zero_code list_all_length ranked_rows_length list.size(3))
qed

text \<open>C36: one number too large empties the table. When the time a player has played no longer fits the integer column (after 25 days, it is kept in milliseconds),
  writing the board throws after the table has been cleared; the caches keep the old list. From then on every
  hand of other players that is settled throws as well and the table stays empty.\<close>

theorem overflow_empties_board:
  assumes "map_of (lb_scores b) i = Some e" "\<not> fits_integer (se_duration e)" "i \<notin> set playerIds"
  shows "persist_board collate b = (Inl InsertFailed, b\<lparr>lb_rows := []\<rparr>)
    \<and> fst (handleHandSettled rate collate playerIds deltas b) = Inl InsertFailed
    \<and> lb_rows (snd (handleHandSettled rate collate playerIds deltas b)) = []
    \<and> lb_hot (snd (handleHandSettled rate collate playerIds deltas b)) = lb_hot b
    \<and> map_of (lb_scores (snd (handleHandSettled rate collate playerIds deltas b))) i = Some e"
proof -
  define s where "s = fold (\<lambda>(idx, j) scores.
         AList.update j (updateScoreEntry rate (settled_delta (if idx < length deltas then deltas ! idx else 0)) (score_of scores j)) scores)
       (enumerate 0 playerIds) (lb_scores b)"
  have m: "map_of s i = Some e"
    using settled_others [of i "enumerate 0 playerIds" "\<lambda>idx j scores. updateScoreEntry rate
        (settled_delta (if idx < length deltas then deltas ! idx else 0)) (score_of scores j)" "lb_scores b"] assms(1,3)
    unfolding s_def by simp
  have h: "handleHandSettled rate collate playerIds deltas b = persist_board collate (b\<lparr>lb_scores := s\<rparr>)"
    by (simp add: handleHandSettled_def s_def)
  have fail: "persist_board collate c = (Inl InsertFailed, c\<lparr>lb_rows := []\<rparr>)" if "map_of (lb_scores c) i = Some e" for c
    using map_of_row_fails [OF that assms(2), of collate] by (simp add: persist_board_def Let_def)
  show ?thesis using fail [OF assms(1)] fail [of "b\<lparr>lb_scores := s\<rparr>"] m by (simp add: h)
qed

theorem overflow_empties_board_witness:
  "fst (handleHandSettled (\<lambda>s _ _. s) (\<lambda>_ _. True) [''q''] [3]
     (demo_board\<lparr>lb_scores := [(''p'', defaultScoreEntry\<lparr>se_duration := 2147483648\<rparr>)]\<rparr>)) = Inl InsertFailed"
  by (rule overflow_empties_board [where i = "''p''" and e = "defaultScoreEntry\<lparr>se_duration := 2147483648\<rparr>", THEN conjunct2, THEN conjunct1])
    (simp_all add: fits_integer_def)

end
