(* ===== verification/Spec2Isabelle.thy ===== *)
theory Spec2Isabelle
  imports Prelude Doubles Verify SidePots StateMachine HandRun Effects RedisClient Ledger LedgerInv Wallet
    Webhooks WalletInv WalletProps WalletLocks Engine EngineProps RoomWorker Balancing Prizes Levels Tournament
    TournamentProps TourneyBalance Gateway GatewayProps GatewayRuns GatewayStore Sessions Collusion CollusionProps
    Rooms RoomProps Flags CashTables Leaderboard
begin

text \<open>
  A verification of the rules and the money of PokerHub, a poker server in TypeScript.

  \<^bold>\<open>The program.\<close> A table runs in a worker thread (\<open>backend/src/game/room.worker.ts\<close>) around a
  game engine (\<open>backend/src/game/engine/index.ts\<close>), which drives a hand state machine
  (\<open>backend/src/game/state-machine.ts\<close>), shuffles with a committed seed (\<open>backend/src/game/rng.ts\<close>,
  \<open>shared/verify/index.ts\<close>), settles the pots (\<open>shared/poker/sidePots.ts\<close>), keeps a log
  (\<open>backend/src/game/hand-log.ts\<close>) and books the result in the wallet
  (\<open>backend/src/wallet/wallet.service.ts\<close> and the services beside it). Tournaments
  (\<open>backend/src/tournament\<close>) take buy-ins from the wallet, seat players, balance the tables and compute prizes.
  Clients talk to the socket gateway (\<open>backend/src/game/game.gateway.ts\<close>), which runs engines of its own, one per
  table, beside the ones of the workers. Accounts sign in and keep their sessions in Redis
  (\<open>backend/src/auth/auth.service.ts\<close>, \<open>backend/src/session/session.service.ts\<close>), and a periodic job looks for
  players who collude (\<open>backend/src/analytics/collusion.ts\<close>, \<open>collusion.service.ts\<close> beside it and
  \<open>shared/analytics/collusion.ts\<close>).

  \<^bold>\<open>Theories\<close>, in the order of their imports.
  \<^item> \<open>Prelude\<close>, \<open>Doubles\<close>: shared lemmas, results, decimal texts, stable sorting; rounding to
    IEEE doubles as exact rationals.
  \<^item> \<open>Verify\<close>: \<open>shared/verify/index.ts\<close> and \<open>rng.ts\<close>. Bytes are 8-bit words, the draw is a
    signed 32-bit word; SHA-256 is a parameter. Shown: commitments verify; the shuffle is a permutation
    when no draw is negative, and what it does otherwise.
  \<^item> \<open>SidePots\<close>: hand evaluation and settlement. Shown: the nested loops evaluate the best of all
    five-card hands, settlement pays out the pots.
  \<^item> \<open>StateMachine\<close>, \<open>HandRun\<close>: the phases of a hand, and sequences of accepted actions as an inductive
    relation. Shown: the 52 cards stay a partition, chips are never created, a hand can always be finished,
    the deck errors cannot occur.
  \<^item> \<open>Effects\<close>: methods with effects as state-passing functions with exceptions, rules for invariants and
    weakest preconditions. \<open>RedisClient\<close>: the contract of Redis as a locale, and the repository's in-memory client.
  \<^item> \<open>Ledger\<close>, \<open>LedgerInv\<close>, \<open>Wallet\<close>, \<open>Webhooks\<close>, \<open>WalletInv\<close>, \<open>WalletProps\<close>, \<open>WalletLocks\<close>: every
    method of the wallet, the settlement journal, the hand ledger, the charge-back monitor and the payment
    webhooks. Shown: every reachable state reconciles, limits hold, deposits are confirmed once.
  \<^item> \<open>Engine\<close>, \<open>EngineProps\<close>: the engine with its log, its sanitised states and its settlement in the
    wallet. Shown: it refines the state machine, the log is complete and replays, cards stay private.
  \<^item> \<open>RoomWorker\<close>: the message handler of a table. Shown: its dealing loop ends and hands over to a player.
  \<^item> \<open>Balancing\<close>, \<open>Prizes\<close>, \<open>Levels\<close>, \<open>Tournament\<close>, \<open>TournamentProps\<close>, \<open>TourneyBalance\<close>: the tournament
    service, table balancer, scheduler, prizes and the Independent Chip Model. Shown: balancing keeps the
    players, levels the tables and is carried out on the rows of the seats; prizes add up; levels survive a
    restart; the life cycle of a tournament; registrations fill the tables evenly; what is charged for them.
  \<^item> \<open>Gateway\<close>, \<open>GatewayProps\<close>, \<open>GatewayRuns\<close>, \<open>GatewayStore\<close>: the socket gateway with its queues, frames,
    rate limits, memory of requests, snapshots and timers, over a contract of Redis. Shown over any run of its handlers:
    actions are acted upon at most once, nobody sees another's cards, the rate limit holds, a restart reads back
    the cached states; each request refines the engine's own action; frames are retried a bounded number of times; and where the code falls short
    (a race, refused requests, the player the clock watches, engines after a restart).
  \<^item> \<open>Rooms\<close>, \<open>RoomProps\<close>: \<open>room.service.ts\<close> and \<open>room.follower.ts\<close>, the worker and the follower of a table as threads with queues
    of messages, delivered in any order. Shown: no call is lost or answered twice, what the follower's log holds; and that a room
    that has failed over plays no more, closing leaves a thread behind and a refused action ends the server.
  \<^item> \<open>Flags\<close>: \<open>feature-flags.service.ts\<close>. Shown: it refines a map of switches, listing ends, and switching dealing off
    stops the worker of a table from starting hands.
  \<^item> \<open>CashTables\<close>: \<open>tables.service.ts\<close> and \<open>chat.service.ts\<close>. Shown: the chat returns the last messages in order, rooms are
    opened by looking at a table and never closed.
  \<^item> \<open>Leaderboard\<close>: \<open>backend/src/leaderboard\<close>, for any rating function. Shown: what a rebuild counts, ranks and caches, a
    restart; that banned players stay listed and that one number too large empties the table.
  \<^item> \<open>Sessions\<close>: accounts, tokens and password resets. Shown over any run: a refresh token is exchanged at most once, codes
    are limited; a reset ends every session of the user; access tokens verify while their secret is configured.
  \<^item> \<open>Collusion\<close>, \<open>CollusionProps\<close>: the detectors, the service of flagged sessions and the job. Shown: clusters and
    shared devices are exact, reviews climb a ladder; that transfers between two players are never detected, and
    that flagging again forgets a review.

  \<^bold>\<open>Conventions.\<close> Amounts are integers, as the columns of the database are; where the code computes with
  fractions the results are rounded to doubles. A repository is the list of its rows in order of insertion. A
  method runs to its end before the next begins, except where a theorem is about an interleaving. Exceptions
  are values, and state written before one stays written. No fuel is used: every loop is structurally
  recursive or has a proof of termination; the one that Redis could keep going, the scan of the switches, is a partial
  function that is shown to return.

  \<^bold>\<open>Parameters.\<close> SHA-256, password hashes, token signatures, identifiers, clocks, Redis, the identity and geolocation checks, the payment
  provider and the object mapper's loading of relations are arguments of the definitions that use them.

  \<^bold>\<open>Not modelled.\<close> The spectators' gateway (transport), the ingestion
  of analytics, the rating formula of the leaderboard (exponentials in floating point), promotions, notifications, the frontend, and the deployment scripts;
  within modelled files: metrics, logging, spans and the file of hand proofs.
\<close>

end
